(* ===== verification/Prelude.thy ===== *)
theory Prelude
  imports
    Main
    "HOL-Library.Char_ord"
    "HOL-Library.List_Lexorder"
    "HOL-Library.Product_Lexorder"
    "HOL-Library.AList"
    "HOL-Library.Sublist"
    "HOL-Library.Multiset"
begin

text \<open>
  Shared vocabulary of the development.

  \<^item> Go strings and byte slices are sequences of bytes, so both are \<^typ>\<open>string\<close>: a
    \<^typ>\<open>char\<close> of HOL is exactly one byte. Where the code distinguishes a nil slice from an empty
    one the model uses \<open>bytes option\<close>, with \<open>None\<close> for nil.
  \<^item> A fallible Go function returns a value of a sum type, \<open>Inl\<close> for the error; \<open>and_then\<close>
    is the early return of the code's \<open>if err != nil { return ..., err }\<close>.
  \<^item> A Go map is an association list with distinct keys. The order of the list is the order in
    which one particular execution ranges over the map, which Go leaves unspecified; a function whose
    result does not depend on that order is proved to be invariant under reordering.
  \<^item> The locales \<open>codec\<close> and \<open>canonical_codec\<close> are the contract of a textual encoding, which the
    encodings of the standard library and of the bindings instantiate.
\<close>

section \<open>Types\<close>

type_synonym bytes = string

type_synonym ('k, 'v) gomap = "('k \<times> 'v) list"

named_theorems result_simps \<open>computation rules of the result type\<close>

named_theorems wire_simps \<open>facts about wire formats that the binding proofs share\<close>

named_theorems eval_defs \<open>definitions unfolded to evaluate a closed term by the simplifier\<close>

section \<open>Bytes\<close>

abbreviation byte :: "char \<Rightarrow> nat" where
  "byte c \<equiv> of_char c"

lemma byte_less [simp]: "byte c < 256"
  by (metis char_of_char mod_less_divisor of_char_of zero_less_numeral)

lemma byte_le [simp]: "byte c \<le> 255"
  using byte_less [of c] by linarith

lemma byte_char_of [simp]: "n < 256 \<Longrightarrow> byte (char_of n) = n"
  by simp

lemma byte_eq_iff: "byte c = byte d \<longleftrightarrow> c = d"
  by (metis char_of_char)

lemma char_of_eqI: "byte c = n \<Longrightarrow> char_of n = c"
  by auto

section \<open>Results\<close>

definition and_then :: "'e + 'a \<Rightarrow> ('a \<Rightarrow> 'e + 'b) \<Rightarrow> 'e + 'b" where
  "and_then m f = (case m of Inl e \<Rightarrow> Inl e | Inr x \<Rightarrow> f x)"

lemma and_then_Inl [simp, result_simps]: "and_then (Inl e) f = Inl e"
  by (simp add: and_then_def)

lemma and_then_Inr [simp, result_simps]: "and_then (Inr x) f = f x"
  by (simp add: and_then_def)

lemma and_then_eq_Inr [simp]:
  "and_then m f = Inr y \<longleftrightarrow> (\<exists>x. m = Inr x \<and> f x = Inr y)"
  by (cases m) auto

lemma and_then_eq_Inl:
  "and_then m f = Inl e \<longleftrightarrow> m = Inl e \<or> (\<exists>x. m = Inr x \<and> f x = Inl e)"
  by (cases m) auto

lemma and_then_assoc: "and_then (and_then m f) g = and_then m (\<lambda>x. and_then (f x) g)"
  by (cases m) auto

lemma and_then_cong [fundef_cong]:
  "m = m' \<Longrightarrow> (\<And>x. m' = Inr x \<Longrightarrow> f x = g x) \<Longrightarrow> and_then m f = and_then m' g"
  by (cases m) auto

text \<open>A guard that returns an error early.\<close>

definition ensure :: "bool \<Rightarrow> 'e \<Rightarrow> 'e + unit" where
  "ensure b e = (if b then Inr () else Inl e)"

lemma ensure_simps [simp, result_simps]:
  "ensure True e = Inr ()" "ensure False e = Inl e"
  by (simp_all add: ensure_def)

lemma ensure_eq_Inr [simp]: "ensure b e = Inr u \<longleftrightarrow> b"
  by (simp add: ensure_def)

lemma ensure_eq_Inl [simp]: "ensure b e = Inl e' \<longleftrightarrow> \<not> b \<and> e = e'"
  by (auto simp: ensure_def)

text \<open>A loop over a slice whose body may return an error.\<close>

fun fold_result :: "('s \<Rightarrow> 'a \<Rightarrow> 'e + 's) \<Rightarrow> 's \<Rightarrow> 'a list \<Rightarrow> 'e + 's" where
  "fold_result f s [] = Inr s"
| "fold_result f s (x # xs) = and_then (f s x) (\<lambda>s'. fold_result f s' xs)"

lemma fold_result_append:
  "fold_result f s (xs @ ys) = and_then (fold_result f s xs) (\<lambda>s'. fold_result f s' ys)"
  by (induction xs arbitrary: s) (auto simp: and_then_assoc)

lemma fold_result_invariant:
  assumes "fold_result f s xs = Inr s'" and "P s"
    and "\<And>s x t. x \<in> set xs \<Longrightarrow> P s \<Longrightarrow> f s x = Inr t \<Longrightarrow> P t"
  shows "P s'"
  using assms
proof (induction xs arbitrary: s)
  case Nil
  then show ?case by simp
next
  case (Cons x xs)
  from Cons.prems(1) obtain t where t: "f s x = Inr t" "fold_result f t xs = Inr s'" by auto
  have "P t" using Cons.prems(3) [OF _ Cons.prems(2) t(1)] by simp
  then show ?case using Cons.IH [OF t(2)] Cons.prems(3) by (metis list.set_intros(2))
qed

lemma fold_result_filter:
  "(\<And>s x. x \<in> set xs \<Longrightarrow> \<not> P x \<Longrightarrow> f s x = Inr s) \<Longrightarrow> fold_result f s xs = fold_result f s (filter P xs)"
  by (induction xs arbitrary: s) (auto intro!: and_then_cong)

lemma fold_result_map: "fold_result f s (map g xs) = fold_result (\<lambda>s x. f s (g x)) s xs"
  by (induction xs arbitrary: s) (auto intro!: and_then_cong)

lemma fold_result_step:
  "fold_result f s xs = Inr s' \<Longrightarrow> x \<in> set xs \<Longrightarrow> \<exists>t t'. f t x = Inr t'"
  by (induction xs arbitrary: s) auto

lemma fold_result_total:
  assumes "\<And>s x. x \<in> set xs \<Longrightarrow> f s x = Inr (g s x)"
  shows "fold_result f s xs = Inr (foldl g s xs)"
  using assms by (induction xs arbitrary: s) auto

fun map_result :: "('a \<Rightarrow> 'e + 'b) \<Rightarrow> 'a list \<Rightarrow> 'e + 'b list" where
  "map_result f [] = Inr []"
| "map_result f (x # xs) = and_then (f x) (\<lambda>y. and_then (map_result f xs) (\<lambda>ys. Inr (y # ys)))"

lemma map_result_total:
  "(\<And>x. x \<in> set xs \<Longrightarrow> f x = Inr (g x)) \<Longrightarrow> map_result f xs = Inr (map g xs)"
  by (induction xs) auto

lemma map_result_Inr_length: "map_result f xs = Inr ys \<Longrightarrow> length ys = length xs"
  by (induction xs arbitrary: ys) auto

lemma map_result_Inr_nth:
  "map_result f xs = Inr ys \<Longrightarrow> i < length xs \<Longrightarrow> f (xs ! i) = Inr (ys ! i)"
  by (induction xs arbitrary: ys i) (auto simp: nth_Cons split: nat.splits)

lemma map_result_Inr_mem:
  "map_result f xs = Inr ys \<Longrightarrow> y \<in> set ys \<Longrightarrow> \<exists>x \<in> set xs. f x = Inr y"
  by (induction xs arbitrary: ys) auto

section \<open>Outcomes\<close>

text \<open>
  The outcome of a fallible computation: \<open>P\<close> of its error or \<open>Q\<close> of its result. The rules follow the shape
  of the program, so that one statement about a decoder covers its error paths and its results.
\<close>

definition yields :: "('e \<Rightarrow> bool) \<Rightarrow> ('a \<Rightarrow> bool) \<Rightarrow> 'e + 'a \<Rightarrow> bool" where
  "yields P Q m \<longleftrightarrow> (case m of Inl e \<Rightarrow> P e | Inr x \<Rightarrow> Q x)"

lemma yields_simps [simp]: "yields P Q (Inl e) \<longleftrightarrow> P e" "yields P Q (Inr x) \<longleftrightarrow> Q x"
  by (simp_all add: yields_def)

lemma yields_Inl: "yields P Q m \<Longrightarrow> m = Inl e \<Longrightarrow> P e"
  by simp

lemma yields_Inr: "yields P Q m \<Longrightarrow> m = Inr x \<Longrightarrow> Q x"
  by simp

lemma yields_if [simp]:
  "yields P Q (if b then m else n) \<longleftrightarrow> (b \<longrightarrow> yields P Q m) \<and> (\<not> b \<longrightarrow> yields P Q n)"
  by simp

lemma yields_and_then:
  "yields P R m \<Longrightarrow> (\<And>x. m = Inr x \<Longrightarrow> R x \<Longrightarrow> yields P Q (f x)) \<Longrightarrow> yields P Q (and_then m f)"
  by (cases m) auto

lemma yields_mono: "yields P R m \<Longrightarrow> (\<And>e. P e \<Longrightarrow> P' e) \<Longrightarrow> (\<And>x. R x \<Longrightarrow> Q x) \<Longrightarrow> yields P' Q m"
  by (cases m) auto

lemma yields_fold_result:
  assumes "I s" and "\<And>s x. x \<in> set xs \<Longrightarrow> I s \<Longrightarrow> yields P I (f s x)"
  shows "yields P I (fold_result f s xs)"
  using assms
proof (induction xs arbitrary: s)
  case (Cons x xs)
  show ?case unfolding fold_result.simps
  proof (rule yields_and_then)
    show "yields P I (f s x)" using Cons.prems by simp
    show "yields P I (fold_result f t xs)" if "I t" for t using Cons.IH [OF that] Cons.prems(2) by simp
  qed
qed simp

lemma fold_unit_yields:
  "(\<And>u x. yields P (\<lambda>_. True) (f u x)) \<Longrightarrow> yields P (\<lambda>_. True) (fold_result f u xs)"
  by (rule yields_fold_result) auto

lemma yields_map_result:
  assumes "\<And>x. x \<in> set xs \<Longrightarrow> yields P Q (f x)"
  shows "yields P (list_all Q) (map_result f xs)"
  using assms
proof (induction xs)
  case (Cons x xs)
  then show ?case by (auto intro!: yields_and_then [where R = Q] yields_and_then [where R = "list_all Q"])
qed simp

section \<open>Maps as association lists\<close>

abbreviation keys :: "('k, 'v) gomap \<Rightarrow> 'k list" where
  "keys m \<equiv> map fst m"

definition wf_map :: "('k, 'v) gomap \<Rightarrow> bool" where
  "wf_map m \<longleftrightarrow> distinct (keys m)"

definition same_map :: "('k, 'v) gomap \<Rightarrow> ('k, 'v) gomap \<Rightarrow> bool" where
  "same_map m n \<longleftrightarrow> map_of m = map_of n"

lemma wf_map_Nil [simp]: "wf_map []"
  by (simp add: wf_map_def)

lemma wf_map_Cons: "wf_map ((k, v) # m) \<longleftrightarrow> k \<notin> set (keys m) \<and> wf_map m"
  by (simp add: wf_map_def)

lemma wf_map_update [simp]: "wf_map m \<Longrightarrow> wf_map (AList.update k v m)"
  by (simp add: wf_map_def distinct_update)

lemma map_of_update [simp]: "map_of (AList.update k v m) = (map_of m)(k \<mapsto> v)"
  by (rule update_conv')

lemma map_of_Some_iff: "wf_map m \<Longrightarrow> map_of m k = Some v \<longleftrightarrow> (k, v) \<in> set m"
  by (simp add: wf_map_def)

lemma map_of_None_iff: "map_of m k = None \<longleftrightarrow> k \<notin> set (keys m)"
  by (simp add: map_of_eq_None_iff)

lemma wf_map_mset: "wf_map m \<Longrightarrow> mset m = mset n \<Longrightarrow> wf_map n"
  unfolding wf_map_def by (metis mset_eq_imp_distinct_iff mset_map)

lemma same_map_set_eq:
  assumes "wf_map m" and "wf_map n"
  shows "same_map m n \<longleftrightarrow> set m = set n"
  using assms unfolding wf_map_def same_map_def
  by (metis map_of_eqI map_of_inject_set)

lemma same_map_mset_eq:
  assumes "wf_map m" and "wf_map n"
  shows "same_map m n \<longleftrightarrow> mset m = mset n"
  using assms same_map_set_eq [OF assms]
  by (simp add: wf_map_def distinct_map set_eq_iff_mset_eq_distinct)

lemma same_map_refl [simp]: "same_map m m"
  by (simp add: same_map_def)

lemma same_map_sym: "same_map m n \<Longrightarrow> same_map n m"
  by (simp add: same_map_def)

lemma same_map_trans: "same_map a b \<Longrightarrow> same_map b c \<Longrightarrow> same_map a c"
  by (simp add: same_map_def)

lemma perm_map_of:
  assumes "wf_map m" and "mset n = mset m"
  shows "map_of n = map_of m"
  using same_map_mset_eq [of n m] wf_map_mset [of m n] assms by (simp add: same_map_def)

text \<open>Copying a map entry by entry.\<close>

definition copy_map :: "('k, 'v) gomap \<Rightarrow> ('k, 'v) gomap" where
  "copy_map m = foldl (\<lambda>n (k, v). AList.update k v n) [] m"

lemma update_fresh: "k \<notin> set (keys m) \<Longrightarrow> AList.update k v m = m @ [(k, v)]"
  by (induction m) auto

lemma foldl_update_fresh:
  assumes "wf_map m" and "set (keys m) \<inter> set (keys n) = {}"
  shows "foldl (\<lambda>n (k, v). AList.update k v n) n m = n @ m"
  using assms by (induction m arbitrary: n) (auto simp: wf_map_def update_fresh)

lemma copy_map_id [simp]: "wf_map m \<Longrightarrow> copy_map m = m"
  by (simp add: copy_map_def foldl_update_fresh)

lemma set_foldl_update:
  "set (foldl (\<lambda>m (k, v). AList.update k v m) m xs) \<subseteq> set m \<union> set xs"
proof (induction xs arbitrary: m)
  case (Cons x xs)
  have "set (AList.update k v m) \<subseteq> insert (k, v) (set m)" for k v and m :: "('a \<times> 'b) list"
    by (induction m) auto
  then show ?case using Cons [of "AList.update (fst x) (snd x) m"] by (cases x) fastforce
qed simp

lemma map_of_foldl_update:
  "wf_map xs \<Longrightarrow> map_of (foldl (\<lambda>m (n, a). AList.update n (f a) m) m xs) k
    = (case map_of xs k of None \<Rightarrow> map_of m k | Some a \<Rightarrow> Some (f a))"
proof (induction xs arbitrary: m)
  case (Cons p xs)
  then show ?case
    by (cases p) (auto simp: wf_map_Cons update_conv' map_of_eq_None_iff [symmetric] split: option.split)
qed simp

lemma wf_foldl_update: "wf_map m \<Longrightarrow> wf_map (foldl (\<lambda>m (k, v). AList.update k v m) m xs)"
  by (induction xs arbitrary: m) auto

lemma keys_update: "set (keys (AList.update k v m)) = insert k (set (keys m))"
  by (simp add: dom_update)

lemma length_update: "length (AList.update k v m) \<le> Suc (length m)"
  by (induction m) auto

section \<open>Sorting\<close>

text \<open>Sorting by an injective key forgets the order of its input.\<close>

lemma sort_key_mset_cong:
  fixes f :: "'a \<Rightarrow> 'b::linorder"
  assumes "mset xs = mset ys" and "inj_on f (set xs)"
  shows "sort_key f xs = sort_key f ys"
proof (rule properties_for_sort_key)
  show "mset (sort_key f ys) = mset xs" by (simp add: assms(1))
  show "filter (\<lambda>y. f k = f y) (sort_key f ys) = filter (\<lambda>y. f k = f y) xs"
    if "k \<in> set (sort_key f ys)" for k
  proof -
    have k: "k \<in> set xs" using that assms(1) by (metis set_mset_mset set_sort)
    have sub: "set (filter (\<lambda>y. f k = f y) zs) \<subseteq> {k}" if "set zs = set xs" for zs
      using that assms(2) k by (auto dest: inj_onD)
    have "set (sort_key f ys) = set xs" by (metis assms(1) set_mset_mset set_sort)
    moreover have "length (filter (\<lambda>y. f k = f y) (sort_key f ys))
        = length (filter (\<lambda>y. f k = f y) xs)"
      by (metis assms(1) mset_filter mset_sort size_mset)
    moreover have "filter (\<lambda>y. f k = f y) zs = replicate (length (filter (\<lambda>y. f k = f y) zs)) k"
      if "set zs = set xs" for zs
      by (rule replicate_length_same [symmetric]) (use sub [OF that] in blast)
    ultimately show ?thesis by metis
  qed
  show "sorted (map f (sort_key f ys))" by simp
qed

lemma sort_mset_cong:
  fixes xs :: "'a::linorder list"
  shows "mset xs = mset ys \<Longrightarrow> sort xs = sort ys"
  by (rule sort_key_mset_cong) (simp_all add: inj_on_def)

lemma sort_key_map: "sort_key k (map f xs) = map f (sort_key (\<lambda>x. k (f x)) xs)"
proof -
  have "insort_key k (f x) (map f ys) = map f (insort_key (\<lambda>x. k (f x)) x ys)" for x ys
    by (induction ys) auto
  then show ?thesis by (induction xs) auto
qed

lemma sort_key_mono_cong:
  assumes "\<And>x y. f x \<le> f y \<longleftrightarrow> g x \<le> g y"
  shows "sort_key f xs = sort_key g xs"
proof -
  have "insort_key f x ys = insort_key g x ys" for x ys
    by (induction ys) (auto simp: assms)
  then show ?thesis by (induction xs) auto
qed

lemma append_le_iff: "(p @ a :: 'a::linorder list) \<le> p @ b \<longleftrightarrow> a \<le> b"
  by (induction p) auto

section \<open>Codecs\<close>

text \<open>
  A codec is an encoder with a partial decoder that inverts it on the values in its domain. The
  client's lemmas are proved once: the encoder is injective, and a decoder never confuses the
  encodings of two values.
\<close>

locale codec =
  fixes enc :: "'a \<Rightarrow> 'w" and dec :: "'w \<Rightarrow> 'a option" and dom_ok :: "'a \<Rightarrow> bool"
  assumes dec_enc: "dom_ok x \<Longrightarrow> dec (enc x) = Some x"
begin

lemma enc_inj: "dom_ok x \<Longrightarrow> dom_ok y \<Longrightarrow> enc x = enc y \<Longrightarrow> x = y"
  using dec_enc by (metis option.inject)

lemma enc_inj_on: "inj_on enc {x. dom_ok x}"
  unfolding inj_on_def using enc_inj by blast

lemma dec_enc_other: "dom_ok x \<Longrightarrow> dec (enc x) = Some y \<longleftrightarrow> y = x"
  by (auto simp: dec_enc)

end

text \<open>A canonical codec also has only one encoding of each value that it decodes.\<close>

locale canonical_codec = codec +
  fixes wire_ok :: "'b \<Rightarrow> bool"
  assumes enc_dec: "wire_ok w \<Longrightarrow> dec w = Some x \<Longrightarrow> enc x = w"
begin

lemma dec_inj: "wire_ok v \<Longrightarrow> wire_ok w \<Longrightarrow> dec v = Some x \<Longrightarrow> dec w = Some x \<Longrightarrow> v = w"
  using enc_dec by metis

end

lemma split_at_unique:
  assumes "xs @ c # ys = xs' @ c # ys'" "c \<notin> set xs" "c \<notin> set xs'"
  shows "xs = xs' \<and> ys = ys'"
  using assms
proof (induction xs arbitrary: xs')
  case Nil
  then show ?case by (cases xs') auto
next
  case (Cons x xs)
  then show ?case by (cases xs') auto
qed

end
