(* ===== verification/CE_Errors.thy ===== *)
theory CE_Errors
  imports Prelude
begin

text \<open>
  The error values of \<open>errors.go\<close>, \<open>conversion.go\<close>, \<open>http.go\<close> and \<open>schema.go\<close>.

  A sentinel is a package-level \<open>errors.New\<close>; \<open>Errorf s d\<close> is \<open>fmt.Errorf("%w: d", s)\<close> and
  \<open>ErrorfWrap s d e\<close> is \<open>fmt.Errorf("%w: d: %w", s, e)\<close>, \<open>ErrorfJoin s e\<close> the same without \<open>d\<close>. \<open>External\<close> is an error value that other code
  produced: a collaborator of an adapter, a reader, a context or the standard library. Diagnostics are
  ordered by their texts, so that the sorted reports of the code are the library's \<^const>\<open>sort\<close>.
\<close>

section \<open>Sentinels\<close>

datatype sentinel =
    ErrInvalidEvent
  | ErrInvalidData
  | ErrInvalidAttribute
  | ErrLimitExceeded
  | ErrInvalidAdapterInput
  | ErrMetadataCollision
  | ErrUntrustedMetadata
  | ErrSchemaViolation
  | ErrSchemaMapping
  | ErrConversionLoss
  | ErrUnsupportedMode
  | ErrSchemaRequired
  | ErrDataRequired
  | ErrSchemaValidatorRequired
  | ErrContextRequired

fun sentinel_text :: "sentinel \<Rightarrow> string" where
  "sentinel_text ErrInvalidEvent = ''cloudevents: invalid event''"
| "sentinel_text ErrInvalidData = ''cloudevents: invalid data''"
| "sentinel_text ErrInvalidAttribute = ''cloudevents: invalid attribute''"
| "sentinel_text ErrLimitExceeded = ''cloudevents: limit exceeded''"
| "sentinel_text ErrInvalidAdapterInput = ''cloudevents golib adapter: invalid input''"
| "sentinel_text ErrMetadataCollision = ''cloudevents golib adapter: metadata collision''"
| "sentinel_text ErrUntrustedMetadata = ''cloudevents golib adapter: metadata is untrusted''"
| "sentinel_text ErrSchemaViolation = ''cloudevents golib adapter: schema violation''"
| "sentinel_text ErrSchemaMapping = ''cloudevents golib adapter: schema mapping''"
| "sentinel_text ErrConversionLoss = ''cloudevents: conversion loss''"
| "sentinel_text ErrUnsupportedMode = ''cloudevents: unsupported content mode''"
| "sentinel_text ErrSchemaRequired = ''cloudevents: schema URI required''"
| "sentinel_text ErrDataRequired = ''cloudevents: event data required''"
| "sentinel_text ErrSchemaValidatorRequired = ''cloudevents: schema validator required''"
| "sentinel_text ErrContextRequired = ''cloudevents: context required''"

section \<open>Validation issues\<close>

datatype issue_code =
    IssueRequired
  | IssueInvalidString
  | IssueInvalidURIReference
  | IssueAbsoluteURIRequired
  | IssueInvalidMediaType
  | IssueInvalidName
  | IssueReservedName
  | IssueInvalidAttribute

fun code_text :: "issue_code \<Rightarrow> string" where
  "code_text IssueRequired = ''required''"
| "code_text IssueInvalidString = ''invalid_string''"
| "code_text IssueInvalidURIReference = ''invalid_uri_reference''"
| "code_text IssueAbsoluteURIRequired = ''absolute_uri_required''"
| "code_text IssueInvalidMediaType = ''invalid_media_type''"
| "code_text IssueInvalidName = ''invalid_name''"
| "code_text IssueReservedName = ''reserved_name''"
| "code_text IssueInvalidAttribute = ''invalid_attribute''"

lemma code_text_inj: "code_text c = code_text d \<longleftrightarrow> c = d"
  by (cases c; cases d) simp_all

datatype issue = Issue (issue_field: string) (issue_code: issue_code)

text \<open>The comparison of \<open>validateAttributes\<close>: by field, then by the text of the code.\<close>

definition issue_key :: "issue \<Rightarrow> string \<times> string" where
  "issue_key i = (issue_field i, code_text (issue_code i))"

lemma issue_key_inj: "issue_key i = issue_key j \<longleftrightarrow> i = j"
  by (cases i; cases j) (simp add: issue_key_def code_text_inj)

instantiation issue :: linorder
begin

definition less_eq_issue :: "issue \<Rightarrow> issue \<Rightarrow> bool" where
  "less_eq_issue i j \<longleftrightarrow> issue_key i \<le> issue_key j"

definition less_issue :: "issue \<Rightarrow> issue \<Rightarrow> bool" where
  "less_issue i j \<longleftrightarrow> issue_key i < issue_key j"

instance
  by standard (auto simp: less_eq_issue_def less_issue_def issue_key_inj [symmetric])

end

section \<open>Errors\<close>

datatype go_error =
    Sentinel sentinel
  | ValidationError "issue list"
  | Errorf sentinel string
  | ErrorfWrap sentinel string go_error
  | ErrorfJoin sentinel go_error
  | External string

type_synonym 'a result = "go_error + 'a"

text \<open>\<open>errors.Is\<close> against a sentinel: the chain of \<open>Unwrap\<close> calls.\<close>

fun errors_is :: "go_error \<Rightarrow> sentinel \<Rightarrow> bool" where
  "errors_is (Sentinel s) t \<longleftrightarrow> s = t"
| "errors_is (ValidationError _) t \<longleftrightarrow> t = ErrInvalidEvent"
| "errors_is (Errorf s _) t \<longleftrightarrow> s = t"
| "errors_is (ErrorfWrap s _ e) t \<longleftrightarrow> s = t \<or> errors_is e t"
| "errors_is (ErrorfJoin s e) t \<longleftrightarrow> s = t \<or> errors_is e t"
| "errors_is (External _) t \<longleftrightarrow> False"

text \<open>\<open>ValidationError.Error\<close>: the loop writes a separator before every issue but the first.\<close>

fun issues_text :: "nat \<Rightarrow> issue list \<Rightarrow> string" where
  "issues_text index [] = ''''"
| "issues_text index (i # is) =
     (if index > 0 then ''; '' else '''') @ issue_field i @ '' '' @ code_text (issue_code i)
       @ issues_text (Suc index) is"

definition ValidationError_Error :: "issue list \<Rightarrow> string" where
  "ValidationError_Error is = sentinel_text ErrInvalidEvent @ '': '' @ issues_text 0 is"

fun error_text :: "go_error \<Rightarrow> string" where
  "error_text (Sentinel s) = sentinel_text s"
| "error_text (ValidationError is) = ValidationError_Error is"
| "error_text (Errorf s d) = sentinel_text s @ '': '' @ d"
| "error_text (ErrorfWrap s d e) = sentinel_text s @ '': '' @ d @ '': '' @ error_text e"
| "error_text (ErrorfJoin s e) = sentinel_text s @ '': '' @ error_text e"
| "error_text (External t) = t"

lemma errors_is_Validation: "errors_is (ValidationError is) ErrInvalidEvent"
  by simp

section \<open>Contexts\<close>

text \<open>
  A \<open>context.Context\<close> as the code observes it: the error \<open>Err\<close> reports when an operation starts, and the
  one it reports after a call that may block. A nil context is \<open>None\<close>.
\<close>

record go_context =
  ctx_before :: "go_error option"
  ctx_after :: "go_error option"

section \<open>Loss reports\<close>

text \<open>\<open>ConversionLoss\<close> and \<open>AdapterLoss\<close> have the same two fields.\<close>

datatype loss = Loss (loss_field: string) (loss_reason: string)

definition loss_key :: "loss \<Rightarrow> string \<times> string" where
  "loss_key l = (loss_field l, loss_reason l)"

lemma loss_key_inj: "loss_key k = loss_key l \<longleftrightarrow> k = l"
  by (cases k; cases l) (simp add: loss_key_def)

instantiation loss :: linorder
begin

definition less_eq_loss :: "loss \<Rightarrow> loss \<Rightarrow> bool" where
  "less_eq_loss k l \<longleftrightarrow> loss_key k \<le> loss_key l"

definition less_loss :: "loss \<Rightarrow> loss \<Rightarrow> bool" where
  "less_loss k l \<longleftrightarrow> loss_key k < loss_key l"

instance
  by standard (auto simp: less_eq_loss_def less_loss_def loss_key_inj [symmetric])

end

type_synonym report = "loss list"

lemmas errors_eval [eval_defs] =
  less_eq_issue_def less_issue_def issue_key_def less_eq_loss_def less_loss_def loss_key_def

end
