(* ===== verification/Go_UTF8.thy ===== *)
theory Go_UTF8
  imports Prelude
begin

text \<open>
  Go's UTF-8 support, as the code uses it: \<open>utf8.DecodeRune\<close> with its accept ranges, ranging over
  the runes of a string, \<open>utf8.ValidString\<close>, and the encoding of a rune. A byte that starts no
  well-formed sequence decodes to \<open>RuneError\<close> with width one, as in Go. The theory shows that a
  valid string is exactly the concatenation of the encodings of its runes.
\<close>

section \<open>Decoding\<close>

definition rune_error :: nat where
  "rune_error = 0xFFFD"

text \<open>The length of the sequence a lead byte announces; zero for a byte that cannot lead one.\<close>

definition lead_size :: "nat \<Rightarrow> nat" where
  "lead_size b =
     (if b < 0x80 then 1 else if b < 0xC2 then 0 else if b < 0xE0 then 2
      else if b < 0xF0 then 3 else if b < 0xF5 then 4 else 0)"

text \<open>The accept range of the second byte.\<close>

definition second_ok :: "nat \<Rightarrow> nat \<Rightarrow> bool" where
  "second_ok b x =
     (if b = 0xE0 then 0xA0 \<le> x \<and> x \<le> 0xBF
      else if b = 0xED then 0x80 \<le> x \<and> x \<le> 0x9F
      else if b = 0xF0 then 0x90 \<le> x \<and> x \<le> 0xBF
      else if b = 0xF4 then 0x80 \<le> x \<and> x \<le> 0x8F
      else 0x80 \<le> x \<and> x \<le> 0xBF)"

definition cont_ok :: "nat \<Rightarrow> bool" where
  "cont_ok x \<longleftrightarrow> 0x80 \<le> x \<and> x \<le> 0xBF"

definition decode_rune :: "bytes \<Rightarrow> nat \<times> nat" where
  "decode_rune s =
     (case s of
        [] \<Rightarrow> (rune_error, 0)
      | c # cs \<Rightarrow>
          let b = byte c; n = lead_size b; x = (\<lambda>i. byte (cs ! i)) in
          if n = 1 then (b, 1)
          else if n = 2 \<and> 1 \<le> length cs \<and> second_ok b (x 0)
            then (b mod 32 * 64 + x 0 mod 64, 2)
          else if n = 3 \<and> 2 \<le> length cs \<and> second_ok b (x 0) \<and> cont_ok (x 1)
            then (b mod 16 * 4096 + x 0 mod 64 * 64 + x 1 mod 64, 3)
          else if n = 4 \<and> 3 \<le> length cs \<and> second_ok b (x 0) \<and> cont_ok (x 1) \<and> cont_ok (x 2)
            then (b mod 8 * 262144 + x 0 mod 64 * 4096 + x 1 mod 64 * 64 + x 2 mod 64, 4)
          else (rune_error, 1))"

text \<open>
  Ranging over a string: each rune with the bytes it was decoded from. The lead byte is always
  consumed, so the recursion is on a shorter string.
\<close>

fun rune_chunks :: "bytes \<Rightarrow> (nat \<times> bytes) list" where
  "rune_chunks [] = []"
| "rune_chunks (c # cs) =
     (let (r, n) = decode_rune (c # cs)
      in (r, c # take (n - 1) cs) # rune_chunks (drop (n - 1) cs))"

declare rune_chunks.simps(2) [simp del]

definition runes :: "bytes \<Rightarrow> nat list" where
  "runes s = map fst (rune_chunks s)"

definition good_chunk :: "nat \<times> bytes \<Rightarrow> bool" where
  "good_chunk p \<longleftrightarrow> \<not> (fst p = rune_error \<and> length (snd p) = 1)"

definition valid_utf8 :: "bytes \<Rightarrow> bool" where
  "valid_utf8 s \<longleftrightarrow> list_all good_chunk (rune_chunks s)"

section \<open>Encoding\<close>

definition scalar :: "nat \<Rightarrow> bool" where
  "scalar r \<longleftrightarrow> r < 0xD800 \<or> (0xE000 \<le> r \<and> r < 0x110000)"

definition encode_scalar :: "nat \<Rightarrow> bytes" where
  "encode_scalar r =
     (if r < 0x80 then [char_of r]
      else if r < 0x800 then [char_of (0xC0 + r div 64), char_of (0x80 + r mod 64)]
      else if r < 0x10000 then
        [char_of (0xE0 + r div 4096), char_of (0x80 + r div 64 mod 64), char_of (0x80 + r mod 64)]
      else
        [char_of (0xF0 + r div 262144), char_of (0x80 + r div 4096 mod 64),
         char_of (0x80 + r div 64 mod 64), char_of (0x80 + r mod 64)])"

definition encode_rune :: "nat \<Rightarrow> bytes" where
  "encode_rune r = encode_scalar (if scalar r then r else rune_error)"

section \<open>Decoding inverts encoding\<close>

lemma rune_chunks_concat: "concat (map snd (rune_chunks s)) = s"
proof (induction s rule: rune_chunks.induct)
  case (2 c cs)
  obtain r n where "decode_rune (c # cs) = (r, n)" by fastforce
  with "2.IH" show ?case by (simp add: rune_chunks.simps(2))
qed simp

lemma rune_chunks_Nil_iff [simp]: "rune_chunks s = [] \<longleftrightarrow> s = []"
  by (cases s) (auto simp: rune_chunks.simps(2) split: prod.splits)

lemma decode_ascii:
  assumes "byte c < 0x80"
  shows "decode_rune (c # cs) = (byte c, 1)"
  using assms by (simp add: decode_rune_def lead_size_def Let_def)

lemma rune_chunks_ascii:
  assumes "byte c < 0x80"
  shows "rune_chunks (c # cs) = (byte c, [c]) # rune_chunks cs"
  using assms by (simp add: rune_chunks.simps(2) decode_ascii)

lemma valid_utf8_Nil [simp]: "valid_utf8 []"
  by (simp add: valid_utf8_def)

lemma valid_utf8_ascii [simp]:
  assumes "byte c < 0x80"
  shows "valid_utf8 (c # cs) \<longleftrightarrow> valid_utf8 cs"
  using assms unfolding valid_utf8_def
  by (subst rune_chunks_ascii) (auto simp: good_chunk_def rune_error_def)

lemma valid_utf8_all_ascii: "list_all (\<lambda>c. byte c < 0x80) s \<Longrightarrow> valid_utf8 s"
  by (induction s) auto

lemma runes_all_ascii: "list_all (\<lambda>c. byte c < 0x80) s \<Longrightarrow> runes s = map byte s"
  by (induction s) (auto simp: runes_def rune_chunks_ascii)

lemma low_bits:
  fixes q :: nat
  shows "q < 64 \<Longrightarrow> (0x80 + q) mod 64 = q" "q < 32 \<Longrightarrow> (0xC0 + q) mod 32 = q"
    "q < 16 \<Longrightarrow> (0xE0 + q) mod 16 = q" "q < 8 \<Longrightarrow> (0xF0 + q) mod 8 = q"
  using mod_mult_self2 [of q 64 2] mod_mult_self2 [of q 32 6] mod_mult_self2 [of q 16 14]
    mod_mult_self2 [of q 8 30]
  by (simp_all add: add.commute)

text \<open>Sequences of two, three and four bytes, by the digits of the rune to base 64.\<close>

lemma decode_two:
  assumes "2 \<le> q" "q < 32" "a < 64"
  shows "decode_rune (char_of (0xC0 + q) # char_of (0x80 + a) # rest) = (q * 64 + a, 2)"
proof -
  have "lead_size (0xC0 + q) = 2" "second_ok (0xC0 + q) (0x80 + a)"
    using assms by (auto simp: lead_size_def second_ok_def)
  then show ?thesis using assms by (simp add: decode_rune_def Let_def low_bits)
qed

lemma decode_three:
  assumes "q < 16" "a < 64" "d < 64" "q = 0 \<longrightarrow> 32 \<le> a" "q = 13 \<longrightarrow> a < 32"
  shows "decode_rune (char_of (0xE0 + q) # char_of (0x80 + a) # char_of (0x80 + d) # rest)
    = (q * 4096 + a * 64 + d, 3)"
proof -
  have "lead_size (0xE0 + q) = 3" "second_ok (0xE0 + q) (0x80 + a)" "cont_ok (0x80 + d)"
    using assms by (auto simp: lead_size_def second_ok_def cont_ok_def)
  then show ?thesis using assms by (simp add: decode_rune_def Let_def low_bits)
qed

lemma decode_four:
  assumes "q \<le> 4" "a < 64" "d < 64" "e < 64" "q = 0 \<longrightarrow> 16 \<le> a" "q = 4 \<longrightarrow> a < 16"
  shows "decode_rune (char_of (0xF0 + q) # char_of (0x80 + a) # char_of (0x80 + d)
      # char_of (0x80 + e) # rest) = (q * 262144 + a * 4096 + d * 64 + e, 4)"
proof -
  have "lead_size (0xF0 + q) = 4" "second_ok (0xF0 + q) (0x80 + a)" "cont_ok (0x80 + d)"
    "cont_ok (0x80 + e)"
    using assms by (auto simp: lead_size_def second_ok_def cont_ok_def)
  then show ?thesis using assms by (simp add: decode_rune_def Let_def low_bits)
qed

lemma div_digits:
  fixes r :: nat
  shows "r div 4096 = r div 64 div 64" "r div 262144 = r div 64 div 64 div 64"
  by (simp_all add: div_mult2_eq [symmetric])

lemma base64_digits:
  fixes r :: nat
  shows "r div 64 * 64 + r mod 64 = r"
    and "r div 64 div 64 * 4096 + r div 64 mod 64 * 64 + r mod 64 = r"
    and "r div 64 div 64 div 64 * 262144 + r div 64 div 64 mod 64 * 4096 + r div 64 mod 64 * 64
      + r mod 64 = r"
proof -
  show a: "r div 64 * 64 + r mod 64 = r" by (rule div_mult_mod_eq)
  have b: "r div 64 div 64 * 64 + r div 64 mod 64 = r div 64" by (rule div_mult_mod_eq)
  have c: "r div 64 div 64 div 64 * 64 + r div 64 div 64 mod 64 = r div 64 div 64"
    by (rule div_mult_mod_eq)
  show "r div 64 div 64 * 4096 + r div 64 mod 64 * 64 + r mod 64 = r"
    using a b by linarith
  show "r div 64 div 64 div 64 * 262144 + r div 64 div 64 mod 64 * 4096 + r div 64 mod 64 * 64
      + r mod 64 = r"
    using a b c by linarith
qed

lemma four_byte_bounds:
  fixes q a d e r :: nat
  assumes "q * 262144 + a * 4096 + d * 64 + e = r" "a < 64" "d < 64" "e < 64"
    and "0x10000 \<le> r" "r < 0x110000"
  shows "q \<le> 4" "q = 0 \<longrightarrow> 16 \<le> a" "q = 4 \<longrightarrow> a < 16"
  using assms by linarith+

lemma decode_encode_rune:
  assumes "scalar r"
  shows "decode_rune (encode_rune r @ rest) = (r, length (encode_rune r))"
proof -
  consider "r < 0x80" | "0x80 \<le> r" "r < 0x800" | "0x800 \<le> r" "r < 0x10000"
    | "0x10000 \<le> r" "r < 0x110000"
    using assms by (fastforce simp: scalar_def)
  then show ?thesis
  proof cases
    case 1
    then show ?thesis
      using assms
      by (simp add: encode_rune_def encode_scalar_def decode_rune_def lead_size_def Let_def)
  next
    case 2
    then have "2 \<le> r div 64" "r div 64 < 32" by auto
    from decode_two [OF this, of "r mod 64" rest] show ?thesis
      using 2 assms by (simp add: encode_rune_def encode_scalar_def)
  next
    case 3
    let ?q = "r div 64 div 64" and ?a = "r div 64 mod 64" and ?d = "r mod 64"
    note eq = base64_digits(2) [of r]
    have "?q < 16" "?q = 0 \<longrightarrow> 32 \<le> ?a" using 3 eq by auto
    moreover have "?q = 13 \<longrightarrow> ?a < 32" using 3 assms eq by (auto simp: scalar_def)
    ultimately show ?thesis
      using 3 assms decode_three [of ?q ?a ?d rest] eq
      by (simp add: encode_rune_def encode_scalar_def div_digits)
  next
    case 4
    let ?q = "r div 64 div 64 div 64" and ?a = "r div 64 div 64 mod 64"
      and ?d = "r div 64 mod 64" and ?e = "r mod 64"
    note eq = base64_digits(3) [of r]
    have lt: "?a < 64" "?d < 64" "?e < 64" by simp_all
    note b = four_byte_bounds [OF eq lt 4]
    show ?thesis
      using 4 assms decode_four [OF b(1) lt b(2) b(3), of rest] eq
      by (simp add: encode_rune_def encode_scalar_def div_digits)
  qed
qed

section \<open>Encoding inverts decoding\<close>

lemma digit64:
  fixes n e :: nat
  assumes "e < 64"
  shows "(n * 64 + e) div 64 = n" "(n * 64 + e) mod 64 = e"
  using assms by simp_all

lemma encode_two:
  assumes "2 \<le> q" "q < 32" "a < 64"
  shows "scalar (q * 64 + a)"
    and "encode_rune (q * 64 + a) = [char_of (0xC0 + q), char_of (0x80 + a)]"
  using assms by (auto simp: scalar_def encode_rune_def encode_scalar_def)

lemma encode_three:
  assumes "q < 16" "a < 64" "d < 64" "q = 0 \<longrightarrow> 32 \<le> a" "q = 13 \<longrightarrow> a < 32"
  shows "scalar (q * 4096 + a * 64 + d)"
    and "encode_rune (q * 4096 + a * 64 + d)
      = [char_of (0xE0 + q), char_of (0x80 + a), char_of (0x80 + d)]"
proof -
  let ?r = "(q * 64 + a) * 64 + d"
  have r: "q * 4096 + a * 64 + d = ?r" by simp
  have "0x800 \<le> ?r" "?r < 0x10000" using assms by (cases "q = 0", auto)
  moreover have sc: "scalar ?r"
    using assms by (cases "q = 13"; cases "q < 13") (auto simp: scalar_def)
  moreover note digit64 [OF assms(3), of "q * 64 + a"] digit64 [OF assms(2), of q]
  ultimately show "scalar (q * 4096 + a * 64 + d)"
    and "encode_rune (q * 4096 + a * 64 + d)
      = [char_of (0xE0 + q), char_of (0x80 + a), char_of (0x80 + d)]"
    unfolding r by (simp_all add: encode_rune_def encode_scalar_def div_digits)
qed

lemma encode_four:
  assumes "q \<le> 4" "a < 64" "d < 64" "e < 64" "q = 0 \<longrightarrow> 16 \<le> a" "q = 4 \<longrightarrow> a < 16"
  shows "scalar (q * 262144 + a * 4096 + d * 64 + e)"
    and "encode_rune (q * 262144 + a * 4096 + d * 64 + e)
      = [char_of (0xF0 + q), char_of (0x80 + a), char_of (0x80 + d), char_of (0x80 + e)]"
proof -
  let ?r = "((q * 64 + a) * 64 + d) * 64 + e"
  have r: "q * 262144 + a * 4096 + d * 64 + e = ?r" by simp
  have b: "0x10000 \<le> ?r" "?r < 0x110000"
    using assms by (cases "q = 0"; cases "q = 4"; auto)+
  then have sc: "scalar ?r" by (simp add: scalar_def)
  note digit64 [OF assms(4), of "(q * 64 + a) * 64 + d"] digit64 [OF assms(3), of "q * 64 + a"]
    digit64 [OF assms(2), of q]
  then show "scalar (q * 262144 + a * 4096 + d * 64 + e)"
    and "encode_rune (q * 262144 + a * 4096 + d * 64 + e)
      = [char_of (0xF0 + q), char_of (0x80 + a), char_of (0x80 + d), char_of (0x80 + e)]"
    unfolding r using b sc by (simp_all add: encode_rune_def encode_scalar_def div_digits)
qed

lemma good_decode:
  assumes "decode_rune (c # cs) = (r, n)" and "\<not> (r = rune_error \<and> n = 1)"
  shows "scalar r \<and> encode_rune r = c # take (n - 1) cs"
proof -
  let ?b = "byte c"
  have "?b < 0x80 \<or> lead_size ?b = 2 \<or> lead_size ?b = 3 \<or> lead_size ?b = 4"
    using assms by (auto simp: decode_rune_def Let_def lead_size_def split: if_splits)
  then consider "?b < 0x80" | "lead_size ?b = 2" | "lead_size ?b = 3" | "lead_size ?b = 4" by blast
  then show ?thesis
  proof cases
    case 1
    then show ?thesis using assms(1)
      by (auto simp: decode_ascii scalar_def encode_rune_def encode_scalar_def)
  next
    case 2
    then obtain c1 cs' where cs: "cs = c1 # cs'" and ok: "second_ok ?b (byte c1)"
      and rn: "r = ?b mod 32 * 64 + byte c1 mod 64" "n = 2"
      using assms by (cases cs) (auto simp: decode_rune_def Let_def split: if_splits)
    have b: "0xC2 \<le> ?b" "?b < 0xE0" using 2 by (auto simp: lead_size_def split: if_splits)
    then have x: "0x80 \<le> byte c1" "byte c1 \<le> 0xBF" using ok by (auto simp: second_ok_def)
    define q a where "q = ?b - 0xC0" and "a = byte c1 - 0x80"
    have q: "?b = 0xC0 + q" "byte c1 = 0x80 + a" "2 \<le> q" "q < 32" "a < 64"
      using b x by (auto simp: q_def a_def)
    then have "r = q * 64 + a" using rn by (simp add: low_bits)
    moreover have "char_of (0xC0 + q) = c" "char_of (0x80 + a) = c1" using q(1,2) by (metis char_of_char)+
    ultimately show ?thesis using encode_two [OF q(3-5)] by (simp add: cs rn(2))
  next
    case 3
    then obtain c1 c2 cs' where cs: "cs = c1 # c2 # cs'" and ok: "second_ok ?b (byte c1)"
      "cont_ok (byte c2)" and rn: "r = ?b mod 16 * 4096 + byte c1 mod 64 * 64 + byte c2 mod 64" "n = 3"
      using assms
      by (cases cs rule: remdups_adj.cases) (auto simp: decode_rune_def Let_def split: if_splits)
    have b: "0xE0 \<le> ?b" "?b < 0xF0" using 3 by (auto simp: lead_size_def split: if_splits)
    have x: "0x80 \<le> byte c1" "byte c1 \<le> 0xBF" "0x80 \<le> byte c2" "byte c2 \<le> 0xBF"
      "?b = 0xE0 \<longrightarrow> 0xA0 \<le> byte c1" "?b = 0xED \<longrightarrow> byte c1 \<le> 0x9F"
      using ok b by (auto simp: second_ok_def cont_ok_def split: if_splits)
    define q a d where "q = ?b - 0xE0" and "a = byte c1 - 0x80" and "d = byte c2 - 0x80"
    have q: "?b = 0xE0 + q" "byte c1 = 0x80 + a" "byte c2 = 0x80 + d" "q < 16" "a < 64" "d < 64"
      "q = 0 \<longrightarrow> 32 \<le> a" "q = 13 \<longrightarrow> a < 32"
      using b x by (auto simp: q_def a_def d_def)
    then have "r = q * 4096 + a * 64 + d" using rn by (simp add: low_bits)
    moreover have "char_of (0xE0 + q) = c" "char_of (0x80 + a) = c1" "char_of (0x80 + d) = c2"
      using q(1-3) by (metis char_of_char)+
    ultimately show ?thesis using encode_three [OF q(4-8)] by (simp add: cs rn(2))
  next
    case 4
    then obtain c1 c2 c3 cs' where cs: "cs = c1 # c2 # c3 # cs'" and ok: "second_ok ?b (byte c1)"
      "cont_ok (byte c2)" "cont_ok (byte c3)" and rn: "r = ?b mod 8 * 262144 + byte c1 mod 64 * 4096
        + byte c2 mod 64 * 64 + byte c3 mod 64" "n = 4"
      using assms
      by (cases cs rule: remdups_adj.cases; cases "tl (tl cs)")
        (auto simp: decode_rune_def Let_def split: if_splits)
    have b: "0xF0 \<le> ?b" "?b < 0xF5" using 4 by (auto simp: lead_size_def split: if_splits)
    have x: "0x80 \<le> byte c1" "byte c1 \<le> 0xBF" "0x80 \<le> byte c2" "byte c2 \<le> 0xBF"
      "0x80 \<le> byte c3" "byte c3 \<le> 0xBF"
      "?b = 0xF0 \<longrightarrow> 0x90 \<le> byte c1" "?b = 0xF4 \<longrightarrow> byte c1 \<le> 0x8F"
      using ok b by (auto simp: second_ok_def cont_ok_def split: if_splits)
    define q a d e where "q = ?b - 0xF0" and "a = byte c1 - 0x80" and "d = byte c2 - 0x80"
      and "e = byte c3 - 0x80"
    have q: "?b = 0xF0 + q" "byte c1 = 0x80 + a" "byte c2 = 0x80 + d" "byte c3 = 0x80 + e"
      "q \<le> 4" "a < 64" "d < 64" "e < 64" "q = 0 \<longrightarrow> 16 \<le> a" "q = 4 \<longrightarrow> a < 16"
      using b x by (auto simp: q_def a_def d_def e_def)
    then have "r = q * 262144 + a * 4096 + d * 64 + e" using rn by (simp add: low_bits)
    moreover have "char_of (0xF0 + q) = c" "char_of (0x80 + a) = c1" "char_of (0x80 + d) = c2"
      "char_of (0x80 + e) = c3"
      using q(1-4) by (metis char_of_char)+
    ultimately show ?thesis using encode_four [OF q(5-10)] by (simp add: cs rn(2))
  qed
qed

section \<open>Valid strings\<close>

lemma encode_scalar_neq_Nil [simp]: "encode_scalar r \<noteq> []"
  by (simp add: encode_scalar_def)

lemma encode_rune_neq_Nil [simp]: "encode_rune r \<noteq> []"
  by (simp add: encode_rune_def)

lemma rune_chunks_encode:
  assumes "scalar r"
  shows "rune_chunks (encode_rune r @ s) = (r, encode_rune r) # rune_chunks s"
proof -
  obtain c cs where e: "encode_rune r = c # cs" by (cases "encode_rune r") auto
  have "decode_rune (c # cs @ s) = (r, Suc (length cs))"
    using decode_encode_rune [OF assms, of s] e by simp
  then show ?thesis using e by (simp add: rune_chunks.simps(2))
qed

lemma rune_chunks_encode_all:
  assumes "list_all scalar rs"
  shows "rune_chunks (concat (map encode_rune rs) @ s)
    = map (\<lambda>r. (r, encode_rune r)) rs @ rune_chunks s"
  using assms by (induction rs) (auto simp: rune_chunks_encode)

lemma good_chunk_encode: "scalar r \<Longrightarrow> good_chunk (r, encode_rune r)"
  by (auto simp: good_chunk_def rune_error_def encode_rune_def encode_scalar_def)

lemma valid_utf8_encode [simp]:
  "scalar r \<Longrightarrow> valid_utf8 (encode_rune r @ s) \<longleftrightarrow> valid_utf8 s"
  by (simp add: valid_utf8_def rune_chunks_encode good_chunk_encode)

lemma rune_chunks_good:
  "valid_utf8 s \<Longrightarrow> (r, w) \<in> set (rune_chunks s) \<Longrightarrow> scalar r \<and> encode_rune r = w"
proof (induction s rule: rune_chunks.induct)
  case (2 c cs)
  obtain r' n where d: "decode_rune (c # cs) = (r', n)" by fastforce
  from "2.prems"(1) have good: "good_chunk (r', c # take (n - 1) cs)"
    and v: "valid_utf8 (drop (n - 1) cs)"
    by (auto simp: valid_utf8_def rune_chunks.simps(2) d)
  have "\<not> (r' = rune_error \<and> n = 1)"
    using good by (auto simp: good_chunk_def)
  from good_decode [OF d this] have "scalar r' \<and> encode_rune r' = c # take (n - 1) cs" .
  then show ?case
    using "2.prems"(2) "2.IH" [OF d [symmetric] refl v] by (auto simp: rune_chunks.simps(2) d)
qed simp

theorem valid_utf8_runes:
  assumes "valid_utf8 s"
  shows "list_all scalar (runes s) \<and> concat (map encode_rune (runes s)) = s"
proof -
  have "list_all scalar (runes s)"
    using rune_chunks_good [OF assms] by (auto simp: runes_def list_all_iff)
  moreover have "map encode_rune (runes s) = map snd (rune_chunks s)"
    unfolding runes_def using rune_chunks_good [OF assms] by auto
  ultimately show ?thesis by (simp add: rune_chunks_concat)
qed

lemma valid_utf8_concat: "list_all scalar rs \<Longrightarrow> valid_utf8 (concat (map encode_rune rs))"
  by (induction rs) auto

lemma runes_concat [simp]: "list_all scalar rs \<Longrightarrow> runes (concat (map encode_rune rs)) = rs"
  using rune_chunks_encode_all [of rs "[]"] by (simp add: runes_def comp_def)

text \<open>The induction principle for valid strings: one rune at a time.\<close>

lemma valid_utf8_induct [consumes 1, case_names Nil Rune]:
  assumes "valid_utf8 s" and "P []"
    and "\<And>r s. scalar r \<Longrightarrow> valid_utf8 s \<Longrightarrow> P s \<Longrightarrow> P (encode_rune r @ s)"
  shows "P s"
proof -
  have "P (concat (map encode_rune rs))" if "list_all scalar rs" for rs
    using that by (induction rs) (auto simp: assms(2) intro: assms(3) valid_utf8_concat)
  with valid_utf8_runes [OF assms(1)] show ?thesis by metis
qed

lemma valid_utf8_append:
  assumes "valid_utf8 s" shows "valid_utf8 (s @ t) \<longleftrightarrow> valid_utf8 t"
  using assms by (induction s rule: valid_utf8_induct) simp_all

lemma runes_append:
  assumes "valid_utf8 s" shows "runes (s @ t) = runes s @ runes t"
  using valid_utf8_runes [OF assms] rune_chunks_encode_all [of "runes s" t]
  by (simp add: runes_def comp_def)

interpretation utf8: codec "\<lambda>rs. concat (map encode_rune rs)"
  "\<lambda>s. if valid_utf8 s then Some (runes s) else None" "list_all scalar"
  by unfold_locales (simp add: valid_utf8_concat)

section \<open>Appended ASCII bytes\<close>

lemma decode_rune_snoc:
  assumes "byte c < 128"
  shows "decode_rune (x # s @ [c]) = decode_rune (x # s)"
proof -
  have k: "\<not> cont_ok (byte c)" "\<not> second_ok b (byte c)" for b
    using assms by (auto simp: cont_ok_def second_ok_def)
  consider "s = []" | a where "s = [a]" | a b where "s = [a, b]" | a b d t where "s = a # b # d # t"
    by (metis list.exhaust)
  then show ?thesis
    by cases (simp_all add: decode_rune_def Let_def k)
qed

lemma decode_rune_size: "decode_rune (x # s) = (r, n) \<Longrightarrow> n - 1 \<le> length s"
  by (auto simp: decode_rune_def Let_def split: if_splits)

lemma rune_chunks_snoc_ascii:
  assumes "byte c < 128"
  shows "rune_chunks (s @ [c]) = rune_chunks s @ [(byte c, [c])]"
proof (induction s rule: rune_chunks.induct)
  case 1
  then show ?case using assms rune_chunks_ascii [of c "[]"] by simp
next
  case (2 x s)
  obtain r n where d: "decode_rune (x # s) = (r, n)" by fastforce
  have d': "decode_rune (x # s @ [c]) = (r, n)" and n: "n - 1 \<le> length s"
    using decode_rune_snoc [OF assms] d decode_rune_size [OF d] by simp_all
  show ?case
    using "2.IH" [OF d [symmetric] refl] d d' n by (simp add: rune_chunks.simps(2))
qed

lemmas utf8_eval [eval_defs] =
  rune_error_def lead_size_def second_ok_def cont_ok_def decode_rune_def runes_def
  good_chunk_def valid_utf8_def scalar_def encode_scalar_def encode_rune_def
  rune_chunks.simps(2)

end
