(* ===== verification/Go_Strings.thy ===== *)
theory Go_Strings
  imports Go_UTF8
begin

text \<open>
  The functions of Go's packages \<open>strings\<close>, \<open>bytes\<close>, \<open>strconv\<close> and \<open>math/bits\<close> that the
  code calls. Separators and cut sets are given at the single-character instances the code uses.
  \<open>strings.ToLower\<close> is exact on ASCII and on the two runes outside ASCII whose lower case is an
  ASCII letter (U+0130 and U+212A); every other rune is kept, since it can occur in no accepted name,
  media type or header. \<open>strings.EqualFold\<close> is used against constants without the letters k and s,
  for which simple folding is ASCII case folding.
\<close>

section \<open>Prefixes, splitting, trimming\<close>

definition has_prefix :: "bytes \<Rightarrow> bytes \<Rightarrow> bool" where
  "has_prefix s p \<longleftrightarrow> take (length p) s = p"

definition has_suffix :: "bytes \<Rightarrow> bytes \<Rightarrow> bool" where
  "has_suffix s p \<longleftrightarrow> length p \<le> length s \<and> drop (length s - length p) s = p"

definition trim_prefix :: "bytes \<Rightarrow> bytes \<Rightarrow> bytes" where
  "trim_prefix s p = (if has_prefix s p then drop (length p) s else s)"

lemma has_prefix_append [simp]: "has_prefix (p @ s) p"
  by (simp add: has_prefix_def)

lemma has_prefix_iff: "has_prefix s p \<longleftrightarrow> (\<exists>t. s = p @ t)"
  unfolding has_prefix_def by (metis append_eq_conv_conj append_take_drop_id)

lemma trim_prefix_append [simp]: "trim_prefix (p @ s) p = s"
  by (simp add: trim_prefix_def)

text \<open>\<open>strings.Split\<close> at a one-byte separator.\<close>

fun split_on :: "char \<Rightarrow> bytes \<Rightarrow> bytes list" where
  "split_on c [] = [[]]"
| "split_on c (x # xs) =
     (if x = c then [] # split_on c xs
      else (case split_on c xs of [] \<Rightarrow> [[x]] | w # ws \<Rightarrow> (x # w) # ws))"

text \<open>\<open>strings.Cut\<close> at a one-byte separator: before, after, found.\<close>

definition cut :: "char \<Rightarrow> bytes \<Rightarrow> bytes \<times> bytes \<times> bool" where
  "cut c s =
     (let a = takeWhile (\<lambda>x. x \<noteq> c) s; r = dropWhile (\<lambda>x. x \<noteq> c) s
      in if r = [] then (s, [], False) else (a, tl r, True))"

definition cut_last :: "char \<Rightarrow> bytes \<Rightarrow> (bytes \<times> bytes) option" where
  "cut_last c s =
     (let r = takeWhile (\<lambda>x. x \<noteq> c) (rev s); a = dropWhile (\<lambda>x. x \<noteq> c) (rev s)
      in if a = [] then None else Some (rev (tl a), rev r))"

definition trim_set :: "char set \<Rightarrow> bytes \<Rightarrow> bytes" where
  "trim_set cs s = rev (dropWhile (\<lambda>x. x \<in> cs) (rev (dropWhile (\<lambda>x. x \<in> cs) s)))"

definition unicode_space :: "nat \<Rightarrow> bool" where
  "unicode_space r \<longleftrightarrow> (9 \<le> r \<and> r \<le> 13) \<or> r = 0x20 \<or> r = 0x85 \<or> r = 0xA0 \<or> r = 0x1680
     \<or> (0x2000 \<le> r \<and> r \<le> 0x200a) \<or> r = 0x2028 \<or> r = 0x2029 \<or> r = 0x202f \<or> r = 0x205f
     \<or> r = 0x3000"

definition trim_left_space :: "bytes \<Rightarrow> bytes" where
  "trim_left_space s = concat (map snd (dropWhile (\<lambda>p. unicode_space (fst p)) (rune_chunks s)))"

definition trim_space :: "bytes \<Rightarrow> bytes" where
  "trim_space s =
     (let d = dropWhile (\<lambda>p. unicode_space (fst p))
      in concat (map snd (rev (d (rev (d (rune_chunks s)))))))"

section \<open>Case\<close>

definition lower_byte :: "char \<Rightarrow> char" where
  "lower_byte c = (if 65 \<le> byte c \<and> byte c \<le> 90 then char_of (byte c + 32) else c)"

definition upper_byte :: "char \<Rightarrow> char" where
  "upper_byte c = (if 97 \<le> byte c \<and> byte c \<le> 122 then char_of (byte c - 32) else c)"

definition lower_rune :: "nat \<Rightarrow> nat" where
  "lower_rune r =
     (if 65 \<le> r \<and> r \<le> 90 then r + 32
      else if r = 0x130 then 0x69 else if r = 0x212A then 0x6B else r)"

definition is_ascii :: "bytes \<Rightarrow> bool" where
  "is_ascii s \<longleftrightarrow> list_all (\<lambda>c. byte c < 128) s"

definition to_lower :: "bytes \<Rightarrow> bytes" where
  "to_lower s =
     (if is_ascii s then map lower_byte s
      else concat (map (\<lambda>r. encode_rune (lower_rune r)) (runes s)))"

definition equal_fold :: "bytes \<Rightarrow> bytes \<Rightarrow> bool" where
  "equal_fold s t \<longleftrightarrow> map lower_byte s = map lower_byte t"

lemma lower_byte_idem [simp]: "lower_byte (lower_byte c) = lower_byte c"
  by (auto simp: lower_byte_def)

lemma to_lower_fixed: "is_ascii s \<Longrightarrow> list_all (\<lambda>c. lower_byte c = c) s \<Longrightarrow> to_lower s = s"
  by (simp add: to_lower_def list_all_iff map_idI)

section \<open>Character classes\<close>

definition is_digit :: "char \<Rightarrow> bool" where
  "is_digit c \<longleftrightarrow> 48 \<le> byte c \<and> byte c \<le> 57"

definition is_lower :: "char \<Rightarrow> bool" where
  "is_lower c \<longleftrightarrow> 97 \<le> byte c \<and> byte c \<le> 122"

definition is_upper :: "char \<Rightarrow> bool" where
  "is_upper c \<longleftrightarrow> 65 \<le> byte c \<and> byte c \<le> 90"

definition digit_char :: "nat \<Rightarrow> char" where
  "digit_char n = char_of (48 + n)"

lemma byte_digit_char [simp]: "n < 10 \<Longrightarrow> byte (digit_char n) = 48 + n"
  by (simp add: digit_char_def)

lemma is_digit_digit_char [simp]: "n < 10 \<Longrightarrow> is_digit (digit_char n)"
  by (simp add: is_digit_def)

section \<open>Decimal numbers\<close>

fun format_nat :: "nat \<Rightarrow> bytes" where
  "format_nat n = (if n < 10 then [digit_char n] else format_nat (n div 10) @ [digit_char (n mod 10)])"

declare format_nat.simps [simp del]

definition format_int :: "int \<Rightarrow> bytes" where
  "format_int i = (if i < 0 then CHR ''-'' # format_nat (nat (- i)) else format_nat (nat i))"

fun digits_value :: "nat \<Rightarrow> bytes \<Rightarrow> nat option" where
  "digits_value acc [] = Some acc"
| "digits_value acc (c # cs) =
     (if is_digit c then digits_value (10 * acc + (byte c - 48)) cs else None)"

text \<open>\<open>strconv.ParseUint(s, 10, bits)\<close>: a syntax or range error is \<open>None\<close>.\<close>

definition parse_uint :: "nat \<Rightarrow> bytes \<Rightarrow> nat option" where
  "parse_uint bits s =
     (if s = [] then None
      else case digits_value 0 s of
          None \<Rightarrow> None
        | Some n \<Rightarrow> if n < 2 ^ bits then Some n else None)"

text \<open>\<open>strconv.ParseInt(s, 10, bits)\<close>: an optional sign, then the digits.\<close>

definition parse_int :: "nat \<Rightarrow> bytes \<Rightarrow> int option" where
  "parse_int bits s =
     (let neg = (s \<noteq> [] \<and> hd s = CHR ''-'');
          d = (if s \<noteq> [] \<and> (hd s = CHR ''-'' \<or> hd s = CHR ''+'') then tl s else s)
      in if d = [] then None
         else case digits_value 0 d of
             None \<Rightarrow> None
           | Some n \<Rightarrow>
               if neg then (if n \<le> 2 ^ (bits - 1) then Some (- int n) else None)
               else (if n < 2 ^ (bits - 1) then Some (int n) else None))"

lemma format_nat_neq_Nil [simp]: "format_nat n \<noteq> []"
  by (subst format_nat.simps) simp

lemma format_nat_digits: "list_all is_digit (format_nat n)"
proof (induction n rule: format_nat.induct)
  case (1 n)
  then show ?case by (subst format_nat.simps) auto
qed

lemma digits_value_append:
  "digits_value acc (s @ t) = Option.bind (digits_value acc s) (\<lambda>v. digits_value v t)"
  by (induction s arbitrary: acc) auto

lemma digits_value_format_nat: "digits_value 0 (format_nat n) = Some n"
proof (induction n rule: format_nat.induct)
  case (1 n)
  show ?case
  proof (cases "n < 10")
    case True
    then show ?thesis by (subst format_nat.simps) simp
  next
    case False
    with "1.IH" have "digits_value 0 (format_nat (n div 10)) = Some (n div 10)" by simp
    with False show ?thesis
      by (subst format_nat.simps) (simp add: digits_value_append)
  qed
qed

lemma is_digit_not_sign: "is_digit c \<Longrightarrow> c \<noteq> CHR ''-'' \<and> c \<noteq> CHR ''+''"
  by (auto simp: is_digit_def)

lemma hd_format_nat: "is_digit (hd (format_nat n))"
  using format_nat_digits [of n] format_nat_neq_Nil [of n]
  by (cases "format_nat n") auto

lemma format_int_ascii: "is_ascii (format_int i)"
proof -
  have "list_all (\<lambda>c. byte c < 128) s" if "list_all is_digit s" for s
    using that by (auto simp: list_all_iff is_digit_def)
  then show ?thesis using format_nat_digits by (auto simp: is_ascii_def format_int_def)
qed

lemma parse_uint_format_nat: "n < 2 ^ bits \<Longrightarrow> parse_uint bits (format_nat n) = Some n"
  by (simp add: parse_uint_def digits_value_format_nat)

lemma parse_uint_less: "parse_uint bits s = Some n \<Longrightarrow> n < 2 ^ bits"
  by (auto simp: parse_uint_def split: if_splits option.splits)

lemma parse_int_format_int:
  assumes "- (2 ^ (bits - 1)) \<le> i" and "i < 2 ^ (bits - 1)"
  shows "parse_int bits (format_int i) = Some i"
proof (cases "i < 0")
  case True
  have "nat (- i) \<le> 2 ^ (bits - 1)" using assms(1) by (simp add: nat_le_iff)
  with True show ?thesis
    by (simp add: parse_int_def format_int_def digits_value_format_nat Let_def)
next
  case False
  have "nat i < 2 ^ (bits - 1)" using assms(2) False by (simp add: nat_less_iff)
  with False is_digit_not_sign [OF hd_format_nat [of "nat i"]] show ?thesis
    by (simp add: parse_int_def format_int_def digits_value_format_nat Let_def)
qed

interpretation int32_text: codec format_int "parse_int 32" "\<lambda>i. - (2 ^ 31) \<le> i \<and> i < 2 ^ 31"
  by unfold_locales (rule parse_int_format_int, simp_all)

interpretation uint8_text: codec format_nat "parse_uint 8" "\<lambda>n. n < 256"
  by unfold_locales (simp add: parse_uint_format_nat)

section \<open>ASCII strings and trimming\<close>

lemma rune_chunks_is_ascii: "is_ascii s \<Longrightarrow> rune_chunks s = map (\<lambda>c. (byte c, [c])) s"
  by (induction s) (auto simp: is_ascii_def rune_chunks_ascii)

lemma valid_utf8_is_ascii: "is_ascii s \<Longrightarrow> valid_utf8 s"
  by (simp add: is_ascii_def valid_utf8_all_ascii)

lemma runes_is_ascii: "is_ascii s \<Longrightarrow> runes s = map byte s"
  by (simp add: is_ascii_def runes_all_ascii)

lemma trim_space_id_ends:
  assumes "s \<noteq> []" and "byte (hd s) < 128" and "\<not> unicode_space (byte (hd s))"
    and "rune_chunks s = p @ [(byte c, [c])]" and "\<not> unicode_space (byte c)"
  shows "trim_space s = s"
proof -
  obtain x xs where s: "s = x # xs" using assms(1) by (cases s) auto
  have "rune_chunks s = (byte x, [x]) # rune_chunks xs"
    using s assms(2) by (simp add: rune_chunks_ascii)
  then have d: "dropWhile (\<lambda>p. unicode_space (fst p)) (rune_chunks s) = rune_chunks s"
    using s assms(3) by simp
  have "dropWhile (\<lambda>p. unicode_space (fst p)) (rev (rune_chunks s)) = rev (rune_chunks s)"
    using assms(4,5) by simp
  then show ?thesis by (simp add: trim_space_def Let_def d rune_chunks_concat)
qed

section \<open>Strings of small runes\<close>

lemma runes_small_ascii:
  assumes "list_all (\<lambda>r. r < 0x80) (runes s)"
  shows "is_ascii s"
proof -
  have "valid_utf8 s"
    using assms by (auto simp: valid_utf8_def runes_def list_all_iff good_chunk_def rune_error_def)
  then have s: "s = concat (map encode_rune (runes s))" using valid_utf8_runes by simp
  have "is_ascii (concat (map encode_rune rs))" if "list_all (\<lambda>r. r < 0x80) rs" for rs
    using that by (induction rs) (auto simp: is_ascii_def encode_rune_def encode_scalar_def scalar_def)
  from this [OF assms] s show ?thesis by simp
qed

lemma runes_list_all_byte:
  assumes "\<And>r. P r \<Longrightarrow> r < 0x80"
  shows "list_all P (runes s) \<longleftrightarrow> list_all (\<lambda>c. P (byte c)) s"
proof
  assume l: "list_all P (runes s)"
  then have "is_ascii s" using assms runes_small_ascii by (metis (mono_tags, lifting) list.pred_mono_strong)
  then show "list_all (\<lambda>c. P (byte c)) s" using l by (simp add: runes_is_ascii list_all_iff)
next
  assume l: "list_all (\<lambda>c. P (byte c)) s"
  then have "is_ascii s" using assms by (simp add: is_ascii_def list_all_iff)
  then show "list_all P (runes s)" using l by (simp add: runes_is_ascii list_all_iff)
qed

definition lower_alnum :: "char \<Rightarrow> bool" where
  "lower_alnum c \<longleftrightarrow> is_lower c \<or> is_digit c"

lemma lower_alnum_ascii: "list_all lower_alnum s \<Longrightarrow> is_ascii s"
  by (auto simp: is_ascii_def list_all_iff lower_alnum_def is_lower_def is_digit_def)

definition printable :: "bytes \<Rightarrow> bool" where
  "printable s \<longleftrightarrow> list_all (\<lambda>c. 0x20 \<le> byte c \<and> byte c < 0x7f) s"

lemma printable_ascii: "printable s \<Longrightarrow> is_ascii s"
  by (auto simp: printable_def is_ascii_def list_all_iff)

lemma length_format_nat_lower: "10 ^ w \<le> n \<Longrightarrow> w < length (format_nat n)"
proof (induction n arbitrary: w rule: format_nat.induct)
  case (1 n)
  show ?case
  proof (cases w)
    case 0
    then show ?thesis by (subst format_nat.simps) simp
  next
    case (Suc v)
    then have "10 * 10 ^ v \<le> n" using "1.prems" by simp
    then have "\<not> n < 10" and "10 ^ v \<le> n div 10"
      using one_le_power [of "10::nat" v] by (linarith, simp add: less_eq_div_iff_mult_less_eq mult.commute)
    then have "v < length (format_nat (n div 10))" using "1.IH" by simp
    then show ?thesis using Suc \<open>\<not> n < 10\<close> by (subst format_nat.simps) simp
  qed
qed

lemma parse_int_range:
  "parse_int 32 s = Some i \<Longrightarrow> - 2147483648 \<le> i \<and> i \<le> 2147483647"
  by (auto simp: parse_int_def Let_def split: if_splits option.splits)

lemma digits_value_bound:
  "digits_value acc s = Some n \<Longrightarrow> n < (acc + 1) * 10 ^ length s"
proof (induction s arbitrary: acc)
  case (Cons c s)
  then have d: "is_digit c" "digits_value (10 * acc + (byte c - 48)) s = Some n"
    by (auto split: if_splits)
  have "n < (10 * acc + (byte c - 48) + 1) * 10 ^ length s" by (rule Cons.IH [OF d(2)])
  also have "\<dots> \<le> (10 * (acc + 1)) * 10 ^ length s"
    using d(1) by (intro mult_right_mono) (auto simp: is_digit_def)
  finally show ?case by (simp add: algebra_simps)
qed simp

lemma digits_value_digits:
  "list_all is_digit s \<Longrightarrow> \<exists>n. digits_value acc s = Some n"
  by (induction s arbitrary: acc) auto

lemma trim_space_head:
  assumes "byte c < 128" "\<not> unicode_space (byte c)"
  shows "\<exists>v. trim_space (c # u) = c # v"
proof -
  have "rev (dropWhile P (rev (x # xs))) = x # rev (dropWhile P (rev xs))" if "\<not> P x" for P and x :: "nat \<times> bytes" and xs
    using that by (cases "\<forall>y\<in>set xs. P y") (simp_all add: dropWhile_append)
  then show ?thesis
    using assms rune_chunks_ascii [of c u] by (simp add: trim_space_def Let_def)
qed

lemma length_trim_space: "length (trim_space s) \<le> length s"
proof -
  let ?d = "dropWhile (\<lambda>p. unicode_space (fst p))"
  obtain a where a: "rune_chunks s = a @ ?d (rune_chunks s)" by (metis takeWhile_dropWhile_id)
  obtain b where b: "rev (?d (rune_chunks s)) = b @ ?d (rev (?d (rune_chunks s)))" by (metis takeWhile_dropWhile_id)
  have "rune_chunks s = a @ rev (?d (rev (?d (rune_chunks s)))) @ rev b"
    using a b by (metis rev_append rev_rev_ident)
  then have "s = concat (map snd a) @ trim_space s @ concat (map snd (rev b))"
    unfolding trim_space_def Let_def by (metis concat_append map_append rune_chunks_concat)
  then show ?thesis by (metis length_append le_add1 le_add2 le_trans)
qed

lemma has_suffix_Cons: "length p \<le> length s \<Longrightarrow> has_suffix (a # s) p \<longleftrightarrow> has_suffix s p"
  by (simp add: has_suffix_def Suc_diff_le)

lemma encode_rune_ascii_length: "is_ascii (encode_rune r) \<Longrightarrow> length (encode_rune r) = 1"
  by (auto simp: encode_rune_def encode_scalar_def rune_error_def scalar_def is_ascii_def split: if_splits)

lemma length_runes: "length (runes s) \<le> length s"
proof (induction s rule: rune_chunks.induct)
  case (2 c s)
  obtain r n where d: "decode_rune (c # s) = (r, n)" by fastforce
  then show ?case using "2.IH" [OF d [symmetric] refl] by (simp add: runes_def rune_chunks.simps(2))
qed (simp add: runes_def)

lemma length_to_lower: "is_ascii (to_lower s) \<Longrightarrow> length (to_lower s) \<le> length s"
proof (cases "is_ascii s")
  case False
  assume a: "is_ascii (to_lower s)"
  have "length (concat (map (\<lambda>r. encode_rune (lower_rune r)) rs)) = length rs"
    if "is_ascii (concat (map (\<lambda>r. encode_rune (lower_rune r)) rs))" for rs
    using that by (induction rs) (auto simp: is_ascii_def encode_rune_ascii_length [unfolded is_ascii_def])
  then show ?thesis using a False length_runes [of s] by (simp add: to_lower_def)
qed (simp add: to_lower_def)

lemma is_ascii_append [simp]: "is_ascii (a @ b) \<longleftrightarrow> is_ascii a \<and> is_ascii b"
  by (simp add: is_ascii_def)

lemma is_ascii_Cons [simp]: "is_ascii (c # s) \<longleftrightarrow> byte c < 128 \<and> is_ascii s" "is_ascii []"
  by (simp_all add: is_ascii_def)

lemma digits_ascii: "list_all is_digit s \<Longrightarrow> is_ascii s"
  by (auto simp: is_ascii_def is_digit_def list_all_iff)

lemma trim_space_snoc:
  assumes "byte c < 128" "unicode_space (byte c)"
  shows "trim_space (s @ [c]) = trim_space s"
proof -
  let ?d = "dropWhile (\<lambda>p. unicode_space (fst p))"
  have "?d (rev (?d (xs @ [(byte c, [c])]))) = ?d (rev (?d xs))" for xs :: "(nat \<times> bytes) list"
  proof (cases "?d xs = []")
    case True
    then have "\<forall>x\<in>set xs. unicode_space (fst x)" by (simp add: dropWhile_eq_Nil_conv)
    then have "?d (xs @ [(byte c, [c])]) = []" using assms(2) by (simp add: dropWhile_eq_Nil_conv)
    then show ?thesis by (simp only: True)
  next
    case False
    then have "?d (xs @ [(byte c, [c])]) = ?d xs @ [(byte c, [c])]"
      by (simp add: dropWhile_append dropWhile_eq_Nil_conv)
    then show ?thesis using assms(2) by simp
  qed
  then show ?thesis by (simp add: trim_space_def Let_def rune_chunks_snoc_ascii [OF assms(1)])
qed

lemma trim_space_Cons:
  assumes "byte c < 128" "unicode_space (byte c)"
  shows "trim_space (c # s) = trim_space s"
  using assms by (simp add: trim_space_def rune_chunks_ascii)

lemma hd_format_nat_zero: "0 < n \<Longrightarrow> hd (format_nat n) \<noteq> CHR ''0''"
proof (induction n rule: format_nat.induct)
  case (1 n)
  show ?case
  proof (cases "n < 10")
    case True
    have "byte (digit_char n) \<noteq> 48" using True 1(2) by simp
    then have "digit_char n \<noteq> CHR ''0''" by auto
    then show ?thesis using True by (subst format_nat.simps) auto
  next
    case False
    then show ?thesis using 1(1) by (subst format_nat.simps) simp
  qed
qed

lemma format_int_head: "\<exists>c u. format_int i = c # u \<and> (c = CHR ''-'' \<or> is_digit c)"
  by (metis format_int_def format_nat_neq_Nil hd_format_nat list.collapse)

lemmas strings_eval [eval_defs] =
  has_prefix_def has_suffix_def trim_prefix_def cut_def cut_last_def trim_set_def
  unicode_space_def trim_left_space_def trim_space_def lower_byte_def upper_byte_def
  lower_rune_def is_ascii_def to_lower_def equal_fold_def is_digit_def is_lower_def is_upper_def
  digit_char_def format_int_def parse_uint_def parse_int_def format_nat.simps

end
