(* ===== verification/Go_Base64.thy ===== *)
theory Go_Base64
  imports Go_Strings
begin

text \<open>
  Go's package \<open>encoding/base64\<close> as the code uses it: \<open>StdEncoding.EncodeToString\<close>,
  \<open>StdEncoding.Strict().DecodeString\<close> (which skips CR and LF and insists on canonical padding and
  zero trailing bits) and \<open>RawURLEncoding.EncodeToString\<close>. The theory shows that strict decoding
  inverts encoding and that a string without line breaks has at most one decoding, which encodes
  back to it.
\<close>

section \<open>Alphabets\<close>

definition b64_sym :: "char \<Rightarrow> char \<Rightarrow> nat \<Rightarrow> char" where
  "b64_sym p q n =
     (if n < 26 then char_of (65 + n) else if n < 52 then char_of (71 + n)
      else if n < 62 then char_of (n - 4) else if n = 62 then p else q)"

abbreviation std_sym :: "nat \<Rightarrow> char" where
  "std_sym \<equiv> b64_sym CHR ''+'' CHR ''/''"

abbreviation url_sym :: "nat \<Rightarrow> char" where
  "url_sym \<equiv> b64_sym CHR ''-'' CHR ''_''"

definition std_val :: "char \<Rightarrow> nat option" where
  "std_val c =
     (let b = byte c in
      if 65 \<le> b \<and> b \<le> 90 then Some (b - 65) else if 97 \<le> b \<and> b \<le> 122 then Some (b - 71)
      else if 48 \<le> b \<and> b \<le> 57 then Some (b + 4)
      else if c = CHR ''+'' then Some 62 else if c = CHR ''/'' then Some 63 else None)"

section \<open>Encoding and strict decoding\<close>

fun b64_encode :: "bytes \<Rightarrow> bytes" where
  "b64_encode [] = []"
| "b64_encode [a] = [std_sym (byte a div 4), std_sym (byte a mod 4 * 16), CHR ''='', CHR ''='']"
| "b64_encode [a, b] =
     [std_sym (byte a div 4), std_sym (byte a mod 4 * 16 + byte b div 16),
      std_sym (byte b mod 16 * 4), CHR ''='']"
| "b64_encode (a # b # c # rest) =
     std_sym (byte a div 4) # std_sym (byte a mod 4 * 16 + byte b div 16)
     # std_sym (byte b mod 16 * 4 + byte c div 64) # std_sym (byte c mod 64) # b64_encode rest"

fun b64_raw_url :: "bytes \<Rightarrow> bytes" where
  "b64_raw_url [] = []"
| "b64_raw_url [a] = [url_sym (byte a div 4), url_sym (byte a mod 4 * 16)]"
| "b64_raw_url [a, b] =
     [url_sym (byte a div 4), url_sym (byte a mod 4 * 16 + byte b div 16),
      url_sym (byte b mod 16 * 4)]"
| "b64_raw_url (a # b # c # rest) =
     url_sym (byte a div 4) # url_sym (byte a mod 4 * 16 + byte b div 16)
     # url_sym (byte b mod 16 * 4 + byte c div 64) # url_sym (byte c mod 64) # b64_raw_url rest"

fun b64_quads :: "bytes \<Rightarrow> bytes option" where
  "b64_quads [] = Some []"
| "b64_quads (w # x # y # z # rest) =
     (if y = CHR ''='' then
        (if z = CHR ''='' \<and> rest = [] then
           (case (std_val w, std_val x) of
              (Some i, Some j) \<Rightarrow>
                if j mod 16 = 0 then Some [char_of (i * 4 + j div 16)] else None
            | _ \<Rightarrow> None)
         else None)
      else if z = CHR ''='' then
        (if rest = [] then
           (case (std_val w, std_val x, std_val y) of
              (Some i, Some j, Some k) \<Rightarrow>
                if k mod 4 = 0
                then Some [char_of (i * 4 + j div 16), char_of (j mod 16 * 16 + k div 4)] else None
            | _ \<Rightarrow> None)
         else None)
      else
        (case (std_val w, std_val x, std_val y, std_val z, b64_quads rest) of
           (Some i, Some j, Some k, Some l, Some ds) \<Rightarrow>
             Some (char_of (i * 4 + j div 16) # char_of (j mod 16 * 16 + k div 4)
               # char_of (k mod 4 * 64 + l) # ds)
         | _ \<Rightarrow> None))"
| "b64_quads _ = None"

definition line_break :: "char \<Rightarrow> bool" where
  "line_break c \<longleftrightarrow> c = CHR 0x0D \<or> c = CHR 0x0A"

definition b64_decode_strict :: "bytes \<Rightarrow> bytes option" where
  "b64_decode_strict s = b64_quads (filter (\<lambda>c. \<not> line_break c) s)"

text \<open>\<open>StdEncoding.DecodedLen\<close>.\<close>

definition b64_decoded_len :: "nat \<Rightarrow> nat" where
  "b64_decoded_len n = n div 4 * 3"

section \<open>Decoding inverts encoding\<close>

lemma std_val_sym [simp]: "n < 64 \<Longrightarrow> std_val (std_sym n) = Some n"
  by (auto simp: std_val_def b64_sym_def Let_def)

lemma byte_std_sym: "n < 64 \<Longrightarrow> byte (std_sym n) \<in> {65..90} \<union> {97..122} \<union> {48..57} \<union> {43, 47}"
  by (auto simp: b64_sym_def)

lemma std_sym_neq_pad [simp]: "n < 64 \<Longrightarrow> std_sym n \<noteq> CHR ''=''"
  using byte_std_sym [of n] by auto

lemma std_sym_not_break [simp]: "n < 64 \<Longrightarrow> \<not> line_break (std_sym n)"
  using byte_std_sym [of n] by (auto simp: line_break_def)

lemma sextets:
  fixes a b c :: nat
  assumes "a < 256" "b < 256" "c < 256"
  shows "a div 4 < 64" "a mod 4 * 16 < 64" "a mod 4 * 16 + b div 16 < 64" "b mod 16 * 4 < 64"
    "b mod 16 * 4 + c div 64 < 64" "c mod 64 < 64"
proof -
  have "a mod 4 < 4" "b mod 16 < 16" "b div 16 < 16" "c div 64 < 4" using assms by auto
  then show "a mod 4 * 16 < 64" "a mod 4 * 16 + b div 16 < 64" "b mod 16 * 4 < 64"
    "b mod 16 * 4 + c div 64 < 64" by linarith+
qed (use assms in auto)

lemma std_sym_ascii: "n < 64 \<Longrightarrow> byte (std_sym n) < 128"
  using byte_std_sym [of n] by auto

lemmas sextet_bounds = sextets [OF byte_less byte_less byte_less]

lemmas sextet_simps [simp] = sextet_bounds [THEN std_val_sym] sextet_bounds [THEN std_sym_neq_pad]
  sextet_bounds [THEN std_sym_not_break] sextet_bounds [THEN std_sym_ascii]

lemma octet_simps:
  "byte b div 16 div 16 = 0" "byte b div 16 mod 16 = byte b div 16"
  "byte c div 64 div 4 = 0" "byte c div 64 mod 4 = byte c div 64"
proof -
  have "byte b div 16 < 16" "byte c div 64 < 4"
    using byte_less [of b] byte_less [of c] by (simp_all add: less_mult_imp_div_less)
  then show "byte b div 16 div 16 = 0" "byte b div 16 mod 16 = byte b div 16"
    "byte c div 64 div 4 = 0" "byte c div 64 mod 4 = byte c div 64" by simp_all
qed

lemma filter_b64_encode: "filter (\<lambda>c. \<not> line_break c) (b64_encode s) = b64_encode s"
  by (induction s rule: b64_encode.induct) (auto simp: line_break_def [of "CHR ''=''"])

lemma b64_quads_encode: "b64_quads (b64_encode s) = Some s"
  by (induction s rule: b64_encode.induct) (simp_all add: octet_simps)

theorem b64_decode_encode: "b64_decode_strict (b64_encode s) = Some s"
  by (simp add: b64_decode_strict_def filter_b64_encode b64_quads_encode)

lemma b64_encode_ascii: "is_ascii (b64_encode s)"
  unfolding is_ascii_def by (induction s rule: b64_encode.induct) auto

lemma b64_encode_line_break: "list_all (\<lambda>c. \<not> line_break c) (b64_encode s)"
  using filter_b64_encode [of s] by (metis (mono_tags, lifting) filter_id_conv list_all_iff)

section \<open>Strict decoding accepts only canonical encodings\<close>

lemma std_valD: "std_val c = Some n \<Longrightarrow> n < 64 \<and> std_sym n = c"
  by (auto simp: std_val_def b64_sym_def Let_def split: if_splits)

lemma b64_encode_of_quad:
  fixes i j k l :: nat
  assumes "i < 64" "j < 64" "k < 64" "l < 64"
  shows "(i * 4 + j div 16) div 4 = i" "(i * 4 + j div 16) mod 4 * 16 + (j mod 16 * 16 + k div 4) div 16 = j"
    "(j mod 16 * 16 + k div 4) mod 16 * 4 + (k mod 4 * 64 + l) div 64 = k" "(k mod 4 * 64 + l) mod 64 = l"
    "i * 4 + j div 16 < 256" "j mod 16 * 16 + k div 4 < 256" "k mod 4 * 64 + l < 256"
    "(i * 4 + j div 16) mod 4 = j div 16" "(j mod 16 * 16 + k div 4) mod 16 = k div 4"
proof -
  have b: "j div 16 < 4" "k div 4 < 16" "j mod 16 < 16" "k mod 4 < 4" using assms by auto
  then show "(i * 4 + j div 16) mod 4 = j div 16" "(j mod 16 * 16 + k div 4) mod 16 = k div 4"
    "(i * 4 + j div 16) div 4 = i" by simp_all
  have "(j mod 16 * 16 + k div 4) div 16 = j mod 16" "(k mod 4 * 64 + l) div 64 = k mod 4"
    using b assms by simp_all
  then show "(i * 4 + j div 16) mod 4 * 16 + (j mod 16 * 16 + k div 4) div 16 = j"
    "(j mod 16 * 16 + k div 4) mod 16 * 4 + (k mod 4 * 64 + l) div 64 = k"
    using b by (simp_all add: div_mult_mod_eq)
  show "i * 4 + j div 16 < 256" "j mod 16 * 16 + k div 4 < 256" "k mod 4 * 64 + l < 256"
    using b assms by linarith+
qed (use assms in simp)

lemma b64_encode_quads: "b64_quads s = Some d \<Longrightarrow> b64_encode d = s"
proof (induction s arbitrary: d rule: b64_quads.induct)
  case (2 w x y z rest)
  show ?case
  proof (cases "y = CHR ''=''")
    case True
    with 2 obtain i j where "std_val w = Some i" "std_val x = Some j" "j mod 16 = 0"
      "d = [char_of (i * 4 + j div 16)]" "z = CHR ''=''" "rest = []"
      by (auto split: if_splits option.splits)
    moreover have "j = j div 16 * 16" using calculation(3) by auto
    ultimately show ?thesis
      using True std_valD b64_encode_of_quad [of i j 0 0]
      by (auto dest!: std_valD)
  next
    case y: False
    show ?thesis
    proof (cases "z = CHR ''=''")
      case True
      with y 2 obtain i j k where "std_val w = Some i" "std_val x = Some j" "std_val y = Some k"
        "k mod 4 = 0" "d = [char_of (i * 4 + j div 16), char_of (j mod 16 * 16 + k div 4)]" "rest = []"
        by (auto split: if_splits option.splits)
      moreover have "k = k div 4 * 4" using calculation(4) by auto
      ultimately show ?thesis
        using True b64_encode_of_quad [of i j k 0] by (auto dest!: std_valD)
    next
      case False
      with y 2(2) obtain i j k l ds where v: "std_val w = Some i" "std_val x = Some j" "std_val y = Some k"
        "std_val z = Some l" "b64_quads rest = Some ds" "d = char_of (i * 4 + j div 16)
          # char_of (j mod 16 * 16 + k div 4) # char_of (k mod 4 * 64 + l) # ds"
        by (auto split: if_splits option.splits)
      with "2.IH" [OF y False] have "b64_encode ds = rest" by auto
      with v show ?thesis using b64_encode_of_quad [of i j k l] by (auto dest!: std_valD)
    qed
  qed
qed auto

theorem b64_encode_decode:
  assumes "b64_decode_strict s = Some d" and "list_all (\<lambda>c. \<not> line_break c) s"
  shows "b64_encode d = s"
proof -
  have "filter (\<lambda>c. \<not> line_break c) s = s" using assms(2) by (simp add: list_all_iff filter_id_conv)
  with assms(1) show ?thesis by (simp add: b64_decode_strict_def b64_encode_quads)
qed

interpretation base64: canonical_codec b64_encode b64_decode_strict "\<lambda>_. True"
  "list_all (\<lambda>c. \<not> line_break c)"
  by unfold_locales (simp_all add: b64_decode_encode b64_encode_decode)

section \<open>Lengths\<close>

lemma length_b64_encode: "length (b64_encode s) = (length s + 2) div 3 * 4"
proof (induction s rule: b64_encode.induct)
  case (4 a b c rest)
  have "(length (a # b # c # rest) + 2) div 3 = Suc ((length rest + 2) div 3)" by simp
  with 4 show ?case by simp
qed auto

text \<open>The unpadded URL encoding is injective and never emits a dot.\<close>

lemma url_sym_neq_dot [simp]: "n < 64 \<Longrightarrow> url_sym n \<noteq> CHR ''.''"
  by (auto simp: b64_sym_def dest: arg_cong [of _ _ byte])

lemma url_sym_inj: "m < 64 \<Longrightarrow> n < 64 \<Longrightarrow> url_sym m = url_sym n \<Longrightarrow> m = n"
  by (auto simp: b64_sym_def dest: arg_cong [of _ _ byte] split: if_splits)

lemma b64_encode_Nil_iff [simp]: "b64_encode d = [] \<longleftrightarrow> d = []"
  by (cases d rule: b64_encode.cases) auto

lemma b64_encode_padding:
  "has_suffix (b64_encode d) ''='' \<longleftrightarrow> length d mod 3 \<noteq> 0"
  "has_suffix (b64_encode d) ''=='' \<longleftrightarrow> length d mod 3 = 1"
proof (induction d rule: b64_encode.induct)
  case (4 a b c rest)
  have m: "length (a # b # c # rest) mod 3 = length rest mod 3" by (simp add: mod_add_self2)
  have l: "rest \<noteq> [] \<Longrightarrow> 4 \<le> length (b64_encode rest)"
    by (cases rest rule: b64_encode.cases) auto
  { case 1 show ?case using "4.IH"(1) l m by (cases "rest = []") (simp_all add: has_suffix_Cons, simp add: has_suffix_def) }
  { case 2 show ?case using "4.IH"(2) l m by (cases "rest = []") (simp_all add: has_suffix_Cons, simp add: has_suffix_def) }
qed (simp_all add: has_suffix_def)

lemmas base64_eval [eval_defs] =
  b64_sym_def std_val_def line_break_def b64_decode_strict_def b64_decoded_len_def

section \<open>The unpadded encoding is injective\<close>

lemma sextet_split:
  fixes a b a' b' :: nat
  assumes "a * k + b = a' * k + b'" "b < k" "b' < k"
  shows "a = a'" "b = b'"
proof -
  have "(a * k + b) div k = a" "(a' * k + b') div k = a'" using assms(2,3) by simp_all
  then show "a = a'" using assms(1) by simp
  then show "b = b'" using assms(1) by simp
qed

lemma byte_parts: "byte c div k = byte d div k \<Longrightarrow> byte c mod k = byte d mod k \<Longrightarrow> c = d"
  by (metis byte_eq_iff div_mult_mod_eq)

lemma byte_div: "byte c div 4 < 64" "byte c div 16 < 16" "byte c div 64 < 4"
  using byte_less [of c] by linarith+

lemma url_sextet_bounds:
  "byte a mod 4 * 16 + byte b div 16 < 64" "byte b mod 16 * 4 + byte c div 64 < 64" "byte a mod 4 * 16 < 64"
  "byte b mod 16 * 4 < 64" "byte c mod 64 < 64"
proof -
  have "byte a mod 4 < 4" "byte b mod 16 < 16" by simp_all
  then show "byte a mod 4 * 16 + byte b div 16 < 64" "byte b mod 16 * 4 + byte c div 64 < 64" "byte a mod 4 * 16 < 64"
    "byte b mod 16 * 4 < 64" "byte c mod 64 < 64" using byte_div(2) [of b] byte_div(3) [of c] by linarith+
qed

lemma first_sextets:
  assumes "url_sym (byte a div 4) = url_sym (byte a' div 4)"
    and "url_sym (byte a mod 4 * 16 + byte b div 16) = url_sym (byte a' mod 4 * 16 + byte b' div 16)"
  shows "a = a'" "byte b div 16 = byte b' div 16"
proof -
  have "byte a div 4 = byte a' div 4" by (rule url_sym_inj [OF byte_div(1) byte_div(1) assms(1)])
  moreover have s: "byte a mod 4 * 16 + byte b div 16 = byte a' mod 4 * 16 + byte b' div 16"
    by (rule url_sym_inj [OF url_sextet_bounds(1) url_sextet_bounds(1) assms(2)])
  ultimately show "a = a'" using byte_parts sextet_split(1) [OF s byte_div(2) byte_div(2)] by blast
  show "byte b div 16 = byte b' div 16" by (rule sextet_split(2) [OF s byte_div(2) byte_div(2)])
qed

lemma b64_raw_url_inj: "b64_raw_url s = b64_raw_url t \<Longrightarrow> s = t"
proof (induction s arbitrary: t rule: b64_raw_url.induct)
  case 1
  then show ?case by (cases t rule: b64_raw_url.cases) auto
next
  case (2 a)
  then show ?case
  proof (cases t rule: b64_raw_url.cases)
    case (2 a')
    have e: "url_sym (byte a div 4) = url_sym (byte a' div 4)" "url_sym (byte a mod 4 * 16) = url_sym (byte a' mod 4 * 16)"
      using "2.prems" 2 by simp_all
    have "byte a div 4 = byte a' div 4" by (rule url_sym_inj [OF byte_div(1) byte_div(1) e(1)])
    moreover have "byte a mod 4 = byte a' mod 4"
      using url_sym_inj [OF url_sextet_bounds(3) url_sextet_bounds(3) e(2)] by simp
    ultimately show ?thesis using 2 byte_parts by blast
  qed auto
next
  case (3 a b)
  then show ?case
  proof (cases t rule: b64_raw_url.cases)
    case (3 a' b')
    have e: "url_sym (byte a div 4) = url_sym (byte a' div 4)"
      "url_sym (byte a mod 4 * 16 + byte b div 16) = url_sym (byte a' mod 4 * 16 + byte b' div 16)"
      "url_sym (byte b mod 16 * 4) = url_sym (byte b' mod 16 * 4)"
      using "3.prems" 3 by simp_all
    note f = first_sextets [OF e(1,2)]
    have "byte b mod 16 = byte b' mod 16" using url_sym_inj [OF url_sextet_bounds(4) url_sextet_bounds(4) e(3)] by simp
    then have "b = b'" using f(2) byte_parts by blast
    then show ?thesis using 3 f(1) by simp
  qed auto
next
  case (4 a b c rest)
  then show ?case
  proof (cases t rule: b64_raw_url.cases)
    case (4 a' b' c' rest')
    have e: "url_sym (byte a div 4) = url_sym (byte a' div 4)"
      "url_sym (byte a mod 4 * 16 + byte b div 16) = url_sym (byte a' mod 4 * 16 + byte b' div 16)"
      "url_sym (byte b mod 16 * 4 + byte c div 64) = url_sym (byte b' mod 16 * 4 + byte c' div 64)"
      "url_sym (byte c mod 64) = url_sym (byte c' mod 64)" "b64_raw_url rest = b64_raw_url rest'"
      using "4.prems" 4 by simp_all
    note f = first_sextets [OF e(1,2)]
    note s = url_sym_inj [OF url_sextet_bounds(2) url_sextet_bounds(2) e(3)]
    have "b = b'" using f(2) byte_parts sextet_split(1) [OF s byte_div(3) byte_div(3)] by blast
    moreover have "c = c'"
      using byte_parts sextet_split(2) [OF s byte_div(3) byte_div(3)]
        url_sym_inj [OF url_sextet_bounds(5) url_sextet_bounds(5) e(4)] by blast
    ultimately show ?thesis using 4 f(1) "4.IH" [OF e(5)] by simp
  qed auto
qed

lemma b64_raw_url_no_dot: "CHR ''.'' \<notin> set (b64_raw_url s)"
proof -
  have n: "n < 64 \<Longrightarrow> CHR ''.'' \<noteq> url_sym n" for n using url_sym_neq_dot [of n] by metis
  show ?thesis
    by (induction s rule: b64_raw_url.induct) (simp_all add: n byte_div url_sextet_bounds)
qed

end
