(* ===== verification/Go_URL.thy ===== *)
theory Go_URL
  imports Go_Strings
begin

text \<open>
  Go's package \<open>net/url\<close> as the code uses it: \<open>url.Parse\<close>, \<open>URL.IsAbs\<close>, \<open>URL.String\<close> and
  \<open>url.PathUnescape\<close>, with the escaping tables, the authority parser and the IPv6 literals that
  \<open>Parse\<close> accepts. A parse error is \<open>None\<close>. The theory also shows that percent decoding inverts
  every percent encoding that escapes the percent sign.
\<close>

section \<open>Percent encoding\<close>

datatype encoding = EncodePath | EncodePathSegment | EncodeHost | EncodeZone
  | EncodeUserPassword | EncodeFragment

definition is_hex :: "char \<Rightarrow> bool" where
  "is_hex c \<longleftrightarrow> is_digit c \<or> (97 \<le> byte c \<and> byte c \<le> 102) \<or> (65 \<le> byte c \<and> byte c \<le> 70)"

definition unhex :: "char \<Rightarrow> nat" where
  "unhex c =
     (if is_digit c then byte c - 48 else if 97 \<le> byte c \<and> byte c \<le> 102 then byte c - 87
      else if 65 \<le> byte c \<and> byte c \<le> 70 then byte c - 55 else 0)"

definition upper_hex :: "nat \<Rightarrow> char" where
  "upper_hex n = (if n < 10 then char_of (48 + n) else char_of (55 + n))"

definition alphanum :: "char \<Rightarrow> bool" where
  "alphanum c \<longleftrightarrow> is_lower c \<or> is_upper c \<or> is_digit c"

definition should_escape :: "encoding \<Rightarrow> char \<Rightarrow> bool" where
  "should_escape m c =
     (if alphanum c then False
      else if (m = EncodeHost \<or> m = EncodeZone) \<and> c \<in> set ''!$&'()*+,;=:[]<>\"'' then False
      else if c \<in> set ''-_.~'' then False
      else if c \<in> set ''$&+,/:;=?@'' then
        (case m of
           EncodePath \<Rightarrow> c = CHR ''?''
         | EncodePathSegment \<Rightarrow> c \<in> set ''/;,?''
         | EncodeUserPassword \<Rightarrow> c \<in> set ''@/?:''
         | EncodeFragment \<Rightarrow> False
         | _ \<Rightarrow> True)
      else if m = EncodeFragment \<and> c \<in> set ''!()*'' then False
      else True)"

definition escape :: "encoding \<Rightarrow> bytes \<Rightarrow> bytes" where
  "escape m s =
     concat (map (\<lambda>c. if should_escape m c
       then [CHR ''%'', upper_hex (byte c div 16), upper_hex (byte c mod 16)] else [c]) s)"

fun unescape :: "encoding \<Rightarrow> bytes \<Rightarrow> bytes option" where
  "unescape m [] = Some []"
| "unescape m (c # cs) =
     (if c = CHR ''%'' then
        (case cs of
           h # l # rest \<Rightarrow>
             if \<not> is_hex h \<or> \<not> is_hex l then None
             else if m = EncodeHost \<and> unhex h < 8 \<and> [c, h, l] \<noteq> ''%25'' then None
             else if m = EncodeZone \<and> [c, h, l] \<noteq> ''%25''
               \<and> char_of (unhex h * 16 + unhex l) \<noteq> CHR '' ''
               \<and> should_escape EncodeHost (char_of (unhex h * 16 + unhex l)) then None
             else map_option (Cons (char_of (unhex h * 16 + unhex l))) (unescape m rest)
         | _ \<Rightarrow> None)
      else if (m = EncodeHost \<or> m = EncodeZone) \<and> byte c < 128 \<and> should_escape m c then None
      else map_option (Cons c) (unescape m cs))"

text \<open>\<open>url.PathUnescape\<close>.\<close>

definition path_unescape :: "bytes \<Rightarrow> bytes option" where
  "path_unescape s = unescape EncodePathSegment s"

section \<open>Authorities\<close>

definition ctl_byte :: "char \<Rightarrow> bool" where
  "ctl_byte c \<longleftrightarrow> byte c < 32 \<or> byte c = 127"

fun scheme_scan :: "bytes \<Rightarrow> bytes \<Rightarrow> (bytes \<times> bytes) option option" where
  "scheme_scan acc [] = Some None"
| "scheme_scan acc (c # cs) =
     (if is_lower c \<or> is_upper c then scheme_scan (acc @ [c]) cs
      else if is_digit c \<or> c \<in> set ''+-.'' then
        (if acc = [] then Some None else scheme_scan (acc @ [c]) cs)
      else if c = CHR '':'' then (if acc = [] then None else Some (Some (acc, cs)))
      else Some None)"

text \<open>\<open>getScheme\<close>: an error, or the scheme (empty when there is none) and the rest.\<close>

definition get_scheme :: "bytes \<Rightarrow> (bytes \<times> bytes) option" where
  "get_scheme s =
     (case scheme_scan [] s of
        None \<Rightarrow> None | Some None \<Rightarrow> Some ([], s) | Some (Some p) \<Rightarrow> Some p)"

definition valid_optional_port :: "bytes \<Rightarrow> bool" where
  "valid_optional_port p \<longleftrightarrow> p = [] \<or> (hd p = CHR '':'' \<and> list_all is_digit (tl p))"

definition ipv4_field_ok :: "bytes \<Rightarrow> bool" where
  "ipv4_field_ok f \<longleftrightarrow> f \<noteq> [] \<and> list_all is_digit f \<and> length f \<le> 3
     \<and> (1 < length f \<longrightarrow> hd f \<noteq> CHR ''0'') \<and> the (digits_value 0 f) \<le> 255"

definition ipv4_ok :: "bytes \<Rightarrow> bool" where
  "ipv4_ok s \<longleftrightarrow> (let fs = split_on CHR ''.'' s in length fs = 4 \<and> list_all ipv4_field_ok fs)"

definition ipv6_finish :: "nat \<Rightarrow> bool \<Rightarrow> bytes \<Rightarrow> bool" where
  "ipv6_finish k ellipsis s \<longleftrightarrow> s = [] \<and> (if k < 8 then ellipsis else \<not> ellipsis)"

function ipv6_groups :: "nat \<Rightarrow> bool \<Rightarrow> bytes \<Rightarrow> bool" where
  "ipv6_groups k ellipsis s =
     (if 8 \<le> k then ipv6_finish k ellipsis s
      else let n = length (takeWhile is_hex s); r = drop n s in
        if n = 0 \<or> 4 < n then False
        else if r \<noteq> [] \<and> hd r = CHR ''.'' then
          (if (\<not> ellipsis \<and> k \<noteq> 6) \<or> 8 < k + 2 then False
           else ipv4_ok s \<and> ipv6_finish (k + 2) ellipsis [])
        else if r = [] then ipv6_finish (k + 1) ellipsis []
        else if hd r \<noteq> CHR '':'' \<or> tl r = [] then False
        else if hd (tl r) = CHR '':'' then
          (if ellipsis then False
           else if tl (tl r) = [] then ipv6_finish (k + 1) True []
           else ipv6_groups (k + 1) True (tl (tl r)))
        else ipv6_groups (k + 1) ellipsis (tl r))"
  by pat_completeness auto
termination
  by (relation "measure (\<lambda>(k, e, s). 8 - k)") auto

declare ipv6_groups.simps [simp del]

text \<open>An IP literal in brackets: \<open>netip.ParseAddr\<close> accepts it and it is not an IPv4 address.\<close>

definition ipv6_ok :: "bytes \<Rightarrow> bool" where
  "ipv6_ok s =
     (let (a, zone, zoned) = cut CHR ''%'' s in
      (case find (\<lambda>c. c \<in> set ''.:%'') s of Some c \<Rightarrow> c = CHR '':'' | None \<Rightarrow> False)
      \<and> (zoned \<longrightarrow> zone \<noteq> [])
      \<and> (if has_prefix a ''::'' then
           (if drop 2 a = [] then True else ipv6_groups 0 True (drop 2 a))
         else ipv6_groups 0 False a))"

fun cut_zone :: "bytes \<Rightarrow> bytes \<Rightarrow> (bytes \<times> bytes) option" where
  "cut_zone acc [] = None"
| "cut_zone acc (c # cs) =
     (if has_prefix (c # cs) ''%25'' then Some (acc, c # cs) else cut_zone (acc @ [c]) cs)"

definition parse_bracketed :: "bytes \<Rightarrow> bytes \<Rightarrow> bytes option" where
  "parse_bracketed hostname colon_port =
     (if \<not> valid_optional_port colon_port then None
      else case unescape EncodeHost colon_port of
          None \<Rightarrow> None
        | Some port \<Rightarrow>
            (let name = (case cut_zone [] hostname of
                 None \<Rightarrow> unescape EncodeHost hostname
               | Some (h, z) \<Rightarrow>
                   (case (unescape EncodeHost h, unescape EncodeZone z) of
                      (Some h', Some z') \<Rightarrow> Some (h' @ z') | _ \<Rightarrow> None))
             in case name of
                 None \<Rightarrow> None
               | Some n \<Rightarrow> if ipv6_ok n then Some (''['' @ n @ '']'' @ port) else None))"

definition parse_host :: "bytes \<Rightarrow> bytes \<Rightarrow> bytes option" where
  "parse_host scheme host =
     (case cut_last CHR ''['' host of
        Some (opening, inner) \<Rightarrow>
          (case cut_last CHR '']'' host of
             None \<Rightarrow> None
           | Some (pre, colon_port) \<Rightarrow>
               if length pre < length opening + 1 then None
               else parse_bracketed (drop (length opening + 1) pre) colon_port)
      | None \<Rightarrow>
          (let (a, b, found) = cut CHR '':'' host;
               first_port = (if found then CHR '':'' # b else []);
               last_port = (case cut_last CHR '':'' host of
                   None \<Rightarrow> [] | Some (_, p) \<Rightarrow> CHR '':'' # p);
               port = (if scheme = ''http'' \<or> scheme = ''https'' then first_port else last_port)
           in if \<not> valid_optional_port port then None else unescape EncodeHost host))"

definition valid_userinfo :: "bytes \<Rightarrow> bool" where
  "valid_userinfo s \<longleftrightarrow> list_all (\<lambda>c. alphanum c \<or> c \<in> set ''-._:~!$&'()*+,;=%@'') s"

section \<open>URLs\<close>

record url =
  url_scheme :: bytes
  url_opaque :: bytes
  url_user :: "(bytes \<times> bytes option) option"
  url_host :: bytes
  url_path :: bytes
  url_raw_path :: bytes
  url_omit_host :: bool
  url_force_query :: bool
  url_raw_query :: bytes
  url_fragment :: bytes
  url_raw_fragment :: bytes

definition empty_url :: url where
  "empty_url = \<lparr>url_scheme = [], url_opaque = [], url_user = None, url_host = [], url_path = [],
     url_raw_path = [], url_omit_host = False, url_force_query = False, url_raw_query = [],
     url_fragment = [], url_raw_fragment = []\<rparr>"

definition parse_authority ::
    "bytes \<Rightarrow> bytes \<Rightarrow> ((bytes \<times> bytes option) option \<times> bytes) option" where
  "parse_authority scheme authority =
     (case cut_last CHR ''@'' authority of
        None \<Rightarrow> map_option (Pair None) (parse_host scheme authority)
      | Some (info, host) \<Rightarrow>
          (case parse_host scheme host of
             None \<Rightarrow> None
           | Some h \<Rightarrow>
               if \<not> valid_userinfo info then None
               else (let (u, p, colon) = cut CHR '':'' info in
                 if \<not> colon then
                   map_option (\<lambda>u'. (Some (u', None), h)) (unescape EncodeUserPassword info)
                 else (case (unescape EncodeUserPassword u, unescape EncodeUserPassword p) of
                     (Some u', Some p') \<Rightarrow> Some (Some (u', Some p'), h)
                   | _ \<Rightarrow> None))))"

definition set_path :: "url \<Rightarrow> bytes \<Rightarrow> url option" where
  "set_path u p =
     (case unescape EncodePath p of
        None \<Rightarrow> None
      | Some path \<Rightarrow>
          Some (u\<lparr>url_path := path,
            url_raw_path := (if escape EncodePath path = p then [] else p)\<rparr>))"

definition set_fragment :: "url \<Rightarrow> bytes \<Rightarrow> url option" where
  "set_fragment u f =
     (case unescape EncodeFragment f of
        None \<Rightarrow> None
      | Some frag \<Rightarrow>
          Some (u\<lparr>url_fragment := frag,
            url_raw_fragment := (if escape EncodeFragment frag = f then [] else f)\<rparr>))"

definition parse_no_fragment :: "bytes \<Rightarrow> url option" where
  "parse_no_fragment raw =
     (if list_ex ctl_byte raw then None
      else if raw = ''*'' then Some (empty_url\<lparr>url_path := ''*''\<rparr>)
      else case get_scheme raw of
          None \<Rightarrow> None
        | Some (scheme0, rest0) \<Rightarrow>
            (let scheme = to_lower scheme0;
                 force = (has_suffix rest0 ''?'' \<and> length (filter ((=) CHR ''?'') rest0) = 1);
                 rest = (if force then butlast rest0 else fst (cut CHR ''?'' rest0));
                 query = (if force then [] else fst (snd (cut CHR ''?'' rest0)));
                 u = empty_url\<lparr>url_scheme := scheme, url_force_query := force,
                       url_raw_query := query\<rparr>
             in if \<not> has_prefix rest ''/'' \<and> scheme \<noteq> [] then Some (u\<lparr>url_opaque := rest\<rparr>)
                else if \<not> has_prefix rest ''/'' \<and> CHR '':'' \<in> set (fst (cut CHR ''/'' rest)) then None
                else if (scheme \<noteq> [] \<or> \<not> has_prefix rest ''///'') \<and> has_prefix rest ''//'' then
                  (let r = drop 2 rest; authority = takeWhile (\<lambda>c. c \<noteq> CHR ''/'') r;
                       path = dropWhile (\<lambda>c. c \<noteq> CHR ''/'') r
                   in case parse_authority scheme authority of
                       None \<Rightarrow> None
                     | Some (user, host) \<Rightarrow>
                         set_path (u\<lparr>url_user := user, url_host := host\<rparr>) path)
                else set_path (u\<lparr>url_omit_host := (scheme \<noteq> [] \<and> has_prefix rest ''/'')\<rparr>) rest))"

text \<open>\<open>url.Parse\<close>.\<close>

definition url_parse :: "bytes \<Rightarrow> url option" where
  "url_parse raw =
     (let (u, frag, _) = cut CHR ''#'' raw in
      case parse_no_fragment u of
        None \<Rightarrow> None
      | Some parsed \<Rightarrow> if frag = [] then Some parsed else set_fragment parsed frag)"

definition valid_encoded :: "encoding \<Rightarrow> bytes \<Rightarrow> bool" where
  "valid_encoded m s \<longleftrightarrow>
     list_all (\<lambda>c. c \<in> set ''!$&'()*+,;=:@[]%'' \<or> \<not> should_escape m c) s"

definition escaped_path :: "url \<Rightarrow> bytes" where
  "escaped_path u =
     (if url_raw_path u \<noteq> [] \<and> valid_encoded EncodePath (url_raw_path u)
         \<and> unescape EncodePath (url_raw_path u) = Some (url_path u) then url_raw_path u
      else if url_path u = ''*'' then ''*'' else escape EncodePath (url_path u))"

definition escaped_fragment :: "url \<Rightarrow> bytes" where
  "escaped_fragment u =
     (if url_raw_fragment u \<noteq> [] \<and> valid_encoded EncodeFragment (url_raw_fragment u)
         \<and> unescape EncodeFragment (url_raw_fragment u) = Some (url_fragment u)
      then url_raw_fragment u else escape EncodeFragment (url_fragment u))"

definition userinfo_string :: "bytes \<times> bytes option \<Rightarrow> bytes" where
  "userinfo_string ui =
     escape EncodeUserPassword (fst ui)
     @ (case snd ui of None \<Rightarrow> [] | Some p \<Rightarrow> '':'' @ escape EncodeUserPassword p)"

text \<open>\<open>URL.String\<close>.\<close>

definition url_string :: "url \<Rightarrow> bytes" where
  "url_string u =
     (let scheme = (if url_scheme u \<noteq> [] then url_scheme u @ '':'' else []);
          no_auth = (url_omit_host u \<and> url_host u = [] \<and> url_user u = None);
          auth = (if (url_scheme u \<noteq> [] \<or> url_host u \<noteq> [] \<or> url_user u \<noteq> None) \<and> \<not> no_auth then
              (if url_host u \<noteq> [] \<or> url_path u \<noteq> [] \<or> url_user u \<noteq> None then ''//'' else [])
              @ (case url_user u of None \<Rightarrow> [] | Some ui \<Rightarrow> userinfo_string ui @ ''@'')
              @ escape EncodeHost (url_host u) else []);
          path0 = escaped_path u;
          path1 = (if no_auth \<and> has_prefix path0 ''//'' then ''%2F'' @ tl path0 else path0);
          slash = (if path1 \<noteq> [] \<and> hd path1 \<noteq> CHR ''/'' \<and> url_host u \<noteq> [] then ''/'' else []);
          dot = (if scheme @ auth @ slash = [] \<and> CHR '':'' \<in> set (fst (cut CHR ''/'' path1))
                 then ''./'' else []);
          body = (if url_opaque u \<noteq> [] then url_opaque u else auth @ slash @ dot @ path1);
          query = (if url_force_query u \<or> url_raw_query u \<noteq> [] then ''?'' @ url_raw_query u else []);
          frag = (if url_fragment u \<noteq> [] then ''#'' @ escaped_fragment u else [])
      in scheme @ body @ query @ frag)"

definition url_is_abs :: "url \<Rightarrow> bool" where
  "url_is_abs u \<longleftrightarrow> url_scheme u \<noteq> []"

section \<open>Percent decoding inverts percent encoding\<close>

lemma hex_digits [simp]:
  "n < 16 \<Longrightarrow> is_hex (upper_hex n)" "n < 16 \<Longrightarrow> unhex (upper_hex n) = n"
  by (auto simp: is_hex_def upper_hex_def is_digit_def unhex_def)

lemma unescape_hex:
  assumes "m \<noteq> EncodeHost" "m \<noteq> EncodeZone"
  shows "unescape m (CHR ''%'' # upper_hex (byte c div 16) # upper_hex (byte c mod 16) # s)
    = map_option (Cons c) (unescape m s)"
proof -
  have "byte c div 16 < 16" using byte_less [of c] by (simp add: less_mult_imp_div_less)
  then show ?thesis using assms by (simp add: div_mult_mod_eq)
qed

lemma unescape_plain:
  assumes "m \<noteq> EncodeHost" "m \<noteq> EncodeZone" "c \<noteq> CHR ''%''"
  shows "unescape m (c # s) = map_option (Cons c) (unescape m s)"
  using assms by simp

lemma unescape_escape:
  assumes "m \<noteq> EncodeHost" "m \<noteq> EncodeZone"
  shows "unescape m (escape m s) = Some s"
proof (induction s)
  case (Cons c s)
  have "should_escape m CHR ''%''"
    by (simp add: should_escape_def alphanum_def is_lower_def is_upper_def is_digit_def)
  then have "c \<noteq> CHR ''%''" if "\<not> should_escape m c" using that by blast
  with Cons show ?case
    using unescape_hex [OF assms] unescape_plain [OF assms]
    by (auto simp: escape_def simp del: unescape.simps(2))
qed (simp add: escape_def)

lemmas url_eval [eval_defs] =
  is_hex_def unhex_def upper_hex_def alphanum_def should_escape_def escape_def path_unescape_def
  ctl_byte_def get_scheme_def valid_optional_port_def ipv4_field_ok_def ipv4_ok_def
  ipv6_finish_def ipv6_ok_def parse_bracketed_def parse_host_def valid_userinfo_def
  empty_url_def parse_authority_def set_path_def set_fragment_def parse_no_fragment_def
  url_parse_def valid_encoded_def escaped_path_def escaped_fragment_def userinfo_string_def
  url_string_def url_is_abs_def

end
