(* ===== verification/Go_Time.thy ===== *)
theory Go_Time
  imports Go_Strings "HOL-Library.Monad_Syntax"
begin

text \<open>
  Go's \<open>time.Time\<close> as an instant (seconds since 1970 and nanoseconds) with the offset of its
  location, \<open>Time.UTC\<close>, formatting with \<open>time.RFC3339Nano\<close> and \<open>time.Parse\<close> for that layout. The
  code only ever formats a time after \<open>UTC()\<close>, so formatting is given for offset zero. Monotonic
  clock readings do not take part in formatting and are left out. The parser follows the general
  layout parser of Go, which also accepts a one-digit hour, a comma before the fraction and any number of
  fraction digits. The theory proves the calendar conversion and the round trip through text for the
  years 0 to 9999, the range of the layout.
\<close>

section \<open>Instants\<close>

record gotime =
  unix_sec :: int
  nsec :: nat
  zone_offset :: int

definition zero_time :: gotime where
  "zero_time = \<lparr>unix_sec = -62135596800, nsec = 0, zone_offset = 0\<rparr>"

definition time_is_zero :: "gotime \<Rightarrow> bool" where
  "time_is_zero t \<longleftrightarrow> unix_sec t = -62135596800 \<and> nsec t = 0"

definition time_utc :: "gotime \<Rightarrow> gotime" where
  "time_utc t = t\<lparr>zone_offset := 0\<rparr>"

section \<open>The proleptic Gregorian calendar\<close>

definition leap_year :: "int \<Rightarrow> bool" where
  "leap_year y \<longleftrightarrow> y mod 4 = 0 \<and> (y mod 100 \<noteq> 0 \<or> y mod 400 = 0)"

definition days_in :: "int \<Rightarrow> int \<Rightarrow> int" where
  "days_in m y =
     (if m = 2 then (if leap_year y then 29 else 28)
      else if m \<in> {4, 6, 9, 11} then 30 else 31)"

text \<open>
  Days since 1970-01-01, with years counted from March so that the leap day is the last of its year.
\<close>

definition days_from_civil :: "int \<Rightarrow> int \<Rightarrow> int \<Rightarrow> int" where
  "days_from_civil y m d =
     (let y' = (if m \<le> 2 then y - 1 else y); era = y' div 400; yoe = y' mod 400;
          mp = (if m \<le> 2 then m + 9 else m - 3);
          doy = (153 * mp + 2) div 5 + d - 1
      in era * 146097 + (yoe * 365 + yoe div 4 - yoe div 100 + doy) - 719468)"

definition civil_from_days :: "int \<Rightarrow> int \<times> int \<times> int" where
  "civil_from_days z =
     (let era = (z + 719468) div 146097; doe = (z + 719468) mod 146097;
          n100 = min 3 (doe div 36524); r100 = doe - 36524 * n100;
          n4 = r100 div 1461; r4 = r100 - 1461 * n4;
          n1 = min 3 (r4 div 365); doy = r4 - 365 * n1;
          mp = (5 * doy + 2) div 153; d = doy - (153 * mp + 2) div 5 + 1;
          m = (if mp < 10 then mp + 3 else mp - 9);
          y = era * 400 + 100 * n100 + 4 * n4 + n1
      in (if m \<le> 2 then y + 1 else y, m, d))"

lemma div_bounds:
  fixes x k :: int
  assumes "0 < k"
  shows "k * (x div k) \<le> x" "x < k * (x div k) + k" "0 \<le> x \<Longrightarrow> 0 \<le> x div k"
  using assms mult_div_mod_eq [of k x] pos_mod_bound [of k x] pos_mod_sign [of k x]
  by (linarith, linarith, simp add: pos_imp_zdiv_nonneg_iff)

lemma year_of_era:
  fixes doe :: int
  assumes "0 \<le> doe" "doe < 146097"
    and "a = min 3 (doe div 36524)" "r = doe - 36524 * a" "b = r div 1461" "s = r - 1461 * b"
    and "c = min 3 (s div 365)" "doy = s - 365 * c"
  shows "0 \<le> a" "a \<le> 3" "0 \<le> b" "b \<le> 24" "0 \<le> c" "c \<le> 3" "0 \<le> doy" "doy \<le> 365"
    and "doe = 36524 * a + 1461 * b + 365 * c + doy"
    and "doy = 365 \<Longrightarrow> c = 3" "doy = 365 \<Longrightarrow> b = 24 \<Longrightarrow> a = 3"
proof -
  have q: "0 \<le> doe div 36524" "36524 * (doe div 36524) \<le> doe" "doe < 36524 * (doe div 36524) + 36524"
    using assms(1) div_bounds [of 36524 doe] by simp_all
  show a: "0 \<le> a" "a \<le> 3" using q(1) assms(3) by auto
  have r: "0 \<le> r" "r \<le> 36524" "a < 3 \<Longrightarrow> r < 36524"
    using assms(2-4) q by (auto simp: min_def split: if_splits)
  have s: "0 \<le> s" "s \<le> 1460" using div_bounds [of 1461 r] assms(5,6) by simp_all
  show b: "0 \<le> b" "b \<le> 24" using r assms(5) div_bounds [of 1461 r] by simp_all
  have t: "0 \<le> s div 365" "365 * (s div 365) \<le> s" "s < 365 * (s div 365) + 365"
    using s(1) div_bounds [of 365 s] by simp_all
  show c: "0 \<le> c" "c \<le> 3" using t(1) assms(7) by auto
  show d: "0 \<le> doy" "doy \<le> 365" "doy = 365 \<Longrightarrow> c = 3"
    using assms(7,8) t s by (auto simp: min_def split: if_splits)
  show "doe = 36524 * a + 1461 * b + 365 * c + doy" using assms(4,6,8) by linarith
  show "a = 3" if "doy = 365" "b = 24"
  proof -
    have "s = 1460" using that d(3) assms(8) by simp
    then have "r = 36524" using that(2) assms(6) by simp
    then show ?thesis using a r(3) by linarith
  qed
qed

lemma year_parts:
  fixes a b c :: int
  assumes "0 \<le> a" "a \<le> 3" "0 \<le> b" "b \<le> 24" "0 \<le> c" "c \<le> 3"
  shows "(100 * a + 4 * b + c) div 4 = 25 * a + b" "(100 * a + 4 * b + c) div 100 = a"
    "0 \<le> 100 * a + 4 * b + c" "100 * a + 4 * b + c < 400"
  using assms by auto

text \<open>Month and day from the day of the March year.\<close>

lemma month_of_day:
  fixes doy :: int
  assumes "0 \<le> doy" "doy \<le> 365"
    and "mp = (5 * doy + 2) div 153" "d = doy - (153 * mp + 2) div 5 + 1"
  shows "0 \<le> mp" "mp \<le> 11" "1 \<le> d"
    and "mp \<noteq> 11 \<Longrightarrow> d \<le> (if mp \<in> {1, 3, 6, 8} then 30 else 31)" "mp = 11 \<Longrightarrow> d = doy - 336"
proof -
  have q: "153 * mp \<le> 5 * doy + 2" "5 * doy + 2 < 153 * mp + 153"
    using assms(3) div_bounds [of 153 "5 * doy + 2"] by simp_all
  then show mp: "0 \<le> mp" "mp \<le> 11" using assms(1,2) by linarith+
  then have "mp = 0 \<or> mp = 1 \<or> mp = 2 \<or> mp = 3 \<or> mp = 4 \<or> mp = 5 \<or> mp = 6 \<or> mp = 7 \<or> mp = 8
      \<or> mp = 9 \<or> mp = 10 \<or> mp = 11" by arith
  then show "1 \<le> d" "mp \<noteq> 11 \<Longrightarrow> d \<le> (if mp \<in> {1, 3, 6, 8} then 30 else 31)"
    "mp = 11 \<Longrightarrow> d = doy - 336"
    using assms(4) q by auto
qed

text \<open>The calendar date of a day number is a valid date and determines the day number.\<close>

lemma civil_from_days_valid:
  assumes "civil_from_days z = (y, m, d)"
  shows "days_from_civil y m d = z" "1 \<le> m" "m \<le> 12" "1 \<le> d" "d \<le> days_in m y"
proof -
  define era doe where "era = (z + 719468) div 146097" and "doe = (z + 719468) mod 146097"
  define a r b s c doy where "a = min 3 (doe div 36524)" and "r = doe - 36524 * a"
    and "b = r div 1461" and "s = r - 1461 * b" and "c = min 3 (s div 365)" and "doy = s - 365 * c"
  define mp where "mp = (5 * doy + 2) div 153"
  define yoe where "yoe = 100 * a + 4 * b + c"
  have doe: "0 \<le> doe" "doe < 146097" "z + 719468 = era * 146097 + doe"
    by (simp_all add: doe_def era_def)
  note ye = year_of_era [OF doe(1,2) a_def r_def b_def s_def c_def doy_def]
  note yp = year_parts [OF ye(1-6), folded yoe_def]
  have eq: "civil_from_days z = (let m' = (if mp < 10 then mp + 3 else mp - 9) in
      (if m' \<le> 2 then era * 400 + 100 * a + 4 * b + c + 1 else era * 400 + 100 * a + 4 * b + c,
       m', doy - (153 * mp + 2) div 5 + 1))"
    unfolding civil_from_days_def Let_def mp_def doy_def c_def s_def b_def r_def a_def doe_def era_def
    by (rule refl)
  have d: "d = doy - (153 * mp + 2) div 5 + 1" and m: "m = (if mp < 10 then mp + 3 else mp - 9)"
    and y: "y = (if m \<le> 2 then era * 400 + yoe + 1 else era * 400 + yoe)"
    using assms unfolding eq Let_def yoe_def by auto
  note md = month_of_day [OF ye(7,8) mp_def d]
  show m12: "1 \<le> m" "m \<le> 12" "1 \<le> d" using md m by auto
  have y': "(if m \<le> 2 then y - 1 else y) = era * 400 + yoe" using y by simp
  have era: "(era * 400 + yoe) div 400 = era" "(era * 400 + yoe) mod 400 = yoe"
    using yp(3,4) by simp_all
  have mp': "(if m \<le> 2 then m + 9 else m - 3) = mp" using m md(1,2) by auto
  show "days_from_civil y m d = z"
    unfolding days_from_civil_def Let_def y' mp' era
    using doe(3) ye(9) yp(1,2) d yoe_def by simp
  show "d \<le> days_in m y"
  proof (cases "mp = 11")
    case True
    then have "m = 2" and yy: "y = era * 400 + yoe + 1" using m y by auto
    show ?thesis
    proof (cases "doy = 365")
      case 365: True
      have "y = 4 * (100 * era + 25 * a + b + 1)" using yy ye(10) [OF 365] yoe_def by simp
      then have "y mod 4 = 0" by (metis mod_mult_self1_is_0)
      moreover have "y mod 100 = 0 \<Longrightarrow> y mod 400 = 0"
      proof -
        assume "y mod 100 = 0"
        moreover have "y = 100 * (4 * era + a) + 4 * (b + 1)" using yy ye(10) [OF 365] yoe_def by simp
        ultimately have "(4 * (b + 1)) mod 100 = 0" by (metis mod_mult_self4)
        then have "b = 24" using ye(3,4) by (cases "b < 24") auto
        then have "a = 3" using ye(11) [OF 365] by simp
        then have "y = 400 * (era + 1)" using yy ye(10) [OF 365] yoe_def \<open>b = 24\<close> by simp
        then show ?thesis by simp
      qed
      ultimately have "leap_year y" by (auto simp: leap_year_def)
      then show ?thesis using md(5) [OF True] 365 \<open>m = 2\<close> by (simp add: days_in_def)
    next
      case False
      then show ?thesis using md(5) [OF True] ye(8) \<open>m = 2\<close> by (simp add: days_in_def)
    qed
  next
    case False
    then show ?thesis using md(1,2,4) m by (auto simp: days_in_def split: if_splits)
  qed
qed

section \<open>Formatting\<close>

definition zero_pad :: "nat \<Rightarrow> nat \<Rightarrow> bytes" where
  "zero_pad w n = replicate (w - length (format_nat n)) CHR ''0'' @ format_nat n"

definition year_text :: "int \<Rightarrow> bytes" where
  "year_text y = (if y < 0 then ''-'' else []) @ zero_pad 4 (nat \<bar>y\<bar>)"

definition frac_text :: "nat \<Rightarrow> bytes" where
  "frac_text n =
     (if n = 0 then [] else CHR ''.'' # rev (dropWhile ((=) CHR ''0'') (rev (zero_pad 9 n))))"

text \<open>\<open>Time.Format(time.RFC3339Nano)\<close> of a time in UTC.\<close>

definition time_format :: "gotime \<Rightarrow> bytes" where
  "time_format t =
     (let (y, m, d) = civil_from_days (unix_sec t div 86400); s = nat (unix_sec t mod 86400)
      in year_text y @ ''-'' @ zero_pad 2 (nat m) @ ''-'' @ zero_pad 2 (nat d) @ ''T''
         @ zero_pad 2 (s div 3600) @ '':'' @ zero_pad 2 (s mod 3600 div 60) @ '':''
         @ zero_pad 2 (s mod 60) @ frac_text (nsec t) @ ''Z'')"

section \<open>Parsing\<close>

definition expect :: "char \<Rightarrow> bytes \<Rightarrow> bytes option" where
  "expect c s = (case s of [] \<Rightarrow> None | x # xs \<Rightarrow> if x = c then Some xs else None)"

text \<open>\<open>getnum\<close> with a fixed width of two digits, and the four-digit year.\<close>

definition get_digits :: "nat \<Rightarrow> bytes \<Rightarrow> (nat \<times> bytes) option" where
  "get_digits w s =
     (if w \<le> length s then map_option (\<lambda>n. (n, drop w s)) (digits_value 0 (take w s)) else None)"

definition get_hour :: "bytes \<Rightarrow> (nat \<times> bytes) option" where
  "get_hour s =
     (case s of
        [] \<Rightarrow> None
      | [a] \<Rightarrow> if is_digit a then Some (byte a - 48, []) else None
      | a # b # r \<Rightarrow>
          if \<not> is_digit a then None
          else if is_digit b then Some (10 * (byte a - 48) + (byte b - 48), r)
          else Some (byte a - 48, b # r))"

definition parse_frac :: "bytes \<Rightarrow> nat \<times> bytes" where
  "parse_frac s =
     (case s of
        p # r \<Rightarrow>
          (let ds = takeWhile is_digit r; kept = take 9 ds in
           if (p = CHR ''.'' \<or> p = CHR '','') \<and> ds \<noteq> []
           then (the (digits_value 0 kept) * 10 ^ (9 - length kept), dropWhile is_digit r)
           else (0, s))
      | [] \<Rightarrow> (0, []))"

definition parse_zone :: "bytes \<Rightarrow> int option" where
  "parse_zone s =
     (if s \<noteq> [] \<and> hd s = CHR ''Z'' then (if tl s = [] then Some 0 else None)
      else if length s \<noteq> 6 \<or> s ! 3 \<noteq> CHR '':'' then None
      else do {
        (h, _) \<leftarrow> get_digits 2 (take 2 (drop 1 s));
        (m, _) \<leftarrow> get_digits 2 (take 2 (drop 4 s));
        if 24 < h \<or> 60 < m then None
        else if s ! 0 = CHR ''+'' then Some (int ((h * 60 + m) * 60))
        else if s ! 0 = CHR ''-'' then Some (- int ((h * 60 + m) * 60))
        else None
      })"

definition date_seconds :: "nat \<Rightarrow> nat \<Rightarrow> nat \<Rightarrow> nat \<Rightarrow> nat \<Rightarrow> nat \<Rightarrow> int" where
  "date_seconds y mo d h mi s =
     days_from_civil (int y) (int mo) (int d) * 86400 + int (h * 3600 + mi * 60 + s)"

text \<open>\<open>time.Parse(time.RFC3339Nano, s)\<close>.\<close>

definition time_parse :: "bytes \<Rightarrow> gotime option" where
  "time_parse v = do {
     (y, v) \<leftarrow> get_digits 4 v;
     v \<leftarrow> expect CHR ''-'' v;
     (mo, v) \<leftarrow> get_digits 2 v;
     v \<leftarrow> expect CHR ''-'' v;
     (d, v) \<leftarrow> get_digits 2 v;
     v \<leftarrow> expect CHR ''T'' v;
     (h, v) \<leftarrow> get_hour v;
     v \<leftarrow> expect CHR '':'' v;
     (mi, v) \<leftarrow> get_digits 2 v;
     v \<leftarrow> expect CHR '':'' v;
     (s, v) \<leftarrow> get_digits 2 v;
     let (ns, v) = parse_frac v;
     off \<leftarrow> parse_zone v;
     if 1 \<le> mo \<and> mo \<le> 12 \<and> h < 24 \<and> mi < 60 \<and> s < 60 \<and> 1 \<le> d
        \<and> int d \<le> days_in (int mo) (int y)
     then Some \<lparr>unix_sec = date_seconds y mo d h mi s - off, nsec = ns, zone_offset = off\<rparr>
     else None
   }"

section \<open>Round trip\<close>

lemma length_format_nat: "n < 10 ^ w \<Longrightarrow> 0 < w \<Longrightarrow> length (format_nat n) \<le> w"
proof (induction n arbitrary: w rule: format_nat.induct)
  case (1 n)
  show ?case
  proof (cases "n < 10")
    case True
    then show ?thesis using "1.prems" by (subst format_nat.simps) simp
  next
    case False
    obtain v where v: "w = Suc v" using "1.prems"(2) by (cases w) auto
    have "v \<noteq> 0" using False "1.prems"(1) v by (cases v) auto
    then have w: "w = Suc v" "0 < v" using v by auto
    then have "n div 10 < 10 ^ v" using "1.prems"(1) by (simp add: less_mult_imp_div_less mult.commute)
    then have "length (format_nat (n div 10)) \<le> v" using "1.IH" [OF False] w(2) by simp
    then show ?thesis using False w by (subst format_nat.simps) simp
  qed
qed

lemma digits_value_zeros: "digits_value 0 (replicate k CHR ''0'' @ s) = digits_value 0 s"
  by (induction k) (auto simp: is_digit_def)

lemma zero_pad_props:
  assumes "n < 10 ^ w" "0 < w"
  shows "length (zero_pad w n) = w" "digits_value 0 (zero_pad w n) = Some n"
    "list_all is_digit (zero_pad w n)"
  using length_format_nat [OF assms] format_nat_digits [of n]
  by (auto simp: zero_pad_def digits_value_zeros digits_value_format_nat list_all_iff is_digit_def)

lemma get_digits_zero_pad:
  assumes "n < 10 ^ w" "0 < w"
  shows "get_digits w (zero_pad w n @ s) = Some (n, s)"
  using zero_pad_props [OF assms] by (simp add: get_digits_def)

lemma get_hour_zero_pad:
  assumes "n < 100"
  shows "get_hour (zero_pad 2 n @ s) = Some (n, s)"
proof -
  have p: "length (zero_pad 2 n) = 2" "digits_value 0 (zero_pad 2 n) = Some n"
    "list_all is_digit (zero_pad 2 n)" using zero_pad_props [of n 2] assms by auto
  then obtain a b where "zero_pad 2 n = [a, b]"
    by (metis One_nat_def Suc_1 length_0_conv length_Suc_conv)
  with p show ?thesis by (auto simp: get_hour_def)
qed

lemma expect_same [simp]: "expect c (c # s) = Some s"
  by (simp add: expect_def)

lemma digits_value_times_zeros:
  "digits_value 0 (s @ replicate k CHR ''0'') = map_option (\<lambda>n. n * 10 ^ k) (digits_value 0 s)"
proof (induction k arbitrary: s)
  case (Suc k)
  have "s @ replicate (Suc k) CHR ''0'' = (s @ [CHR ''0'']) @ replicate k CHR ''0''" by simp
  then have "digits_value 0 (s @ replicate (Suc k) CHR ''0'')
      = map_option (\<lambda>n. n * 10 ^ k) (digits_value 0 (s @ [CHR ''0'']))" using Suc by metis
  then show ?case
    by (cases "digits_value 0 s") (auto simp: digits_value_append is_digit_def)
qed (simp add: option.map_ident)

lemma strip_zeros:
  obtains k where "s = rev (dropWhile ((=) CHR ''0'') (rev s)) @ replicate k CHR ''0''"
proof -
  let ?z = "takeWhile ((=) CHR ''0'') (rev s)"
  have "?z = replicate (length ?z) CHR ''0''"
    by (rule replicate_length_same [symmetric]) (auto dest: set_takeWhileD)
  then have "rev s = replicate (length ?z) CHR ''0'' @ dropWhile ((=) CHR ''0'') (rev s)"
    by (metis takeWhile_dropWhile_id)
  then have "s = rev (dropWhile ((=) CHR ''0'') (rev s)) @ replicate (length ?z) CHR ''0''"
    by (metis rev_append rev_replicate rev_rev_ident)
  then show thesis by (rule that)
qed

lemma parse_frac_text:
  assumes "n < 10 ^ 9"
  shows "parse_frac (frac_text n @ ''Z'') = (n, ''Z'')"
proof (cases "n = 0")
  case True
  then show ?thesis by (simp add: frac_text_def parse_frac_def is_digit_def)
next
  case False
  have p: "length (zero_pad 9 n) = 9" "digits_value 0 (zero_pad 9 n) = Some n"
    "list_all is_digit (zero_pad 9 n)" using zero_pad_props [of n 9] assms by auto
  define t where "t = rev (dropWhile ((=) CHR ''0'') (rev (zero_pad 9 n)))"
  obtain k where k: "zero_pad 9 n = t @ replicate k CHR ''0''"
    using strip_zeros [of "zero_pad 9 n"] t_def by metis
  have len: "length t + k = 9" using p(1) k by simp
  have val: "map_option (\<lambda>m. m * 10 ^ k) (digits_value 0 t) = Some n"
    using p(2) k digits_value_times_zeros by metis
  then obtain m where m: "digits_value 0 t = Some m" "m * 10 ^ k = n" by auto
  have "t \<noteq> []" using m False by auto
  have dig: "\<And>x. x \<in> set t \<Longrightarrow> is_digit x" using p(3) k by (simp add: list_all_iff)
  have tw: "takeWhile is_digit (t @ ''Z'') = t" "dropWhile is_digit (t @ ''Z'') = ''Z''"
    using dig by (simp_all add: takeWhile_append2 dropWhile_append2 is_digit_def)
  have f: "frac_text n = CHR ''.'' # t" using False by (simp add: frac_text_def t_def)
  have k9: "9 - length t = k" "take 9 t = t" using len by auto
  show ?thesis
    unfolding f using \<open>t \<noteq> []\<close> m
    by (simp add: parse_frac_def tw Let_def k9)
qed

definition rfc3339_range :: "gotime \<Rightarrow> bool" where
  "rfc3339_range t \<longleftrightarrow> nsec t < 10 ^ 9 \<and> zone_offset t = 0
     \<and> (let y = fst (civil_from_days (unix_sec t div 86400)) in 0 \<le> y \<and> y \<le> 9999)"

theorem time_parse_format:
  assumes "rfc3339_range t"
  shows "time_parse (time_format t) = Some t"
proof -
  obtain y m d where c: "civil_from_days (unix_sec t div 86400) = (y, m, d)"
    by (metis prod_cases3)
  note v = civil_from_days_valid [OF c]
  define s where "s = nat (unix_sec t mod 86400)"
  have r: "0 \<le> y" "y \<le> 9999" "nsec t < 10 ^ 9" "zone_offset t = 0"
    using assms c by (auto simp: rfc3339_range_def)
  have d31: "d \<le> 31" using v(5) by (auto simp: days_in_def split: if_splits)
  have s: "s < 86400" "int s = unix_sec t mod 86400" by (auto simp: s_def)
  have hms: "s div 3600 < 24" "s mod 3600 div 60 < 60" "s mod 60 < 60" using s(1) by auto
  have sum: "s div 3600 * 3600 + s mod 3600 div 60 * 60 + s mod 60 = s"
  proof -
    have "s mod 3600 mod 60 = s mod 60" by (simp add: mod_mod_cancel)
    then show ?thesis
      using div_mult_mod_eq [of s 3600] div_mult_mod_eq [of "s mod 3600" 60] by linarith
  qed
  have fmt: "time_format t = zero_pad 4 (nat y) @ ''-'' @ zero_pad 2 (nat m) @ ''-''
      @ zero_pad 2 (nat d) @ ''T'' @ zero_pad 2 (s div 3600) @ '':''
      @ zero_pad 2 (s mod 3600 div 60) @ '':'' @ zero_pad 2 (s mod 60) @ frac_text (nsec t) @ ''Z''"
    using r(1) by (simp add: time_format_def c s_def year_text_def Let_def)
  have sec: "date_seconds (nat y) (nat m) (nat d) (s div 3600) (s mod 3600 div 60) (s mod 60)
      = unix_sec t"
    using v(1-4) r(1) sum s(2) by (simp add: date_seconds_def)
  have bounds: "nat y < 10 ^ 4" "nat m < 10 ^ 2" "nat d < 10 ^ 2" "s div 3600 < 10 ^ 2"
    "s mod 3600 div 60 < 10 ^ 2" "s mod 60 < 10 ^ 2" "s div 3600 < 100"
    using r v d31 hms by auto
  note gd = bounds(1-3,5,6) [THEN get_digits_zero_pad]
  have z: "parse_zone ''Z'' = Some 0" by (simp add: parse_zone_def)
  have md: "1 \<le> nat m" "nat m \<le> 12" "1 \<le> nat d" using v(1-4) by auto
  have "time_parse (time_format t) = Some \<lparr>unix_sec = unix_sec t - 0, nsec = nsec t, zone_offset = 0\<rparr>"
    unfolding time_parse_def fmt
    using v r(1) hms md by (simp add: gd get_hour_zero_pad [OF bounds(7)] parse_frac_text [OF r(3)] z sec)
  then show ?thesis using r(4) by simp
qed

interpretation rfc3339: codec time_format time_parse rfc3339_range
  by unfold_locales (rule time_parse_format)

section \<open>Times outside the four-digit years\<close>

lemma time_format_year_range:
  assumes y: "civil_from_days (unix_sec t div 86400) = (y, m, d)" and n: "y < 0 \<or> 9999 < y"
  shows "time_parse (time_format t) = None"
proof (cases "y < 0")
  case True
  then obtain s where "time_format t = CHR ''-'' # s"
    by (simp add: time_format_def y year_text_def Let_def)
  then show ?thesis
    by (simp add: time_parse_def get_digits_def is_digit_def)
next
  case False
  then have "10 ^ 4 \<le> nat y" using n by simp
  then have len: "4 < length (format_nat (nat y))" by (rule length_format_nat_lower)
  obtain s where f: "time_format t = format_nat (nat y) @ s"
    using False len by (simp add: time_format_def y year_text_def Let_def zero_pad_def)
  have "is_digit (format_nat (nat y) ! 4)"
    using format_nat_digits [of "nat y"] len by (simp add: list_all_length)
  moreover have "drop 4 (time_format t) = format_nat (nat y) ! 4 # drop 5 (format_nat (nat y)) @ s"
    using len by (simp add: f Cons_nth_drop_Suc [symmetric])
  ultimately have "expect CHR ''-'' (drop 4 (time_format t)) = None"
    by (auto simp: expect_def is_digit_def)
  then have "v = drop 4 (time_format t) \<Longrightarrow> expect CHR ''-'' v = None" for v by simp
  moreover have "get_digits 4 (time_format t) = None
      \<or> (\<exists>k. get_digits 4 (time_format t) = Some (k, drop 4 (time_format t)))"
    by (cases "digits_value 0 (take 4 (time_format t))") (auto simp: get_digits_def)
  ultimately show ?thesis by (auto simp: time_parse_def)
qed

definition in_year_range :: "gotime \<Rightarrow> bool" where
  "in_year_range t \<longleftrightarrow>
     (let y = fst (civil_from_days (unix_sec t div 86400)) in 0 \<le> y \<and> y \<le> 9999)"

lemma rfc3339_range_utc: "rfc3339_range (time_utc t) \<longleftrightarrow> nsec t < 10 ^ 9 \<and> in_year_range t"
  by (simp add: rfc3339_range_def in_year_range_def time_utc_def)

lemma time_utc_idem [simp]: "time_utc (time_utc t) = time_utc t"
  by (simp add: time_utc_def)

lemma time_utc_of_range: "rfc3339_range t \<Longrightarrow> time_utc t = t"
  by (simp add: rfc3339_range_def time_utc_def)

lemma time_parse_format_utc:
  assumes "nsec t < 10 ^ 9"
  shows "time_parse (time_format (time_utc t)) = (if in_year_range t then Some (time_utc t) else None)"
proof (cases "in_year_range t")
  case True
  then have "rfc3339_range (time_utc t)" using assms by (simp add: rfc3339_range_utc)
  then show ?thesis using True by (simp add: time_parse_format)
next
  case False
  obtain y m d where c: "civil_from_days (unix_sec t div 86400) = (y, m, d)" by (metis prod_cases3)
  have "civil_from_days (unix_sec (time_utc t) div 86400) = (y, m, d)" using c by (simp add: time_utc_def)
  then have "time_parse (time_format (time_utc t)) = None"
    using False c by (intro time_format_year_range) (auto simp: in_year_range_def)
  then show ?thesis using False by simp
qed

lemma parse_frac_bound: "fst (parse_frac s) < 10 ^ 9"
proof (cases s)
  case (Cons p r)
  define kept where "kept = take 9 (takeWhile is_digit r)"
  have "list_all is_digit kept"
    by (auto simp: kept_def list_all_iff dest: in_set_takeD set_takeWhileD)
  then obtain n where n: "digits_value 0 kept = Some n" using digits_value_digits by blast
  have l: "length kept \<le> 9" by (simp add: kept_def)
  have "n < 10 ^ length kept" using digits_value_bound [OF n] by simp
  then have "n * 10 ^ (9 - length kept) < 10 ^ length kept * 10 ^ (9 - length kept)" by simp
  also have "\<dots> = (10::nat) ^ 9" using l by (simp add: power_add [symmetric] del: power_Suc)
  finally have "the (digits_value 0 kept) * 10 ^ (9 - length kept) < 10 ^ 9" by (simp add: n)
  then show ?thesis by (auto simp: parse_frac_def Cons Let_def kept_def [symmetric])
qed (simp add: parse_frac_def)

lemma pred_option_bind:
  "(\<And>x. m = Some x \<Longrightarrow> pred_option P (f x)) \<Longrightarrow> pred_option P (Option.bind m f)"
  by (cases m) auto

lemma time_parse_nsec: 
  assumes "time_parse v = Some t" shows "nsec t < 10 ^ 9"
proof -
  have "pred_option (\<lambda>t. nsec t < 10 ^ 9) (time_parse v)"
    unfolding time_parse_def case_prod_beta Let_def
    by (intro pred_option_bind) (simp add: parse_frac_bound [simplified])
  then show ?thesis using assms by simp
qed

lemma zero_pad_ascii: "is_ascii (zero_pad w n)"
  using digits_ascii [OF format_nat_digits, of n] by (auto simp: zero_pad_def is_ascii_def list_all_iff)

lemma time_format_ascii: "is_ascii (time_format (time_utc t))"
proof -
  have "is_ascii (frac_text n)" for n
  proof -
    have "set (rev (dropWhile ((=) CHR ''0'') (rev (zero_pad 9 n)))) \<subseteq> set (zero_pad 9 n)"
      using set_dropWhileD by fastforce
    then show ?thesis using zero_pad_ascii [of 9 n] by (auto simp: frac_text_def is_ascii_def list_all_iff)
  qed
  then show ?thesis
    by (auto simp: time_format_def time_utc_def Let_def zero_pad_ascii year_text_def split: prod.split)
qed

lemmas time_eval [eval_defs] =
  zero_time_def time_is_zero_def time_utc_def leap_year_def days_in_def days_from_civil_def
  civil_from_days_def zero_pad_def year_text_def frac_text_def time_format_def expect_def
  get_digits_def get_hour_def parse_frac_def parse_zone_def date_seconds_def time_parse_def

end
