(* ===== verification/CE_Attribute.thy ===== *)
theory CE_Attribute
  imports CE_Errors Go_Strings Go_Base64 Go_URL Go_Time
begin

text \<open>
  Context attributes: \<open>attribute.go\<close>, the selected extensions of \<open>extensions.go\<close> and the value
  predicates of \<open>validation.go\<close>. The \<open>bytes\<close> field of an attribute is only ever written by
  \<open>append([]byte(nil), ...)\<close>, which is nil exactly when it is empty, so one list models it. The
  results are that every constructor that succeeds returns an attribute the validator accepts, and that
  an accepted attribute is the canonical text of one value.
\<close>

section \<open>Value predicates\<close>

definition validCloudString :: "bytes \<Rightarrow> bool" where
  "validCloudString value \<longleftrightarrow>
     valid_utf8 value \<and>
     list_all (\<lambda>r. \<not> (r \<le> 0x1f \<or> (0x7f \<le> r \<and> r \<le> 0x9f) \<or> (0xfdd0 \<le> r \<and> r \<le> 0xfdef)
       \<or> r mod 0x10000 = 0xfffe \<or> r mod 0x10000 = 0xffff)) (runes value)"

definition validURIReference :: "bytes \<Rightarrow> bool" where
  "validURIReference value \<longleftrightarrow>
     (case url_parse value of None \<Rightarrow> False | Some parsed \<Rightarrow> url_string parsed = value)"

definition validAbsoluteURI :: "bytes \<Rightarrow> bool" where
  "validAbsoluteURI value \<longleftrightarrow>
     (case url_parse value of
        None \<Rightarrow> False
      | Some parsed \<Rightarrow> url_is_abs parsed \<and> url_string parsed = value)"

definition lower_alnum_rune :: "nat \<Rightarrow> bool" where
  "lower_alnum_rune r \<longleftrightarrow> (97 \<le> r \<and> r \<le> 122) \<or> (48 \<le> r \<and> r \<le> 57)"

definition validAttributeName :: "bytes \<Rightarrow> bool" where
  "validAttributeName name \<longleftrightarrow> name \<noteq> '''' \<and> list_all lower_alnum_rune (runes name)"

section \<open>Attributes\<close>

datatype AttributeKind =
    AttributeUnassigned
  | AttributeString
  | AttributeBoolean
  | AttributeInteger
  | AttributeBinary
  | AttributeURI
  | AttributeURIReference
  | AttributeTimestamp

record Attribute =
  attr_kind :: AttributeKind
  attr_text :: bytes
  attr_bytes :: bytes

definition format_bool :: "bool \<Rightarrow> bytes" where
  "format_bool b = (if b then ''true'' else ''false'')"

definition NewStringAttribute :: "bytes \<Rightarrow> Attribute result" where
  "NewStringAttribute value =
     (if \<not> validCloudString value then Inl (Sentinel ErrInvalidAttribute)
      else Inr \<lparr>attr_kind = AttributeString, attr_text = value, attr_bytes = []\<rparr>)"

definition NewBooleanAttribute :: "bool \<Rightarrow> Attribute" where
  "NewBooleanAttribute value =
     \<lparr>attr_kind = AttributeBoolean, attr_text = format_bool value, attr_bytes = []\<rparr>"

definition NewIntegerAttribute :: "int \<Rightarrow> Attribute result" where
  "NewIntegerAttribute value =
     (if value < -2147483648 \<or> value > 2147483647 then Inl (Sentinel ErrInvalidAttribute)
      else Inr \<lparr>attr_kind = AttributeInteger, attr_text = format_int value, attr_bytes = []\<rparr>)"

definition NewBinaryAttribute :: "bytes \<Rightarrow> Attribute" where
  "NewBinaryAttribute value =
     \<lparr>attr_kind = AttributeBinary, attr_text = b64_encode value, attr_bytes = value\<rparr>"

definition NewURIAttribute :: "bytes \<Rightarrow> Attribute result" where
  "NewURIAttribute value =
     (if \<not> validCloudString value \<or> \<not> validAbsoluteURI value
      then Inl (Sentinel ErrInvalidAttribute)
      else Inr \<lparr>attr_kind = AttributeURI, attr_text = value, attr_bytes = []\<rparr>)"

definition NewURIReferenceAttribute :: "bytes \<Rightarrow> Attribute result" where
  "NewURIReferenceAttribute value =
     (if \<not> validCloudString value \<or> \<not> validURIReference value
      then Inl (Sentinel ErrInvalidAttribute)
      else Inr \<lparr>attr_kind = AttributeURIReference, attr_text = value, attr_bytes = []\<rparr>)"

definition NewTimestampAttribute :: "gotime \<Rightarrow> Attribute" where
  "NewTimestampAttribute value =
     \<lparr>attr_kind = AttributeTimestamp, attr_text = time_format (time_utc value), attr_bytes = []\<rparr>"

definition Attribute_Kind :: "Attribute \<Rightarrow> AttributeKind" where
  "Attribute_Kind a = attr_kind a"

definition Attribute_String :: "Attribute \<Rightarrow> bytes" where
  "Attribute_String a = attr_text a"

text \<open>\<open>append([]byte(nil), b...)\<close> is nil when \<open>b\<close> is empty.\<close>

definition append_nil :: "bytes \<Rightarrow> bytes option" where
  "append_nil b = (if b = [] then None else Some b)"

definition Attribute_Bytes :: "Attribute \<Rightarrow> bytes option" where
  "Attribute_Bytes a = (if attr_kind a \<noteq> AttributeBinary then None else append_nil (attr_bytes a))"

definition validAttribute :: "Attribute \<Rightarrow> bool" where
  "validAttribute a \<longleftrightarrow>
     (case attr_kind a of
        AttributeString \<Rightarrow> validCloudString (attr_text a)
      | AttributeBoolean \<Rightarrow> attr_text a = ''true'' \<or> attr_text a = ''false''
      | AttributeInteger \<Rightarrow>
          (case parse_int 32 (attr_text a) of
             None \<Rightarrow> False | Some value \<Rightarrow> format_int value = attr_text a)
      | AttributeBinary \<Rightarrow>
          (case b64_decode_strict (attr_text a) of
             None \<Rightarrow> False | Some decoded \<Rightarrow> decoded = attr_bytes a)
      | AttributeURI \<Rightarrow> validCloudString (attr_text a) \<and> validAbsoluteURI (attr_text a)
      | AttributeURIReference \<Rightarrow> validCloudString (attr_text a) \<and> validURIReference (attr_text a)
      | AttributeTimestamp \<Rightarrow>
          (case time_parse (attr_text a) of
             None \<Rightarrow> False | Some value \<Rightarrow> time_format (time_utc value) = attr_text a)
      | AttributeUnassigned \<Rightarrow> False)"

section \<open>Selected extensions\<close>

definition lowerHex :: "bytes \<Rightarrow> bool" where
  "lowerHex value \<longleftrightarrow>
     list_all (\<lambda>r. (48 \<le> r \<and> r \<le> 57) \<or> (97 \<le> r \<and> r \<le> 102)) (runes value)"

definition allZero :: "bytes \<Rightarrow> bool" where
  "allZero value \<longleftrightarrow> list_all (\<lambda>r. r = 48) (runes value)"

definition validTraceParent :: "bytes \<Rightarrow> bool" where
  "validTraceParent value \<longleftrightarrow>
     (let parts = split_on CHR ''-'' value in
      if length parts < 4 \<or> length (parts ! 0) \<noteq> 2 \<or> length (parts ! 1) \<noteq> 32
         \<or> length (parts ! 2) \<noteq> 16 \<or> length (parts ! 3) \<noteq> 2 then False
      else if list_ex (\<lambda>part. part = '''' \<or> \<not> lowerHex part) parts then False
      else if parts ! 0 = ''ff'' \<or> allZero (parts ! 1) \<or> allZero (parts ! 2) then False
      else if parts ! 0 = ''00'' \<and> length parts \<noteq> 4 then False
      else True)"

definition validTraceStateKeyPart :: "bytes \<Rightarrow> bool" where
  "validTraceStateKeyPart value \<longleftrightarrow>
     list_all (\<lambda>r. lower_alnum_rune r \<or> r = byte CHR ''_'' \<or> r = byte CHR ''-''
       \<or> r = byte CHR ''*'' \<or> r = byte CHR ''/'') (runes value)"

definition validTraceStateKey :: "bytes \<Rightarrow> bool" where
  "validTraceStateKey value \<longleftrightarrow>
     (if value = '''' \<or> length value > 256 then False
      else if CHR ''@'' \<notin> set value
      then length value \<le> 256 \<and> is_lower (hd value) \<and> validTraceStateKeyPart value
      else
        let (tenant, system, _) = cut CHR ''@'' value in
        if length tenant = 0 \<or> length tenant > 241 \<or> length system = 0 \<or> length system > 14 then False
        else if (\<not> is_lower (hd tenant) \<and> \<not> is_digit (hd tenant)) \<or> \<not> is_lower (hd system) then False
        else validTraceStateKeyPart tenant \<and> validTraceStateKeyPart system)"

definition validTraceStateValue :: "bytes \<Rightarrow> bool" where
  "validTraceStateValue value \<longleftrightarrow>
     \<not> (value = '''' \<or> length value > 256 \<or> last value = CHR '' '') \<and>
     list_all (\<lambda>c. \<not> (byte c < 0x20 \<or> byte c > 0x7e \<or> c = CHR '','' \<or> c = CHR ''='')) value"

definition tab :: char where
  "tab = CHR 0x09"

text \<open>The loop over the members, with the set of keys already seen.\<close>

fun traceStateMembers :: "bytes list \<Rightarrow> bytes list \<Rightarrow> bool" where
  "traceStateMembers seen [] \<longleftrightarrow> True"
| "traceStateMembers seen (member # members) \<longleftrightarrow>
     (let (key, stateValue, present) = cut CHR ''='' (trim_set {CHR '' '', tab} member) in
      if \<not> present \<or> \<not> validTraceStateKey key \<or> \<not> validTraceStateValue stateValue then False
      else if key \<in> set seen then False
      else traceStateMembers (key # seen) members)"

definition validTraceState :: "bytes \<Rightarrow> bool" where
  "validTraceState value \<longleftrightarrow>
     (if value = '''' \<or> length value > 512 then False
      else if hd value = CHR '' '' \<or> hd value = tab \<or> last value = CHR '' '' \<or> last value = tab
      then False
      else let members = split_on CHR '','' value in
           if length members > 32 then False else traceStateMembers [] members)"

definition NewTraceParentAttribute :: "bytes \<Rightarrow> Attribute result" where
  "NewTraceParentAttribute value =
     (if \<not> validTraceParent value then Inl (Sentinel ErrInvalidAttribute)
      else NewStringAttribute value)"

definition NewTraceStateAttribute :: "bytes \<Rightarrow> Attribute result" where
  "NewTraceStateAttribute value =
     (if \<not> validTraceState value then Inl (Sentinel ErrInvalidAttribute)
      else NewStringAttribute value)"

definition NewPartitionKeyAttribute :: "bytes \<Rightarrow> Attribute result" where
  "NewPartitionKeyAttribute value =
     (if value = '''' then Inl (Sentinel ErrInvalidAttribute) else NewStringAttribute value)"

lemmas attribute_defs [eval_defs] =
  NewStringAttribute_def NewBooleanAttribute_def NewIntegerAttribute_def NewBinaryAttribute_def
  NewURIAttribute_def NewURIReferenceAttribute_def NewTimestampAttribute_def format_bool_def
  Attribute_Kind_def Attribute_String_def Attribute_Bytes_def append_nil_def

section \<open>Constructed attributes are valid\<close>

lemma validAttributeName_iff:
  "validAttributeName name \<longleftrightarrow> name \<noteq> [] \<and> list_all lower_alnum name"
  unfolding validAttributeName_def
  by (subst runes_list_all_byte) (auto simp: lower_alnum_rune_def lower_alnum_def is_lower_def is_digit_def list_all_iff)

lemma validCloudString_printable: "printable s \<Longrightarrow> validCloudString s"
  using printable_ascii [of s]
  by (auto simp: validCloudString_def printable_def valid_utf8_is_ascii runes_is_ascii list_all_iff)

lemma validCloudString_utf8: "validCloudString s \<Longrightarrow> valid_utf8 s"
  by (simp add: validCloudString_def)

lemma validCloudString_append:
  assumes "validCloudString s" "validCloudString t"
  shows "validCloudString (s @ t)"
  using assms by (simp add: validCloudString_def valid_utf8_append runes_append)

lemma NewStringAttribute_Inr:
  "NewStringAttribute v = Inr a \<longleftrightarrow>
     validCloudString v \<and> a = \<lparr>attr_kind = AttributeString, attr_text = v, attr_bytes = []\<rparr>"
  by (auto simp: NewStringAttribute_def)

lemma NewStringAttribute_valid:
  "NewStringAttribute v = Inr a \<Longrightarrow> validAttribute a"
  by (auto simp: NewStringAttribute_Inr validAttribute_def)

lemma NewBooleanAttribute_valid: "validAttribute (NewBooleanAttribute b)"
  by (simp add: NewBooleanAttribute_def validAttribute_def format_bool_def)

lemma NewIntegerAttribute_valid:
  "NewIntegerAttribute i = Inr a \<Longrightarrow> validAttribute a \<and> parse_int 32 (attr_text a) = Some i"
  by (auto simp: NewIntegerAttribute_def validAttribute_def int32_text.dec_enc split: if_splits)

lemma NewBinaryAttribute_valid: "validAttribute (NewBinaryAttribute b)"
  by (simp add: NewBinaryAttribute_def validAttribute_def base64.dec_enc)

lemma NewTimestampAttribute_valid:
  assumes "nsec t < 10 ^ 9"
  shows "validAttribute (NewTimestampAttribute t) \<longleftrightarrow> in_year_range t"
  using assms by (simp add: NewTimestampAttribute_def validAttribute_def time_parse_format_utc)

text \<open>The attributes the package can produce: every value a constructor returns, timestamps of any year included.\<close>

inductive constructed :: "Attribute \<Rightarrow> bool" where
  "NewStringAttribute v = Inr a \<Longrightarrow> constructed a"
| "constructed (NewBooleanAttribute b)"
| "NewIntegerAttribute i = Inr a \<Longrightarrow> constructed a"
| "constructed (NewBinaryAttribute d)"
| "NewURIAttribute v = Inr a \<Longrightarrow> constructed a"
| "NewURIReferenceAttribute v = Inr a \<Longrightarrow> constructed a"
| "nsec t < 10 ^ 9 \<Longrightarrow> constructed (NewTimestampAttribute t)"
| "NewTraceParentAttribute v = Inr a \<Longrightarrow> constructed a"
| "NewTraceStateAttribute v = Inr a \<Longrightarrow> constructed a"
| "NewPartitionKeyAttribute v = Inr a \<Longrightarrow> constructed a"

definition plain_bytes :: "Attribute \<Rightarrow> bool" where
  "plain_bytes a \<longleftrightarrow> (if attr_kind a = AttributeBinary
     then list_all (\<lambda>c. \<not> line_break c) (attr_text a) else attr_bytes a = [])"

lemma NewURIAttribute_valid: "NewURIAttribute v = Inr a \<Longrightarrow> validAttribute a"
  by (auto simp: NewURIAttribute_def validAttribute_def split: if_splits)

lemma NewURIReferenceAttribute_valid: "NewURIReferenceAttribute v = Inr a \<Longrightarrow> validAttribute a"
  by (auto simp: NewURIReferenceAttribute_def validAttribute_def split: if_splits)

lemma selected_constructors:
  "NewTraceParentAttribute v = Inr a \<Longrightarrow> NewStringAttribute v = Inr a"
  "NewTraceStateAttribute v = Inr a \<Longrightarrow> NewStringAttribute v = Inr a"
  "NewPartitionKeyAttribute v = Inr a \<Longrightarrow> NewStringAttribute v = Inr a"
  by (auto simp: NewTraceParentAttribute_def NewTraceStateAttribute_def NewPartitionKeyAttribute_def split: if_splits)

lemmas constructor_valid = NewStringAttribute_valid NewBooleanAttribute_valid
  NewIntegerAttribute_valid NewBinaryAttribute_valid NewURIAttribute_valid
  NewURIReferenceAttribute_valid NewTimestampAttribute_valid
  NewStringAttribute_valid [OF selected_constructors(1)] NewStringAttribute_valid [OF selected_constructors(2)]
  NewStringAttribute_valid [OF selected_constructors(3)]

lemma constructed_valid:
  assumes "constructed a" and "\<And>t. nsec t < 10 ^ 9 \<Longrightarrow> a = NewTimestampAttribute t \<Longrightarrow> in_year_range t"
  shows "validAttribute a"
  using assms by cases (auto simp: constructor_valid)

lemma valid_timestamp_year:
  "validAttribute a \<Longrightarrow> nsec t < 10 ^ 9 \<Longrightarrow> a = NewTimestampAttribute t \<Longrightarrow> in_year_range t"
  by (simp add: NewTimestampAttribute_valid)

lemma constructed_plain: "constructed a \<Longrightarrow> plain_bytes a"
  by (induction rule: constructed.induct)
    (auto simp: plain_bytes_def attribute_defs b64_encode_line_break dest!: selected_constructors split: if_splits)

lemma plain_valid_constructed:
  assumes v: "validAttribute a" and p: "plain_bytes a"
  shows "constructed a"
proof (cases "attr_kind a")
  case AttributeString
  then have "NewStringAttribute (attr_text a) = Inr a"
    using v p by (simp add: validAttribute_def plain_bytes_def NewStringAttribute_def)
  then show ?thesis by (rule constructed.intros)
next
  case AttributeBoolean
  then have "a = NewBooleanAttribute (attr_text a = ''true'')"
    using v p by (auto simp: validAttribute_def plain_bytes_def NewBooleanAttribute_def format_bool_def)
  then show ?thesis by (metis constructed.intros(2))
next
  case AttributeInteger
  then obtain i where "parse_int 32 (attr_text a) = Some i" "format_int i = attr_text a"
    using v by (auto simp: validAttribute_def split: option.splits)
  then have "NewIntegerAttribute i = Inr a"
    using p AttributeInteger parse_int_range [of "attr_text a" i]
    by (auto simp: plain_bytes_def NewIntegerAttribute_def)
  then show ?thesis by (rule constructed.intros)
next
  case AttributeBinary
  then have "b64_decode_strict (attr_text a) = Some (attr_bytes a)"
    and "list_all (\<lambda>c. \<not> line_break c) (attr_text a)"
    using v p by (auto simp: validAttribute_def plain_bytes_def split: option.splits)
  then have "b64_encode (attr_bytes a) = attr_text a" by (intro base64.enc_dec)
  then have "a = NewBinaryAttribute (attr_bytes a)"
    using AttributeBinary by (simp add: NewBinaryAttribute_def)
  then show ?thesis by (metis constructed.intros(4))
next
  case AttributeURI
  then have "NewURIAttribute (attr_text a) = Inr a"
    using v p by (simp add: validAttribute_def plain_bytes_def NewURIAttribute_def)
  then show ?thesis by (rule constructed.intros)
next
  case AttributeURIReference
  then have "NewURIReferenceAttribute (attr_text a) = Inr a"
    using v p by (simp add: validAttribute_def plain_bytes_def NewURIReferenceAttribute_def)
  then show ?thesis by (rule constructed.intros)
next
  case AttributeTimestamp
  then obtain t where t: "time_parse (attr_text a) = Some t" "time_format (time_utc t) = attr_text a"
    using v by (auto simp: validAttribute_def split: option.splits)
  then have "a = NewTimestampAttribute t"
    using p AttributeTimestamp by (simp add: plain_bytes_def NewTimestampAttribute_def)
  moreover have "in_year_range t"
    using t time_parse_format_utc [OF time_parse_nsec [OF t(1)]] by (auto split: if_splits)
  ultimately show ?thesis by (metis constructed.intros(7) time_parse_nsec t(1))
qed (use v in \<open>simp add: validAttribute_def\<close>)

lemmas attribute_eval [eval_defs] =
  validCloudString_def validURIReference_def validAbsoluteURI_def lower_alnum_rune_def
  validAttributeName_def validAttribute_def lowerHex_def allZero_def validTraceParent_def
  validTraceStateKeyPart_def validTraceStateKey_def validTraceStateValue_def tab_def
  validTraceState_def NewTraceParentAttribute_def NewTraceStateAttribute_def
  NewPartitionKeyAttribute_def

section \<open>Properties\<close>

text \<open>
  C39. The constructors and the validator agree on every attribute, with one documented exception: a value returned by
  a constructor is valid unless it is a timestamp whose UTC year is outside 0 to 9999, and every valid attribute whose
  Go value carries bytes only for the binary kind, and no line break in the base64 text, is returned by a constructor.
\<close>

theorem attribute_constructors_exact:
  "(constructed a \<longrightarrow> (validAttribute a \<longleftrightarrow>
      \<not> (\<exists>t. nsec t < 10 ^ 9 \<and> a = NewTimestampAttribute t
          \<and> fst (civil_from_days (unix_sec t div 86400)) \<notin> {0..9999})))
   \<and> (validAttribute a \<longrightarrow> (constructed a \<longleftrightarrow>
      (if attr_kind a = AttributeBinary then CHR 0x0A \<notin> set (attr_text a) \<and> CHR 0x0D \<notin> set (attr_text a)
       else attr_bytes a = [])))"
proof -
  have y: "fst (civil_from_days (unix_sec t div 86400)) \<notin> {0..9999} \<longleftrightarrow> \<not> in_year_range t" for t
    by (simp add: in_year_range_def Let_def)
  have p: "plain_bytes a \<longleftrightarrow> (if attr_kind a = AttributeBinary
      then CHR 0x0A \<notin> set (attr_text a) \<and> CHR 0x0D \<notin> set (attr_text a) else attr_bytes a = [])"
    by (auto simp: plain_bytes_def line_break_def list_all_iff)
  show ?thesis unfolding y p [symmetric]
    using constructed_valid valid_timestamp_year constructed_plain plain_valid_constructed by blast
qed

text \<open>
  A timestamp attribute is accepted by the validator exactly when the year of its UTC time is between
  0 and 9999, for every normalised Go time: the constructor has no error, the validator rejects the rest.
\<close>

theorem timestamp_valid_iff_year:
  assumes "nsec t < 10 ^ 9"
  shows "validAttribute (NewTimestampAttribute t) \<longleftrightarrow> in_year_range t"
  using assms by (rule NewTimestampAttribute_valid)

definition year_10000 :: gotime where
  "year_10000 = \<lparr>unix_sec = 253402300800, nsec = 0, zone_offset = 0\<rparr>"

lemma year_10000_outside: "\<not> in_year_range year_10000"
  by code_simp

theorem timestamp_valid_iff_year_witness:
  "nsec year_10000 < 10 ^ 9 \<and> \<not> validAttribute (NewTimestampAttribute year_10000)"
proof -
  have n: "nsec year_10000 < 10 ^ 9" by (simp add: year_10000_def)
  then show ?thesis using timestamp_valid_iff_year [OF n] year_10000_outside by simp
qed

theorem attribute_constructors_exact_witness:
  "constructed (NewTimestampAttribute year_10000) \<and> \<not> validAttribute (NewTimestampAttribute year_10000)
   \<and> constructed (NewTimestampAttribute (year_10000\<lparr>unix_sec := 253402300799\<rparr>))
   \<and> validAttribute (NewTimestampAttribute (year_10000\<lparr>unix_sec := 253402300799\<rparr>))"
proof -
  let ?last = "year_10000\<lparr>unix_sec := 253402300799\<rparr>"
  have n: "nsec year_10000 < 10 ^ 9" "nsec ?last < 10 ^ 9" by (simp_all add: year_10000_def)
  have c: "constructed (NewTimestampAttribute year_10000)" "constructed (NewTimestampAttribute ?last)"
    by (rule constructed.intros(7) [OF n(1)], rule constructed.intros(7) [OF n(2)])
  have y: "fst (civil_from_days (unix_sec year_10000 div 86400)) \<notin> {0..9999}"
    using year_10000_outside by (simp add: in_year_range_def Let_def)
  have "in_year_range ?last" by code_simp
  then have "validAttribute (NewTimestampAttribute ?last)"
    using n(2) by (simp add: NewTimestampAttribute_valid)
  moreover have "\<not> validAttribute (NewTimestampAttribute year_10000)"
    using attribute_constructors_exact [of "NewTimestampAttribute year_10000"] c(1) n(1) y by blast
  ultimately show ?thesis using c by simp
qed

end
