(* ===== verification/Go_Mime.thy ===== *)
theory Go_Mime
  imports Go_Strings
begin

text \<open>
  Go's \<open>mime.ParseMediaType\<close>: the media type, lower-cased and checked to be a token or two tokens
  around a slash, then the parameters, which must parse and may repeat only with an equal value.
  The code uses the media type and the presence of an error, so the parameters are parsed and then
  dropped; the stitching of parameter continuations cannot fail and is left out. The loop over the
  parameters consumes at least the semicolon of each, so it is a recursion on the length of the rest.
\<close>

definition token_char :: "char \<Rightarrow> bool" where
  "token_char c \<longleftrightarrow> 33 \<le> byte c \<and> byte c \<le> 126 \<and> c \<notin> set ''()<>@,;:/[]?='' \<and> byte c \<noteq> 34 \<and> byte c \<noteq> 92"

definition tspecial :: "char \<Rightarrow> bool" where
  "tspecial c \<longleftrightarrow> c \<in> set ''()<>@,;:/[]?='' \<or> byte c = 34 \<or> byte c = 92"

definition consume_token :: "bytes \<Rightarrow> bytes \<times> bytes" where
  "consume_token s = (takeWhile token_char s, dropWhile token_char s)"

text \<open>\<open>checkMediaTypeDisposition\<close>, as the absence of an error.\<close>

definition media_type_ok :: "bytes \<Rightarrow> bool" where
  "media_type_ok s =
     (let (typ, rest) = consume_token s in
      if typ = [] then False
      else if rest = [] then True
      else if \<not> has_prefix rest ''/'' then False
      else (let (subtype, rest') = consume_token (tl rest) in subtype \<noteq> [] \<and> rest' = []))"

fun quoted_value :: "bytes \<Rightarrow> bytes \<Rightarrow> (bytes \<times> bytes) option" where
  "quoted_value acc [] = None"
| "quoted_value acc (c # cs) =
     (if byte c = 34 then Some (acc, cs)
      else if byte c = 92 \<and> cs \<noteq> [] \<and> tspecial (hd cs) then quoted_value (acc @ [hd cs]) (tl cs)
      else if c = CHR 0x0D \<or> c = CHR 0x0A then None
      else quoted_value (acc @ [c]) cs)"

definition consume_value :: "bytes \<Rightarrow> bytes \<times> bytes" where
  "consume_value s =
     (case s of
        [] \<Rightarrow> ([], [])
      | c # cs \<Rightarrow>
          if byte c \<noteq> 34 then consume_token s
          else (case quoted_value [] cs of None \<Rightarrow> ([], s) | Some p \<Rightarrow> p))"

text \<open>\<open>consumeMediaParam\<close>: the name, the value and the rest; an empty name is a failure.\<close>

definition consume_media_param :: "bytes \<Rightarrow> bytes \<times> bytes \<times> bytes" where
  "consume_media_param v =
     (let rest0 = trim_left_space v in
      if \<not> has_prefix rest0 '';'' then ([], [], v)
      else (let (param0, rest1) = consume_token (trim_left_space (tl rest0));
                param = to_lower param0; rest2 = trim_left_space rest1 in
        if param = [] then ([], [], v)
        else if \<not> has_prefix rest2 ''='' then ([], [], v)
        else (let rest3 = trim_left_space (tl rest2); (val, rest4) = consume_value rest3 in
          if val = [] \<and> rest4 = rest3 then ([], [], v) else (param, val, rest4))))"

text \<open>
  The loop over the parameters with the map of those seen: it ends well, on a parameter that does not parse, or on
  a second value for a parameter. Names with a star are kept in a map per
  base name in Go; the pair of base name and name identifies an entry, so one map suffices.
\<close>

datatype media_outcome = ParamsParsed | InvalidParameter | DuplicateParameter

function media_params :: "(bytes, bytes) gomap \<Rightarrow> bytes \<Rightarrow> media_outcome" where
  "media_params seen v =
     (let v' = trim_left_space v in
      if v' = [] then ParamsParsed
      else (let (key, val, rest) = consume_media_param v' in
        if key = [] then (if trim_space rest = '';'' then ParamsParsed else InvalidParameter)
        else if (case map_of seen key of None \<Rightarrow> False | Some old \<Rightarrow> old \<noteq> val) then DuplicateParameter
        else if length rest < length v then media_params (AList.update key val seen) rest
        else InvalidParameter))"
  by pat_completeness auto
termination
  by (relation "measure (\<lambda>(seen, v). length v)") auto

declare media_params.simps [simp del]

text \<open>
  The media type, and whether there was no error. The media type is kept when a parameter does not parse, and empty
  after the other errors.
\<close>

definition parse_media_type :: "bytes \<Rightarrow> bytes \<times> bool" where
  "parse_media_type v =
     (let base = fst (cut CHR '';'' v); mediatype = trim_space (to_lower base) in
      if \<not> media_type_ok mediatype then ([], False)
      else (case media_params [] (drop (length base) v) of
          ParamsParsed \<Rightarrow> (mediatype, True)
        | InvalidParameter \<Rightarrow> (mediatype, False)
        | DuplicateParameter \<Rightarrow> ([], False)))"

section \<open>The guard of the parameter loop never fires\<close>

lemma length_trim_left_space: "length (trim_left_space s) \<le> length s"
proof -
  let ?d = "dropWhile (\<lambda>p. unicode_space (fst p)) (rune_chunks s)"
  have "rune_chunks s = takeWhile (\<lambda>p. unicode_space (fst p)) (rune_chunks s) @ ?d" by simp
  then have "concat (map snd (rune_chunks s))
      = concat (map snd (takeWhile (\<lambda>p. unicode_space (fst p)) (rune_chunks s))) @ trim_left_space s"
    unfolding trim_left_space_def by (metis concat_append map_append)
  then show ?thesis by (metis rune_chunks_concat length_append le_add2)
qed

lemma length_consume_token: "consume_token s = (t, r) \<Longrightarrow> length r \<le> length s"
  by (auto simp: consume_token_def length_dropWhile_le)

lemma length_quoted_value: "quoted_value acc s = Some (v, r) \<Longrightarrow> length r \<le> length s"
proof (induction acc s rule: quoted_value.induct)
  case (2 acc c cs)
  then show ?case by (auto split: if_splits)
qed simp

lemma length_consume_value: "consume_value s = (v, r) \<Longrightarrow> length r \<le> length s"
  using length_quoted_value
  by (fastforce simp: consume_value_def dest: length_consume_token split: list.splits if_splits option.splits)

lemma length_consume_media_param:
  assumes "consume_media_param v = (key, val, rest)" and "key \<noteq> []"
  shows "length rest < length v"
proof -
  obtain p r1 where p: "consume_token (trim_left_space (tl (trim_left_space v))) = (p, r1)"
    by fastforce
  obtain w r4 where w: "consume_value (trim_left_space (tl (trim_left_space r1))) = (w, r4)"
    by fastforce
  have h: "has_prefix (trim_left_space v) '';''"
    and rest: "rest = r4"
    using assms p w
    by (auto simp: consume_media_param_def Let_def split: if_splits)
  have "length r4 \<le> length (trim_left_space (tl (trim_left_space r1)))"
    using length_consume_value [OF w] .
  also have "\<dots> \<le> length r1"
    using length_trim_left_space [of "tl (trim_left_space r1)"] length_trim_left_space [of r1] by simp
  also have "\<dots> \<le> length (tl (trim_left_space v))"
    using length_consume_token [OF p] length_trim_left_space [of "tl (trim_left_space v)"] by simp
  also have "\<dots> < length v"
    using h length_trim_left_space [of v] by (cases "trim_left_space v") (auto simp: has_prefix_def)
  finally show ?thesis by (simp add: rest)
qed

lemma media_params_unfold:
  "media_params seen v =
     (let v' = trim_left_space v in
      if v' = [] then ParamsParsed
      else (let (key, val, rest) = consume_media_param v' in
        if key = [] then (if trim_space rest = '';'' then ParamsParsed else InvalidParameter)
        else if (case map_of seen key of None \<Rightarrow> False | Some old \<Rightarrow> old \<noteq> val) then DuplicateParameter
        else media_params (AList.update key val seen) rest))"
proof -
  have "length rest < length v"
    if "consume_media_param (trim_left_space v) = (key, val, rest)" "key \<noteq> []" for key val rest
    using length_consume_media_param [OF that] length_trim_left_space [of v] by linarith
  then show ?thesis
    by (subst media_params.simps) (auto simp: Let_def split: prod.splits option.splits)
qed

lemmas mime_eval [eval_defs] =
  token_char_def tspecial_def consume_token_def media_type_ok_def consume_value_def
  consume_media_param_def parse_media_type_def media_params_unfold

end
