(* ===== verification/CE_Validation.thy ===== *)
theory CE_Validation
  imports CE_Attribute Go_Mime
begin

text \<open>
  \<open>validation.go\<close>: the context attributes of an event and their validation. The extensions are a Go
  map, so the loop over them runs in an unspecified order; the issues are sorted afterwards, and the
  theory shows that the error is the same for every order, and that it lists exactly the violations of the
  rules, which the relations \<open>violation\<close> and \<open>selected_violation\<close> state over the fields alone.
\<close>

record Attributes =
  a_ID :: bytes
  a_Source :: bytes
  a_Type :: bytes
  a_DataContentType :: bytes
  a_DataSchema :: bytes
  a_Subject :: bytes
  a_Time :: "gotime option"
  a_Extensions :: "(bytes, Attribute) gomap"

definition reservedAttributeNames :: "bytes list" where
  "reservedAttributeNames =
     [''data'', ''data_base64'', ''datacontenttype'', ''dataschema'', ''id'', ''source'',
      ''specversion'', ''subject'', ''time'', ''type'']"

definition isReservedAttributeName :: "bytes \<Rightarrow> bool" where
  "isReservedAttributeName name \<longleftrightarrow> name \<in> set reservedAttributeNames"

definition ext_field :: "bytes \<Rightarrow> bytes" where
  "ext_field name = ''extensions.'' @ name"

definition standardIssues :: "Attributes \<Rightarrow> issue list" where
  "standardIssues a =
     (if a_ID a = '''' then [Issue ''id'' IssueRequired]
      else if \<not> validCloudString (a_ID a) then [Issue ''id'' IssueInvalidString] else []) @
     (if a_Source a = '''' then [Issue ''source'' IssueRequired]
      else if \<not> validCloudString (a_Source a) \<or> \<not> validURIReference (a_Source a)
      then [Issue ''source'' IssueInvalidURIReference] else []) @
     (if a_Type a = '''' then [Issue ''type'' IssueRequired]
      else if \<not> validCloudString (a_Type a) then [Issue ''type'' IssueInvalidString] else []) @
     (if a_DataContentType a \<noteq> '''' \<and> \<not> snd (parse_media_type (a_DataContentType a))
      then [Issue ''datacontenttype'' IssueInvalidMediaType] else []) @
     (if a_DataSchema a \<noteq> '''' \<and> \<not> validAbsoluteURI (a_DataSchema a)
      then [Issue ''dataschema'' IssueAbsoluteURIRequired] else []) @
     (if a_Subject a \<noteq> '''' \<and> \<not> validCloudString (a_Subject a)
      then [Issue ''subject'' IssueInvalidString] else [])"

text \<open>One iteration of the loop over the extensions.\<close>

definition extensionIssues :: "bytes \<times> Attribute \<Rightarrow> issue list" where
  "extensionIssues p =
     (case p of (name, attribute) \<Rightarrow>
        if \<not> validAttributeName name then [Issue (ext_field name) IssueInvalidName]
        else if isReservedAttributeName name then [Issue (ext_field name) IssueReservedName]
        else if \<not> validAttribute attribute then [Issue (ext_field name) IssueInvalidAttribute]
        else [])"

definition selectedIssues :: "(bytes, Attribute) gomap \<Rightarrow> issue list" where
  "selectedIssues exts =
     (case map_of exts ''traceparent'' of
        None \<Rightarrow> []
      | Some traceParent \<Rightarrow>
          if attr_kind traceParent \<noteq> AttributeString \<or> \<not> validTraceParent (attr_text traceParent)
          then [Issue ''extensions.traceparent'' IssueInvalidAttribute] else []) @
     (case map_of exts ''tracestate'' of
        None \<Rightarrow> []
      | Some traceState \<Rightarrow>
          (if attr_kind traceState \<noteq> AttributeString \<or> \<not> validTraceState (attr_text traceState)
           then [Issue ''extensions.tracestate'' IssueInvalidAttribute] else []) @
          (if map_of exts ''traceparent'' = None
           then [Issue ''extensions.traceparent'' IssueRequired] else [])) @
     (case map_of exts ''partitionkey'' of
        None \<Rightarrow> []
      | Some partitionKey \<Rightarrow>
          if attr_kind partitionKey \<noteq> AttributeString \<or> attr_text partitionKey = ''''
          then [Issue ''extensions.partitionkey'' IssueInvalidAttribute] else [])"

definition attributeIssues :: "Attributes \<Rightarrow> issue list" where
  "attributeIssues a =
     standardIssues a @ concat (map extensionIssues (a_Extensions a)) @ selectedIssues (a_Extensions a)"

definition validateAttributes :: "Attributes \<Rightarrow> unit result" where
  "validateAttributes a =
     (let issues = attributeIssues a in
      if issues = [] then Inr () else Inl (ValidationError (sort issues)))"

section \<open>What a valid context is\<close>

definition valid_extension :: "bytes \<times> Attribute \<Rightarrow> bool" where
  "valid_extension p \<longleftrightarrow> validAttributeName (fst p) \<and> \<not> isReservedAttributeName (fst p)
     \<and> validAttribute (snd p)"

definition selected_ok :: "(bytes, Attribute) gomap \<Rightarrow> bool" where
  "selected_ok exts \<longleftrightarrow>
     (\<forall>a. map_of exts ''traceparent'' = Some a \<longrightarrow>
        attr_kind a = AttributeString \<and> validTraceParent (attr_text a)) \<and>
     (\<forall>a. map_of exts ''tracestate'' = Some a \<longrightarrow>
        attr_kind a = AttributeString \<and> validTraceState (attr_text a)
          \<and> map_of exts ''traceparent'' \<noteq> None) \<and>
     (\<forall>a. map_of exts ''partitionkey'' = Some a \<longrightarrow>
        attr_kind a = AttributeString \<and> attr_text a \<noteq> '''')"

definition valid_context :: "Attributes \<Rightarrow> bool" where
  "valid_context a \<longleftrightarrow>
     a_ID a \<noteq> '''' \<and> validCloudString (a_ID a) \<and>
     a_Source a \<noteq> '''' \<and> validCloudString (a_Source a) \<and> validURIReference (a_Source a) \<and>
     a_Type a \<noteq> '''' \<and> validCloudString (a_Type a) \<and>
     (a_DataContentType a \<noteq> '''' \<longrightarrow> snd (parse_media_type (a_DataContentType a))) \<and>
     (a_DataSchema a \<noteq> '''' \<longrightarrow> validAbsoluteURI (a_DataSchema a)) \<and>
     (a_Subject a \<noteq> '''' \<longrightarrow> validCloudString (a_Subject a)) \<and>
     list_all valid_extension (a_Extensions a) \<and> selected_ok (a_Extensions a)"

lemma if_single_Nil: "(if c then [x] else []) = [] \<longleftrightarrow> \<not> c"
  by simp

lemma if_else_single_Nil: "(if c then [x] else if d then [y] else []) = [] \<longleftrightarrow> \<not> c \<and> \<not> d"
  by simp

lemma standardIssues_Nil:
  "standardIssues a = [] \<longleftrightarrow>
     a_ID a \<noteq> '''' \<and> validCloudString (a_ID a) \<and>
     a_Source a \<noteq> '''' \<and> validCloudString (a_Source a) \<and> validURIReference (a_Source a) \<and>
     a_Type a \<noteq> '''' \<and> validCloudString (a_Type a) \<and>
     (a_DataContentType a \<noteq> '''' \<longrightarrow> snd (parse_media_type (a_DataContentType a))) \<and>
     (a_DataSchema a \<noteq> '''' \<longrightarrow> validAbsoluteURI (a_DataSchema a)) \<and>
     (a_Subject a \<noteq> '''' \<longrightarrow> validCloudString (a_Subject a))"
  unfolding standardIssues_def append_is_Nil_conv if_single_Nil if_else_single_Nil by blast

lemma extensionIssues_Nil: "extensionIssues p = [] \<longleftrightarrow> valid_extension p"
  by (simp add: extensionIssues_def valid_extension_def split: prod.split)

lemma selectedIssues_Nil: "selectedIssues exts = [] \<longleftrightarrow> selected_ok exts"
  by (auto simp: selectedIssues_def selected_ok_def split: option.split)

lemma attributeIssues_Nil: "attributeIssues a = [] \<longleftrightarrow> valid_context a"
  by (simp add: attributeIssues_def valid_context_def standardIssues_Nil extensionIssues_Nil
      selectedIssues_Nil list_all_iff)

lemma validateAttributes_Inr: "validateAttributes a = Inr u \<longleftrightarrow> valid_context a"
  by (simp add: validateAttributes_def Let_def attributeIssues_Nil)

lemma validateAttributes_Inl:
  "validateAttributes a = Inl e \<longleftrightarrow>
     \<not> valid_context a \<and> e = ValidationError (sort (attributeIssues a))"
  by (auto simp: validateAttributes_def Let_def attributeIssues_Nil)

section \<open>The order of the map does not matter\<close>

lemma selectedIssues_same_map: "same_map m n \<Longrightarrow> selectedIssues m = selectedIssues n"
  unfolding selectedIssues_def same_map_def by (rule arg_cong [of "map_of m" "map_of n"])

lemma mset_concat_map: "mset xs = mset ys \<Longrightarrow> mset (concat (map f xs)) = mset (concat (map f ys))"
  by (simp only: mset_concat map_map mset_map sum_mset_sum_list [symmetric] o_def)

lemma attributeIssues_perm:
  assumes "wf_map (a_Extensions a)" and "mset exts = mset (a_Extensions a)"
  shows "mset (attributeIssues (a\<lparr>a_Extensions := exts\<rparr>)) = mset (attributeIssues a)"
proof -
  have "wf_map exts" using wf_map_mset assms by metis
  then have "same_map exts (a_Extensions a)" using assms same_map_mset_eq by blast
  then have "selectedIssues exts = selectedIssues (a_Extensions a)" by (rule selectedIssues_same_map)
  moreover have "standardIssues (a\<lparr>a_Extensions := exts\<rparr>) = standardIssues a"
    by (simp add: standardIssues_def)
  ultimately show ?thesis
    using mset_concat_map [OF assms(2), of extensionIssues] by (simp add: attributeIssues_def)
qed

lemma validateAttributes_perm:
  assumes "wf_map (a_Extensions a)" and "mset exts = mset (a_Extensions a)"
  shows "validateAttributes (a\<lparr>a_Extensions := exts\<rparr>) = validateAttributes a"
proof -
  note m = attributeIssues_perm [OF assms]
  have "attributeIssues (a\<lparr>a_Extensions := exts\<rparr>) = [] \<longleftrightarrow> attributeIssues a = []"
    using m by (metis mset_zero_iff)
  then show ?thesis using sort_mset_cong [OF m] by (simp add: validateAttributes_def Let_def)
qed

lemma valid_context_fields:
  assumes "valid_context a"
  shows "validCloudString (a_ID a)" "validCloudString (a_Source a)" "validCloudString (a_Type a)"
    "validCloudString (a_Subject a)"
  using assms validCloudString_printable [of "[]"]
  by (cases "a_Subject a = []"; simp add: valid_context_def printable_def)+

lemma reserved_names [simp]:
  "isReservedAttributeName ''data''" "isReservedAttributeName ''data_base64''"
  "isReservedAttributeName ''datacontenttype''" "isReservedAttributeName ''dataschema''"
  "isReservedAttributeName ''id''" "isReservedAttributeName ''source''"
  "isReservedAttributeName ''specversion''" "isReservedAttributeName ''subject''"
  "isReservedAttributeName ''time''" "isReservedAttributeName ''type''"
  by (simp_all add: isReservedAttributeName_def reservedAttributeNames_def)

section \<open>The violations of a context\<close>

text \<open>
  The rules of the specification, one for each diagnostic: which defect of a context calls for which issue. They
  are stated over the fields alone, without the lists that the code builds.
\<close>

inductive violation :: "Attributes \<Rightarrow> issue \<Rightarrow> bool" for a where
  id_missing: "a_ID a = '''' \<Longrightarrow> violation a (Issue ''id'' IssueRequired)"
| id_invalid: "a_ID a \<noteq> '''' \<Longrightarrow> \<not> validCloudString (a_ID a) \<Longrightarrow> violation a (Issue ''id'' IssueInvalidString)"
| source_missing: "a_Source a = '''' \<Longrightarrow> violation a (Issue ''source'' IssueRequired)"
| source_invalid: "a_Source a \<noteq> '''' \<Longrightarrow> \<not> (validCloudString (a_Source a) \<and> validURIReference (a_Source a))
    \<Longrightarrow> violation a (Issue ''source'' IssueInvalidURIReference)"
| type_missing: "a_Type a = '''' \<Longrightarrow> violation a (Issue ''type'' IssueRequired)"
| type_invalid: "a_Type a \<noteq> '''' \<Longrightarrow> \<not> validCloudString (a_Type a) \<Longrightarrow> violation a (Issue ''type'' IssueInvalidString)"
| content_type_invalid: "a_DataContentType a \<noteq> '''' \<Longrightarrow> \<not> snd (parse_media_type (a_DataContentType a))
    \<Longrightarrow> violation a (Issue ''datacontenttype'' IssueInvalidMediaType)"
| schema_not_absolute: "a_DataSchema a \<noteq> '''' \<Longrightarrow> \<not> validAbsoluteURI (a_DataSchema a)
    \<Longrightarrow> violation a (Issue ''dataschema'' IssueAbsoluteURIRequired)"
| subject_invalid: "a_Subject a \<noteq> '''' \<Longrightarrow> \<not> validCloudString (a_Subject a)
    \<Longrightarrow> violation a (Issue ''subject'' IssueInvalidString)"
| name_invalid: "map_of (a_Extensions a) n \<noteq> None \<Longrightarrow> \<not> validAttributeName n
    \<Longrightarrow> violation a (Issue (''extensions.'' @ n) IssueInvalidName)"
| name_reserved: "map_of (a_Extensions a) n \<noteq> None
    \<Longrightarrow> n \<in> {''datacontenttype'', ''dataschema'', ''data'', ''id'', ''source'', ''specversion'', ''subject'', ''time'', ''type''}
    \<Longrightarrow> violation a (Issue (''extensions.'' @ n) IssueReservedName)"
| value_invalid: "map_of (a_Extensions a) n = Some x \<Longrightarrow> \<not> validAttribute x \<Longrightarrow> validAttributeName n
    \<Longrightarrow> n \<notin> {''datacontenttype'', ''dataschema'', ''data'', ''id'', ''source'', ''specversion'', ''subject'', ''time'', ''type''}
    \<Longrightarrow> violation a (Issue (''extensions.'' @ n) IssueInvalidAttribute)"

text \<open>
  The registered extensions have rules of their own beside the general one for values, so an extension can
  violate both.
\<close>

inductive selected_violation :: "(bytes, Attribute) gomap \<Rightarrow> issue \<Rightarrow> bool" for exts where
  traceparent_invalid: "map_of exts ''traceparent'' = Some x
    \<Longrightarrow> \<not> (attr_kind x = AttributeString \<and> validTraceParent (attr_text x))
    \<Longrightarrow> selected_violation exts (Issue ''extensions.traceparent'' IssueInvalidAttribute)"
| tracestate_invalid: "map_of exts ''tracestate'' = Some x
    \<Longrightarrow> \<not> (attr_kind x = AttributeString \<and> validTraceState (attr_text x))
    \<Longrightarrow> selected_violation exts (Issue ''extensions.tracestate'' IssueInvalidAttribute)"
| traceparent_missing: "map_of exts ''tracestate'' \<noteq> None \<Longrightarrow> map_of exts ''traceparent'' = None
    \<Longrightarrow> selected_violation exts (Issue ''extensions.traceparent'' IssueRequired)"
| partition_key_invalid: "map_of exts ''partitionkey'' = Some x
    \<Longrightarrow> attr_kind x \<noteq> AttributeString \<or> attr_text x = ''''
    \<Longrightarrow> selected_violation exts (Issue ''extensions.partitionkey'' IssueInvalidAttribute)"

lemma mem_if: "i \<in> set (if c then [x] else []) \<longleftrightarrow> c \<and> i = x"
  by (cases c) simp_all

lemma mem_if_else: "i \<in> set (if c then [x] else if d then [y] else []) \<longleftrightarrow> c \<and> i = x \<or> \<not> c \<and> d \<and> i = y"
  by auto

lemma mem_case: "i \<in> set (case v of None \<Rightarrow> [] | Some x \<Rightarrow> f x) \<longleftrightarrow> (\<exists>x. v = Some x \<and> i \<in> set (f x))"
  by (cases v) auto

lemma standard_violations:
  "i \<in> set (standardIssues a) \<longleftrightarrow>
     a_ID a = '''' \<and> i = Issue ''id'' IssueRequired
     \<or> a_ID a \<noteq> '''' \<and> \<not> validCloudString (a_ID a) \<and> i = Issue ''id'' IssueInvalidString
     \<or> a_Source a = '''' \<and> i = Issue ''source'' IssueRequired
     \<or> a_Source a \<noteq> '''' \<and> (\<not> validCloudString (a_Source a) \<or> \<not> validURIReference (a_Source a))
         \<and> i = Issue ''source'' IssueInvalidURIReference
     \<or> a_Type a = '''' \<and> i = Issue ''type'' IssueRequired
     \<or> a_Type a \<noteq> '''' \<and> \<not> validCloudString (a_Type a) \<and> i = Issue ''type'' IssueInvalidString
     \<or> a_DataContentType a \<noteq> '''' \<and> \<not> snd (parse_media_type (a_DataContentType a))
         \<and> i = Issue ''datacontenttype'' IssueInvalidMediaType
     \<or> a_DataSchema a \<noteq> '''' \<and> \<not> validAbsoluteURI (a_DataSchema a) \<and> i = Issue ''dataschema'' IssueAbsoluteURIRequired
     \<or> a_Subject a \<noteq> '''' \<and> \<not> validCloudString (a_Subject a) \<and> i = Issue ''subject'' IssueInvalidString"
  by (simp only: standardIssues_def set_append Un_iff mem_if mem_if_else disj_assoc conj_assoc)

lemma reserved_valid_names:
  "validAttributeName n \<and> isReservedAttributeName n \<longleftrightarrow>
     n \<in> {''datacontenttype'', ''dataschema'', ''data'', ''id'', ''source'', ''specversion'', ''subject'', ''time'', ''type''}"
proof -
  have "\<not> validAttributeName ''data_base64''" by (simp add: eval_defs)
  moreover have "list_all validAttributeName
      [''datacontenttype'', ''dataschema'', ''data'', ''id'', ''source'', ''specversion'', ''subject'', ''time'', ''type'']"
    by (simp add: eval_defs)
  ultimately show ?thesis by (auto simp: isReservedAttributeName_def reservedAttributeNames_def)
qed

lemma extension_violations:
  assumes "wf_map exts"
  shows "i \<in> set (concat (map extensionIssues exts)) \<longleftrightarrow>
    (\<exists>n x. map_of exts n = Some x \<and>
      (\<not> validAttributeName n \<and> i = Issue (''extensions.'' @ n) IssueInvalidName
       \<or> validAttributeName n \<and> isReservedAttributeName n \<and> i = Issue (''extensions.'' @ n) IssueReservedName
       \<or> validAttributeName n \<and> \<not> isReservedAttributeName n \<and> \<not> validAttribute x
         \<and> i = Issue (''extensions.'' @ n) IssueInvalidAttribute))"
proof -
  have m: "(n, x) \<in> set exts \<longleftrightarrow> map_of exts n = Some x" for n x
    using assms by (simp add: wf_map_def)
  have "i \<in> set (extensionIssues (n, x)) \<longleftrightarrow>
      \<not> validAttributeName n \<and> i = Issue (''extensions.'' @ n) IssueInvalidName
      \<or> validAttributeName n \<and> isReservedAttributeName n \<and> i = Issue (''extensions.'' @ n) IssueReservedName
      \<or> validAttributeName n \<and> \<not> isReservedAttributeName n \<and> \<not> validAttribute x
         \<and> i = Issue (''extensions.'' @ n) IssueInvalidAttribute" for n x
    by (auto simp: extensionIssues_def ext_field_def simp del: append_Cons)
  then show ?thesis unfolding set_concat set_map by (auto simp: m Bex_def simp del: append_Cons)
qed

lemma selected_violations:
  "i \<in> set (selectedIssues exts) \<longleftrightarrow>
     (\<exists>x. map_of exts ''traceparent'' = Some x \<and> (attr_kind x \<noteq> AttributeString \<or> \<not> validTraceParent (attr_text x))
       \<and> i = Issue ''extensions.traceparent'' IssueInvalidAttribute)
     \<or> (\<exists>x. map_of exts ''tracestate'' = Some x \<and>
         ((attr_kind x \<noteq> AttributeString \<or> \<not> validTraceState (attr_text x))
           \<and> i = Issue ''extensions.tracestate'' IssueInvalidAttribute
          \<or> map_of exts ''traceparent'' = None \<and> i = Issue ''extensions.traceparent'' IssueRequired))
     \<or> (\<exists>x. map_of exts ''partitionkey'' = Some x \<and> (attr_kind x \<noteq> AttributeString \<or> attr_text x = '''')
       \<and> i = Issue ''extensions.partitionkey'' IssueInvalidAttribute)"
  by (simp only: selectedIssues_def set_append Un_iff mem_case mem_if disj_assoc conj_assoc)

lemma violation_iff:
  assumes "wf_map (a_Extensions a)"
  shows "violation a i \<longleftrightarrow> i \<in> set (standardIssues a @ concat (map extensionIssues (a_Extensions a)))"
proof
  assume "i \<in> set (standardIssues a @ concat (map extensionIssues (a_Extensions a)))"
  then consider (s) "i \<in> set (standardIssues a)" | (e) "i \<in> set (concat (map extensionIssues (a_Extensions a)))"
    unfolding set_append by blast
  then show "violation a i"
  proof cases
    case s
    then show ?thesis unfolding standard_violations by - (elim disjE conjE; hypsubst; rule violation.intros; simp)
  next
    case e
    then obtain n x where m: "map_of (a_Extensions a) n = Some x" and c:
      "\<not> validAttributeName n \<and> i = Issue (''extensions.'' @ n) IssueInvalidName
       \<or> validAttributeName n \<and> isReservedAttributeName n \<and> i = Issue (''extensions.'' @ n) IssueReservedName
       \<or> validAttributeName n \<and> \<not> isReservedAttributeName n \<and> \<not> validAttribute x
         \<and> i = Issue (''extensions.'' @ n) IssueInvalidAttribute"
      unfolding extension_violations [OF assms] by blast
    from m have p: "map_of (a_Extensions a) n \<noteq> None" by simp
    from c show ?thesis
      by (elim disjE conjE; hypsubst;
          intro violation.name_invalid violation.name_reserved violation.value_invalid [OF m] p;
          simp only: reserved_valid_names [symmetric] simp_thms)
  qed
next
  assume v: "violation a i"
  have m: "i \<in> set (standardIssues a) \<or> i \<in> set (concat (map extensionIssues (a_Extensions a)))
      \<Longrightarrow> i \<in> set (standardIssues a @ concat (map extensionIssues (a_Extensions a)))"
    by (simp only: set_append Un_iff)
  show "i \<in> set (standardIssues a @ concat (map extensionIssues (a_Extensions a)))"
    by (rule m, unfold standard_violations extension_violations [OF assms]
        reserved_valid_names [symmetric], use v in cases)
      (simp_all only: reserved_valid_names [symmetric], auto simp del: append_Cons)
qed

lemma selected_violation_iff: "selected_violation exts i \<longleftrightarrow> i \<in> set (selectedIssues exts)"
proof
  assume "i \<in> set (selectedIssues exts)"
  then show "selected_violation exts i" unfolding selected_violations
    by - (elim disjE exE conjE; hypsubst; rule selected_violation.intros, assumption?; blast)
next
  assume "selected_violation exts i"
  then show "i \<in> set (selectedIssues exts)" unfolding selected_violations by cases auto
qed

section \<open>Each violation is reported once\<close>

lemma distinct_if: "distinct (if c then [x] else [])"
  by simp

lemma distinct_if_else: "distinct (if c then [x] else if d then [y] else [])"
  by simp

lemma standardIssues_distinct: "distinct (standardIssues a)"
  unfolding standardIssues_def distinct_append disjoint_iff set_append Un_iff mem_if mem_if_else
  by (intro conjI allI impI distinct_if distinct_if_else; (elim disjE conjE)?; hypsubst; simp)

lemma selectedIssues_distinct: "distinct (selectedIssues exts)"
  by (auto simp: selectedIssues_def split: option.splits if_splits)

lemma extensionIssues_field: "i \<in> set (extensionIssues p) \<Longrightarrow> issue_field i = ''extensions.'' @ fst p"
  by (auto simp: extensionIssues_def ext_field_def split: prod.splits if_splits)

lemma extensionIssues_distinct:
  "wf_map exts \<Longrightarrow> distinct (concat (map extensionIssues exts))"
proof (induction exts)
  case (Cons p exts)
  have "set (extensionIssues p) \<inter> set (concat (map extensionIssues exts)) = {}"
  proof -
    have "fst p \<noteq> fst q" if "q \<in> set exts" for q
      using that Cons.prems by (cases p) (auto simp: wf_map_Cons)
    then show ?thesis by (fastforce dest: extensionIssues_field)
  qed
  moreover have "distinct (extensionIssues p)" by (simp add: extensionIssues_def split: prod.split)
  ultimately show ?case using Cons by (cases p) (simp add: wf_map_Cons)
qed simp

lemma standard_not_extension:
  "set (standardIssues a) \<inter> set (concat (map extensionIssues exts)) = {}"
proof -
  have "hd (issue_field i) \<noteq> CHR ''e''" if "i \<in> set (standardIssues a)" for i
    using that unfolding standard_violations by - (elim disjE conjE; simp)
  moreover have "hd (issue_field i) = CHR ''e''" if "i \<in> set (extensionIssues p)" for i p
    using extensionIssues_field [OF that] by simp
  ultimately show ?thesis by fastforce
qed

lemma attributeIssues_count:
  assumes "wf_map (a_Extensions a)"
  shows "count (mset (attributeIssues a)) i
    = of_bool (violation a i) + of_bool (selected_violation (a_Extensions a) i)"
proof -
  have d: "distinct (standardIssues a @ concat (map extensionIssues (a_Extensions a)))"
    using standardIssues_distinct extensionIssues_distinct [OF assms] standard_not_extension
    by (simp only: distinct_append)
  have c: "count (mset xs) i = of_bool (i \<in> set xs)" if "distinct xs" for xs
    using that by (simp add: distinct_count_atmost_1)
  show ?thesis
    unfolding violation_iff [OF assms] selected_violation_iff c [OF d, symmetric]
      c [OF selectedIssues_distinct, symmetric]
    by (simp only: attributeIssues_def mset_append count_union add.assoc)
qed

section \<open>Properties\<close>

text \<open>
  C3. Validation is sound and complete for the rules of a context: it succeeds exactly for a valid context, which
  is one that violates no rule, and otherwise its error is the sorted list of the violations, with no other issue
  and each violation once, a rule of the registered extensions counting beside the general rule for values.
\<close>

theorem validateAttributes_exact:
  assumes "wf_map (a_Extensions a)"
  shows "(validateAttributes a = Inr () \<longleftrightarrow> valid_context a)
    \<and> (valid_context a \<longleftrightarrow> (\<forall>i. \<not> violation a i \<and> \<not> selected_violation (a_Extensions a) i))
    \<and> (validateAttributes a = Inl err \<longleftrightarrow>
        (\<exists>issues. err = ValidationError issues \<and> issues \<noteq> [] \<and> sorted issues
          \<and> (\<forall>i. count (mset issues) i
              = of_bool (violation a i) + of_bool (selected_violation (a_Extensions a) i))))"
proof -
  have e: "(\<forall>i. count (mset issues) i = of_bool (violation a i) + of_bool (selected_violation (a_Extensions a) i))
      \<longleftrightarrow> mset issues = mset (attributeIssues a)" for issues
    unfolding attributeIssues_count [OF assms, symmetric] multiset_eq_iff ..
  have n: "attributeIssues a = [] \<longleftrightarrow> (\<forall>i. \<not> violation a i \<and> \<not> selected_violation (a_Extensions a) i)"
    using e [of "[]"] by auto
  have s: "sorted issues \<and> mset issues = mset (attributeIssues a) \<longleftrightarrow> issues = sort (attributeIssues a)" for issues
    by (auto dest: properties_for_sort)
  have "validateAttributes a = Inl err \<longleftrightarrow>
      (\<exists>issues. err = ValidationError issues \<and> issues \<noteq> [] \<and> sorted issues \<and> mset issues = mset (attributeIssues a))"
    unfolding validateAttributes_Inl attributeIssues_Nil [symmetric] s
    by (metis mset_sort mset_zero_iff)
  then show ?thesis
    unfolding e validateAttributes_Inr using n by (simp add: attributeIssues_Nil)
qed

text \<open>
  The result of validation, the diagnostics included, does not depend on the order in which the map of
  extensions is ranged over.
\<close>

theorem validateAttributes_order_independent:
  assumes "wf_map (a_Extensions a)" and "mset exts = mset (a_Extensions a)"
  shows "validateAttributes (a\<lparr>a_Extensions := exts\<rparr>) = validateAttributes a"
  using assms by (rule validateAttributes_perm)

definition text_attribute :: "bytes \<Rightarrow> Attribute" where
  "text_attribute v = \<lparr>attr_kind = AttributeString, attr_text = v, attr_bytes = []\<rparr>"

definition sample_attributes :: Attributes where
  "sample_attributes = \<lparr>a_ID = ''1'', a_Source = ''/s'', a_Type = ''t'', a_DataContentType = '''',
     a_DataSchema = '''', a_Subject = '''', a_Time = None,
     a_Extensions = [(''a'', text_attribute ''x''), (''b'', text_attribute ''y'')]\<rparr>"

theorem validateAttributes_order_independent_witness:
  "wf_map (a_Extensions sample_attributes)
   \<and> validateAttributes (sample_attributes\<lparr>a_Extensions := rev (a_Extensions sample_attributes)\<rparr>)
     = validateAttributes sample_attributes"
proof -
  have w: "wf_map (a_Extensions sample_attributes)" by (simp add: sample_attributes_def wf_map_def)
  then show ?thesis
    using validateAttributes_order_independent [OF w, of "rev (a_Extensions sample_attributes)"] by simp
qed

definition invalid_attributes :: Attributes where
  "invalid_attributes = \<lparr>a_ID = '''', a_Source = '''', a_Type = ''t'', a_DataContentType = '''',
     a_DataSchema = '''', a_Subject = '''', a_Time = None,
     a_Extensions = [(''time'', text_attribute ''x'')]\<rparr>"

lemma invalid_attributes_error:
  "validateAttributes invalid_attributes = Inl (ValidationError
     [Issue ''extensions.time'' IssueReservedName, Issue ''id'' IssueRequired, Issue ''source'' IssueRequired])"
  by (simp add: validateAttributes_def attributeIssues_def invalid_attributes_def standardIssues_def
        extensionIssues_def selectedIssues_def ext_field_def isReservedAttributeName_def reservedAttributeNames_def
        text_attribute_def eval_defs)

theorem validateAttributes_exact_witness:
  "validateAttributes invalid_attributes = Inl (ValidationError
     [Issue ''extensions.time'' IssueReservedName, Issue ''id'' IssueRequired, Issue ''source'' IssueRequired])
   \<and> violation invalid_attributes (Issue ''source'' IssueRequired)
   \<and> \<not> violation invalid_attributes (Issue ''type'' IssueRequired)"
proof -
  have w: "wf_map (a_Extensions invalid_attributes)" by (simp add: invalid_attributes_def wf_map_def)
  have n: "\<not> selected_violation (a_Extensions invalid_attributes) i" for i
    by (simp add: selected_violation_iff selectedIssues_def invalid_attributes_def)
  have "of_bool (violation invalid_attributes i) = count (mset
      [Issue ''extensions.time'' IssueReservedName, Issue ''id'' IssueRequired, Issue ''source'' IssueRequired]) i" for i
    using validateAttributes_exact [OF w, of "ValidationError
      [Issue ''extensions.time'' IssueReservedName, Issue ''id'' IssueRequired, Issue ''source'' IssueRequired]"]
      invalid_attributes_error n by simp
  from this [of "Issue ''source'' IssueRequired"] this [of "Issue ''type'' IssueRequired"]
  show ?thesis using invalid_attributes_error by (simp add: of_bool_def split: if_splits)
qed

lemma sample_attributes_valid: "valid_context sample_attributes"
  by (simp add: valid_context_def sample_attributes_def text_attribute_def valid_extension_def
      selected_ok_def isReservedAttributeName_def reservedAttributeNames_def validAttribute_def eval_defs)

end
