(* ===== verification/Go_JSON.thy ===== *)
theory Go_JSON
  imports Go_Strings
begin

text \<open>
  Go's package \<open>encoding/json\<close>, as the code uses it: the syntax check of \<open>json.Valid\<close>, the text
  of \<open>json.Marshal\<close> for a string, the unquoting of a JSON string, \<open>json.Unmarshal\<close> into a map of raw
  messages, a slice of raw messages and a string, and the token stream of a \<open>json.Decoder\<close>.

  This theory has the lexical level: scanning strings, numbers and literals, quoting and unquoting. Every
  scanner is local: what it reads does not depend on what follows, as long as a delimiter follows.
\<close>

section \<open>Lexical elements\<close>

definition json_space :: "char \<Rightarrow> bool" where
  "json_space c \<longleftrightarrow> byte c = 32 \<or> byte c = 9 \<or> byte c = 13 \<or> byte c = 10"

definition skip_ws :: "bytes \<Rightarrow> bytes" where
  "skip_ws s = dropWhile json_space s"

definition json_hex :: "char \<Rightarrow> bool" where
  "json_hex c \<longleftrightarrow> is_digit c \<or> (97 \<le> byte c \<and> byte c \<le> 102) \<or> (65 \<le> byte c \<and> byte c \<le> 70)"

definition json_hex_val :: "char \<Rightarrow> nat" where
  "json_hex_val c =
     (if is_digit c then byte c - 48 else if 97 \<le> byte c then byte c - 87 else byte c - 55)"

definition quote :: char where
  "quote = CHR 0x22"

definition backslash :: char where
  "backslash = CHR 0x5C"

text \<open>The body of a string after its opening quote; the result is what follows the closing one.\<close>

fun scan_string :: "bytes \<Rightarrow> bytes option" where
  "scan_string [] = None"
| "scan_string (c # s) =
     (if c = quote then Some s
      else if c = backslash then
        (case s of
           [] \<Rightarrow> None
         | e # t \<Rightarrow>
             if e \<in> {CHR ''b'', CHR ''f'', CHR ''n'', CHR ''r'', CHR ''t'', backslash, CHR ''/'', quote}
             then scan_string t
             else if e = CHR ''u'' then
               (case t of
                  h1 # h2 # h3 # h4 # u \<Rightarrow>
                    if json_hex h1 \<and> json_hex h2 \<and> json_hex h3 \<and> json_hex h4
                    then scan_string u else None
                | _ \<Rightarrow> None)
             else None)
      else if byte c < 0x20 then None
      else scan_string s)"

text \<open>Digits of which at least one must be there.\<close>

definition scan_digits1 :: "bytes \<Rightarrow> bytes option" where
  "scan_digits1 s = (if s \<noteq> [] \<and> is_digit (hd s) then Some (dropWhile is_digit s) else None)"

definition scan_int :: "bytes \<Rightarrow> bytes option" where
  "scan_int s =
     (let t = (case s of c # r \<Rightarrow> if c = CHR ''-'' then r else s | [] \<Rightarrow> s) in
      case t of
        [] \<Rightarrow> None
      | c # r \<Rightarrow> if c = CHR ''0'' then Some r
               else if is_digit c then Some (dropWhile is_digit r) else None)"

definition scan_frac :: "bytes \<Rightarrow> bytes option" where
  "scan_frac s = (case s of c # r \<Rightarrow> if c = CHR ''.'' then scan_digits1 r else Some s | [] \<Rightarrow> Some s)"

definition scan_exp :: "bytes \<Rightarrow> bytes option" where
  "scan_exp s =
     (case s of
        [] \<Rightarrow> Some s
      | c # r \<Rightarrow>
          if c = CHR ''e'' \<or> c = CHR ''E''
          then (case r of
                  d # t \<Rightarrow> if d = CHR ''+'' \<or> d = CHR ''-'' then scan_digits1 t else scan_digits1 r
                | [] \<Rightarrow> None)
          else Some s)"

definition scan_number :: "bytes \<Rightarrow> bytes option" where
  "scan_number s = Option.bind (Option.bind (scan_int s) scan_frac) scan_exp"

definition scan_literal :: "bytes \<Rightarrow> bytes \<Rightarrow> bytes option" where
  "scan_literal w s = (if has_prefix s w then Some (drop (length w) s) else None)"

definition scan_scalar :: "bytes \<Rightarrow> bytes option" where
  "scan_scalar s =
     (case s of
        [] \<Rightarrow> None
      | c # r \<Rightarrow>
          if c = quote then scan_string r
          else if c = CHR ''-'' \<or> is_digit c then scan_number s
          else if c = CHR ''t'' then scan_literal ''true'' s
          else if c = CHR ''f'' then scan_literal ''false'' s
          else if c = CHR ''n'' then scan_literal ''null'' s
          else None)"

section \<open>String values\<close>

text \<open>The escape of one rune by \<open>appendString\<close> with HTML escaping on.\<close>

definition hex_lower :: "nat \<Rightarrow> char" where
  "hex_lower n = (if n < 10 then char_of (48 + n) else char_of (87 + n))"

definition marshal_ascii :: "char \<Rightarrow> bytes" where
  "marshal_ascii c =
     (if c = backslash \<or> c = quote then [backslash, c]
      else if byte c = 8 then [backslash, CHR ''b'']
      else if byte c = 12 then [backslash, CHR ''f'']
      else if byte c = 10 then [backslash, CHR ''n'']
      else if byte c = 13 then [backslash, CHR ''r'']
      else if byte c = 9 then [backslash, CHR ''t'']
      else if byte c < 0x20 \<or> c = CHR ''<'' \<or> c = CHR ''>'' \<or> c = CHR ''&''
      then [backslash, CHR ''u'', CHR ''0'', CHR ''0'', hex_lower (byte c div 16),
            hex_lower (byte c mod 16)]
      else [c])"

definition marshal_chunk :: "nat \<times> bytes \<Rightarrow> bytes" where
  "marshal_chunk p =
     (case p of (r, w) \<Rightarrow>
        if r < 0x80 then marshal_ascii (hd w)
        else if \<not> good_chunk p then [backslash, CHR ''u'', CHR ''f'', CHR ''f'', CHR ''f'', CHR ''d'']
        else if r = 0x2028 \<or> r = 0x2029
        then [backslash, CHR ''u'', CHR ''2'', CHR ''0'', CHR ''2'', hex_lower (r mod 16)]
        else w)"

definition marshal_body :: "bytes \<Rightarrow> bytes" where
  "marshal_body s = concat (map marshal_chunk (rune_chunks s))"

definition json_marshal_string :: "bytes \<Rightarrow> bytes" where
  "json_marshal_string s = quote # marshal_body s @ [quote]"

definition hex4 :: "char \<Rightarrow> char \<Rightarrow> char \<Rightarrow> char \<Rightarrow> nat" where
  "hex4 a b c d =
     ((json_hex_val a * 16 + json_hex_val b) * 16 + json_hex_val c) * 16 + json_hex_val d"

definition surrogate :: "nat \<Rightarrow> bool" where
  "surrogate r \<longleftrightarrow> 0xD800 \<le> r \<and> r < 0xE000"

text \<open>\<open>getu4\<close>: an escape of the form \<open>\\uXXXX\<close> at the start of the text.\<close>

definition getu4 :: "bytes \<Rightarrow> nat option" where
  "getu4 s =
     (case s of
        x # u # a # b # c # d # _ \<Rightarrow>
          if x = backslash \<and> u = CHR ''u'' \<and> json_hex a \<and> json_hex b \<and> json_hex c \<and> json_hex d
          then Some (hex4 a b c d) else None
      | _ \<Rightarrow> None)"

text \<open>\<open>utf16.DecodeRune\<close> of two escapes, \<open>None\<close> for its replacement character.\<close>

definition utf16_pair :: "nat \<Rightarrow> nat option \<Rightarrow> nat option" where
  "utf16_pair r next =
     (case next of
        Some q \<Rightarrow>
          if 0xD800 \<le> r \<and> r < 0xDC00 \<and> 0xDC00 \<le> q \<and> q < 0xE000
          then Some ((r - 0xD800) * 1024 + (q - 0xDC00) + 0x10000) else None
      | None \<Rightarrow> None)"

definition unescape_simple :: "char \<Rightarrow> char option" where
  "unescape_simple e =
     (if e = quote \<or> e = backslash \<or> e = CHR ''/'' \<or> e = CHR 0x27 then Some e
      else if e = CHR ''b'' then Some (CHR 0x08)
      else if e = CHR ''f'' then Some (CHR 0x0C)
      else if e = CHR ''n'' then Some (CHR 0x0A)
      else if e = CHR ''r'' then Some (CHR 0x0D)
      else if e = CHR ''t'' then Some (CHR 0x09)
      else None)"

text \<open>\<open>unquoteBytes\<close> on the text between the quotes.\<close>

function unquote :: "bytes \<Rightarrow> bytes option" where
  "unquote [] = Some []"
| "unquote (c # s) =
     (if c = backslash then
        (case s of
           [] \<Rightarrow> None
         | e # t \<Rightarrow>
             (case unescape_simple e of
                Some x \<Rightarrow> map_option (\<lambda>v. x # v) (unquote t)
              | None \<Rightarrow>
                  if e = CHR ''u'' then
                    (case getu4 (c # s) of
                       None \<Rightarrow> None
                     | Some r \<Rightarrow>
                         let u = drop 4 t in
                         if surrogate r then
                           (case utf16_pair r (getu4 u) of
                              Some p \<Rightarrow> map_option (\<lambda>v. encode_rune p @ v) (unquote (drop 6 u))
                            | None \<Rightarrow> map_option (\<lambda>v. encode_rune rune_error @ v) (unquote u))
                         else map_option (\<lambda>v. encode_rune r @ v) (unquote u))
                  else None))
      else if c = quote \<or> byte c < 0x20 then None
      else if byte c < 0x80 then map_option (\<lambda>v. c # v) (unquote s)
      else (let (r, n) = decode_rune (c # s)
            in map_option (\<lambda>v. encode_rune r @ v) (unquote (drop (n - 1) s))))"
  by pat_completeness auto
termination
  by (relation "measure length") auto

declare unquote.simps(2) [simp del]

section \<open>Marshalled strings\<close>

lemma hex_lower_props [simp]:
  assumes "n < 16"
  shows "json_hex (hex_lower n)" "json_hex_val (hex_lower n) = n"
  using assms by (auto simp: hex_lower_def json_hex_def json_hex_val_def is_digit_def)

lemma hex_zero [simp]: "json_hex CHR ''0''" "json_hex_val CHR ''0'' = 0"
  "json_hex CHR ''2''" "json_hex_val CHR ''2'' = 2"
  by (auto simp: json_hex_def json_hex_val_def is_digit_def)

lemma byte_eq_const:
  "byte c = 8 \<longleftrightarrow> c = CHR 0x08" "byte c = 12 \<longleftrightarrow> c = CHR 0x0C" "byte c = 10 \<longleftrightarrow> c = CHR 0x0A"
  "byte c = 13 \<longleftrightarrow> c = CHR 0x0D" "byte c = 9 \<longleftrightarrow> c = CHR 0x09" "byte c = 32 \<longleftrightarrow> c = CHR 0x20"
  using byte_eq_iff [of c "CHR 0x08"] byte_eq_iff [of c "CHR 0x0C"] byte_eq_iff [of c "CHR 0x0A"]
    byte_eq_iff [of c "CHR 0x0D"] byte_eq_iff [of c "CHR 0x09"] byte_eq_iff [of c "CHR 0x20"]
  by simp_all

lemma append_fun: "(@) [c] = (#) c" "(@) (c # cs) = (\<lambda>v. c # cs @ v)"
  by auto

lemma unquote_u00:
  assumes "byte c < 0x80"
  shows "unquote ([backslash, CHR ''u'', CHR ''0'', CHR ''0'', hex_lower (byte c div 16),
            hex_lower (byte c mod 16)] @ t) = map_option (\<lambda>v. c # v) (unquote t)"
  using assms
  by (simp add: unquote.simps(2) unescape_simple_def quote_def backslash_def getu4_def hex4_def
      surrogate_def encode_rune_def encode_scalar_def scalar_def append_fun)

lemma unquote_marshal_ascii:
  assumes "byte c < 0x80"
  shows "unquote (marshal_ascii c @ t) = map_option (\<lambda>v. c # v) (unquote t)"
  using assms unquote_u00 [OF assms]
  by (auto simp: marshal_ascii_def byte_eq_const unquote.simps(2) unescape_simple_def quote_def backslash_def)

lemma encode_rune_high:
  assumes "0x80 \<le> r" "scalar r"
  obtains c cs where "encode_rune r = c # cs" "0x80 \<le> byte c"
  using assms by (cases "r < 0x800"; cases "r < 0x10000")
    (auto simp: encode_rune_def encode_scalar_def scalar_def)

lemma unquote_rune:
  assumes "0x80 \<le> r" "scalar r"
  shows "unquote (encode_rune r @ t) = map_option (\<lambda>v. encode_rune r @ v) (unquote t)"
proof -
  obtain c cs where c: "encode_rune r = c # cs" "0x80 \<le> byte c" using encode_rune_high [OF assms] .
  have "decode_rune (c # cs @ t) = (r, Suc (length cs))"
    using decode_encode_rune [OF assms(2), of t] c(1) by simp
  moreover have "c \<noteq> backslash" "c \<noteq> quote" "\<not> byte c < 0x20" "\<not> byte c < 0x80"
    using c(2) by (auto simp: backslash_def quote_def)
  ultimately show ?thesis using c(1) by (simp add: unquote.simps(2) append_fun)
qed

lemma unquote_marshal_chunk:
  assumes "scalar r"
  shows "unquote (marshal_chunk (r, encode_rune r) @ t) = map_option (\<lambda>v. encode_rune r @ v) (unquote t)"
proof (cases "r < 0x80")
  case True
  then have "encode_rune r = [char_of r]" "byte (char_of r :: char) = r"
    by (auto simp: encode_rune_def encode_scalar_def scalar_def)
  then show ?thesis using True unquote_marshal_ascii [of "char_of r" t] by (simp add: marshal_chunk_def)
next
  case False
  have sep: "unquote ([backslash, CHR ''u'', CHR ''2'', CHR ''0'', CHR ''2'', hex_lower (r mod 16)] @ t)
      = map_option (\<lambda>v. encode_rune r @ v) (unquote t)" if "r = 0x2028 \<or> r = 0x2029"
    using that
    by (auto simp: unquote.simps(2) unescape_simple_def quote_def backslash_def getu4_def hex4_def
        surrogate_def)
  show ?thesis
    using False sep unquote_rune [of r t] assms good_chunk_encode [OF assms]
    by (auto simp: marshal_chunk_def)
qed

lemma marshal_body_rune:
  "scalar r \<Longrightarrow> marshal_body (encode_rune r @ s) = marshal_chunk (r, encode_rune r) @ marshal_body s"
  by (simp add: marshal_body_def rune_chunks_encode)

lemma unquote_marshal:
  assumes "valid_utf8 s"
  shows "unquote (marshal_body s) = Some s"
  using assms
  by (induction s rule: valid_utf8_induct)
    (simp_all add: marshal_body_rune unquote_marshal_chunk, simp add: marshal_body_def)

lemma scan_plain:
  "c \<noteq> quote \<Longrightarrow> c \<noteq> backslash \<Longrightarrow> 0x20 \<le> byte c \<Longrightarrow> scan_string (c # s) = scan_string s"
  by simp

lemma scan_plain_append:
  "list_all (\<lambda>c. c \<noteq> quote \<and> c \<noteq> backslash \<and> 0x20 \<le> byte c) w \<Longrightarrow> scan_string (w @ s) = scan_string s"
  by (induction w) auto

lemma scan_marshal_ascii: "byte c < 0x80 \<Longrightarrow> scan_string (marshal_ascii c @ t) = scan_string t"
  by (auto simp: marshal_ascii_def quote_def backslash_def)

lemma encode_rune_multi:
  assumes "0x80 \<le> r"
  shows "list_all (\<lambda>c. c \<noteq> quote \<and> c \<noteq> backslash \<and> 0x20 \<le> byte c) (encode_rune r)"
proof -
  have "list_all (\<lambda>c. 0x80 \<le> byte c) (encode_rune r)"
    using assms by (auto simp: encode_rune_def encode_scalar_def rune_error_def scalar_def)
  then show ?thesis by (auto simp: list_all_iff quote_def backslash_def)
qed

lemma json_hex_fd [simp]: "json_hex CHR ''f''" "json_hex CHR ''d''"
  by (simp_all add: json_hex_def)

lemma scan_marshal_chunk:
  assumes d: "decode_rune (c # s) = (r, n)"
  shows "scan_string (marshal_chunk (r, c # take (n - 1) s) @ t) = scan_string t"
proof (cases "good_chunk (r, c # take (n - 1) s)")
  case True
  then have "\<not> (r = rune_error \<and> n = 1)" by (auto simp: good_chunk_def)
  from good_decode [OF d this] have e: "scalar r" "encode_rune r = c # take (n - 1) s" by auto
  show ?thesis
  proof (cases "r < 0x80")
    case True
    then have "c = char_of r" using e by (auto simp: encode_rune_def encode_scalar_def)
    then show ?thesis using True by (simp add: marshal_chunk_def scan_marshal_ascii)
  next
    case False
    then have "scan_string (encode_rune r @ t) = scan_string t"
      by (intro scan_plain_append encode_rune_multi) simp
    then show ?thesis using False \<open>good_chunk _\<close> e
      by (auto simp: marshal_chunk_def quote_def backslash_def)
  qed
next
  case False
  then have "r = rune_error" by (simp add: good_chunk_def)
  then show ?thesis using False
    by (simp add: marshal_chunk_def rune_error_def quote_def backslash_def)
qed

lemma scan_marshal: "scan_string (marshal_body s @ t) = scan_string t"
proof (induction s rule: rune_chunks.induct)
  case (2 c cs)
  obtain r n where d: "decode_rune (c # cs) = (r, n)" by fastforce
  then show ?case using "2.IH" [OF d [symmetric] refl] scan_marshal_chunk [OF d]
    by (simp add: marshal_body_def rune_chunks.simps(2))
qed (simp add: marshal_body_def)

lemma scan_scalar_marshal: "scan_scalar (json_marshal_string s @ t) = Some t"
  using scan_marshal [of s "quote # t"] by (simp add: scan_scalar_def json_marshal_string_def)

text \<open>What the scanner accepts, \<open>unquoteBytes\<close> never refuses.\<close>

lemma scan_string_suffix:
  "scan_string s = Some t \<Longrightarrow> \<exists>b. s = b @ quote # t"
proof (induction s rule: scan_string.induct)
  case (2 c s)
  consider "c = quote" | "c \<noteq> quote" "c \<noteq> backslash" | "c \<noteq> quote" "c = backslash" by blast
  then show ?case
  proof cases
    case 1
    then show ?thesis using "2.prems" by (intro exI [of _ "[]"]) simp
  next
    case 2
    then have "scan_string s = Some t" using "2.prems" by (auto split: if_splits)
    then obtain b where "s = b @ quote # t" using "2.IH"(3) 2 "2.prems" by (auto split: if_splits)
    then show ?thesis by (intro exI [of _ "c # b"]) simp
  next
    case 3
    then obtain e u where s: "s = e # u" using "2.prems" by (auto split: list.splits)
    show ?thesis
    proof (cases "e \<in> {CHR ''b'', CHR ''f'', CHR ''n'', CHR ''r'', CHR ''t'', backslash, CHR ''/'', quote}")
      case True
      then have "scan_string u = Some t" using "2.prems" 3 s by simp
      then obtain b where "u = b @ quote # t" using "2.IH"(1) [OF 3 s True] by blast
      then show ?thesis using s by (intro exI [of _ "c # e # b"]) simp
    next
      case False
      then have eu: "e = CHR ''u''" using "2.prems" 3 s by (auto split: if_splits)
      then obtain h1 h2 h3 h4 v where u: "u = h1 # h2 # h3 # h4 # v"
        and h: "json_hex h1 \<and> json_hex h2 \<and> json_hex h3 \<and> json_hex h4" "scan_string v = Some t"
        using "2.prems" 3 s False by (auto split: list.splits if_splits)
      then obtain b where "v = b @ quote # t" using "2.IH"(2) [OF 3 s False eu u refl refl refl h] by blast
      then show ?thesis using s u by (intro exI [of _ "c # e # h1 # h2 # h3 # h4 # b"]) simp
    qed
  qed
qed simp

lemma scan_string_length: "scan_string s = Some t \<Longrightarrow> length t < length s"
  using scan_string_suffix by fastforce


lemma decode_rune_cont:
  assumes d: "decode_rune (c # s) = (r, n)" and c: "0x80 \<le> byte c"
  shows "list_all (\<lambda>c. c \<noteq> quote \<and> c \<noteq> backslash \<and> 0x20 \<le> byte c) (take (n - 1) s)"
proof (cases "r = rune_error \<and> n = 1")
  case False
  from good_decode [OF d this] have e: "scalar r" "encode_rune r = c # take (n - 1) s" by auto
  have "0x80 \<le> r"
  proof (rule ccontr)
    assume "\<not> 0x80 \<le> r"
    then have "c = char_of r" using e by (auto simp: encode_rune_def encode_scalar_def)
    then show False using c \<open>\<not> 0x80 \<le> r\<close> by simp
  qed
  from encode_rune_multi [OF this] show ?thesis using e(2) by simp
qed simp

lemma json_hex_not_quote [simp]: "\<not> json_hex quote"
  by (simp add: quote_def json_hex_def is_digit_def)

lemma scan_u:
  "scan_string (backslash # CHR ''u'' # r) = Some t \<longleftrightarrow>
     (\<exists>h1 h2 h3 h4 v. r = h1 # h2 # h3 # h4 # v \<and> json_hex h1 \<and> json_hex h2 \<and> json_hex h3
        \<and> json_hex h4 \<and> scan_string v = Some t)"
  by (auto simp: quote_def backslash_def split: list.splits if_splits)

lemma scan_escape:
  assumes "scan_string (backslash # e # r) = Some t" and "e \<noteq> CHR ''u''"
  shows "\<exists>x. unescape_simple e = Some x" and "scan_string r = Some t"
  using assms by (auto simp: unescape_simple_def quote_def backslash_def split: if_splits)

lemma scan_u_split:
  assumes "scan_string (backslash # CHR ''u'' # u @ quote # t) = Some t"
  obtains h1 h2 h3 h4 v where "u = h1 # h2 # h3 # h4 # v" "json_hex h1" "json_hex h2"
    "json_hex h3" "json_hex h4" "scan_string (v @ quote # t) = Some t"
proof -
  from assms obtain h1 h2 h3 h4 w where w: "u @ quote # t = h1 # h2 # h3 # h4 # w" "json_hex h1"
    "json_hex h2" "json_hex h3" "json_hex h4" "scan_string w = Some t" unfolding scan_u by blast
  then obtain v where "u = h1 # h2 # h3 # h4 # v"
    by (auto simp: append_eq_Cons_conv)
  then show thesis using w by (intro that [of h1 h2 h3 h4 v]) auto
qed

lemma getu4_scan:
  assumes "getu4 u = Some q" and "scan_string (u @ quote # t) = Some t"
  shows "scan_string (drop 6 u @ quote # t) = Some t"
proof -
  from assms(1) obtain h1 h2 h3 h4 w where "u = backslash # CHR ''u'' # h1 # h2 # h3 # h4 # w"
    by (auto simp: getu4_def split: list.splits if_splits)
  then show ?thesis using assms(2) scan_u [of "h1 # h2 # h3 # h4 # w @ quote # t"]
    by (simp del: scan_string.simps)
qed

lemma unquote_scanned:
  "scan_string (b @ quote # t) = Some t \<Longrightarrow> \<exists>v. unquote b = Some v"
proof (induction b rule: unquote.induct)
  case (2 c s)
  consider "c = backslash" | "c \<noteq> backslash" "byte c < 0x80" | "c \<noteq> backslash" "0x80 \<le> byte c" by force
  then show ?case
  proof cases
    case 1
    note q = 1
    have nl: "scan_string t \<noteq> Some t" using scan_string_length by blast
    obtain e u where s: "s = e # u"
      using "2.prems" q nl by (cases s) (auto simp: quote_def backslash_def)
    show ?thesis
    proof (cases "e = CHR ''u''")
      case True
      obtain h1 h2 h3 h4 v where u: "u = h1 # h2 # h3 # h4 # v"
        and h: "json_hex h1" "json_hex h2" "json_hex h3" "json_hex h4" "scan_string (v @ quote # t) = Some t"
        using scan_u_split [of u t] "2.prems" unfolding q s True append_Cons by blast
      have us: "unescape_simple e = None" using True by (simp add: unescape_simple_def quote_def backslash_def)
      have g: "getu4 (c # s) = Some (hex4 h1 h2 h3 h4)" using q s u h True by (simp add: getu4_def)
      have v: "v = drop 4 u" using u by simp
      have p: "scan_string (drop 6 v @ quote # t) = Some t"
        if "utf16_pair (hex4 h1 h2 h3 h4) (getu4 v) = Some p" for p
        using that h(5) by (auto simp: utf16_pair_def intro: getu4_scan split: option.splits)
      note IH = "2.IH"(1-3) [OF q s us True g v]
      show ?thesis
      proof (cases "utf16_pair (hex4 h1 h2 h3 h4) (getu4 v)")
        case None
        then show ?thesis using IH(1,3) h(5) q us True g s v
          by (cases "surrogate (hex4 h1 h2 h3 h4)") (auto simp: unquote.simps(2) Let_def)
      next
        case (Some p)
        then show ?thesis using IH(2,3) h(5) q us True g s v p [OF Some]
          by (cases "surrogate (hex4 h1 h2 h3 h4)") (auto simp: unquote.simps(2) Let_def)
      qed
    next
      case False
      then obtain x where x: "unescape_simple e = Some x" and u: "scan_string (u @ quote # t) = Some t"
        using scan_escape [of e "u @ quote # t" t] "2.prems" unfolding q s append_Cons by blast
      from "2.IH"(4) [OF q s x u] show ?thesis using q s x by (auto simp: unquote.simps(2))
    qed
  next
    case 2
    have "c \<noteq> quote" using "2.prems" by (auto dest: arg_cong [of _ _ length])
    moreover have "\<not> byte c < 0x20" using "2.prems" 2 \<open>c \<noteq> quote\<close> by (auto split: if_splits)
    ultimately show ?thesis using "2.IH"(5) "2.prems" 2 by (auto simp: unquote.simps(2) split: if_splits)
  next
    case 3
    obtain r n where d: "decode_rune (c # s) = (r, n)" by fastforce
    have cc: "c \<noteq> quote" "\<not> byte c < 0x20" "\<not> byte c < 0x80" using 3 by (auto simp: quote_def)
    have "scan_string (s @ quote # t) = Some t" using "2.prems" 3 cc by simp
    then have "scan_string (take (n - 1) s @ drop (n - 1) s @ quote # t) = Some t"
      by (metis append.assoc append_take_drop_id)
    then have "scan_string (drop (n - 1) s @ quote # t) = Some t"
      using scan_plain_append [OF decode_rune_cont [OF d 3(2)]] by simp
    then show ?thesis using "2.IH"(6) 3 cc d by (auto simp: unquote.simps(2))
  qed
qed simp

interpretation json_string: codec marshal_body unquote valid_utf8
  by unfold_locales (rule unquote_marshal)

declare scan_string.simps(2) [simp del]

section \<open>Scanning is local\<close>

lemma skip_ws_Cons:
  assumes "skip_ws s = c # u"
  shows "\<not> json_space c" and "\<exists>p. s = p @ c # u \<and> list_all json_space p"
proof -
  show "\<not> json_space c" using assms unfolding skip_ws_def by (metis dropWhile_eq_Cons_conv)
  have "s = takeWhile json_space s @ c # u" using assms unfolding skip_ws_def by (metis takeWhile_dropWhile_id)
  moreover have "list_all json_space (takeWhile json_space s)" by (auto simp: list_all_iff dest: set_takeWhileD)
  ultimately show "\<exists>p. s = p @ c # u \<and> list_all json_space p" by blast
qed

lemma skip_ws_append: "list_all json_space p \<Longrightarrow> skip_ws (p @ s) = skip_ws s"
  by (induction p) (auto simp: skip_ws_def)

lemma skip_ws_nonspace [simp]: "\<not> json_space c \<Longrightarrow> skip_ws (c # s) = c # s"
  by (simp add: skip_ws_def)

lemma skip_ws_Nil [simp]: "skip_ws [] = []"
  by (simp add: skip_ws_def)

lemma length_skip_ws: "length (skip_ws s) \<le> length s"
  by (simp add: skip_ws_def length_dropWhile_le)

lemma skip_ws_idem [simp]: "skip_ws (skip_ws s) = skip_ws s"
  by (cases "skip_ws s") (auto dest: skip_ws_Cons)

definition delim :: "bytes \<Rightarrow> bool" where
  "delim r \<longleftrightarrow> r = [] \<or> hd r \<in> {CHR '','', CHR ''}'', CHR '']''} \<or> json_space (hd r)"

lemma delim_skip_ws: "skip_ws r = c # u \<Longrightarrow> c \<in> {CHR '','', CHR ''}'', CHR '']''} \<Longrightarrow> delim r"
  by (cases r) (auto simp: delim_def skip_ws_def split: if_splits)

lemma delim_props:
  assumes "delim (c # r)"
  shows "\<not> is_digit c" "c \<noteq> CHR ''.''" "c \<noteq> CHR ''e''" "c \<noteq> CHR ''E''"
  using assms by (auto simp: delim_def json_space_def is_digit_def)

lemma scan_string_local:
  "scan_string s = Some t \<Longrightarrow> \<exists>b. s = b @ quote # t \<and> (\<forall>u. scan_string (b @ quote # u) = Some u)"
proof (induction s rule: scan_string.induct)
  case (2 c s)
  consider "c = quote" | "c \<noteq> quote" "c \<noteq> backslash" | "c \<noteq> quote" "c = backslash" by blast
  then show ?case
  proof cases
    case 1
    then show ?thesis using "2.prems" by (intro exI [of _ "[]"]) (simp add: scan_string.simps(2))
  next
    case 2
    then have *: "scan_string s = Some t" "\<not> byte c < 0x20"
      using "2.prems" by (auto simp: scan_string.simps(2) split: if_splits)
    then obtain b where "s = b @ quote # t" "\<forall>u. scan_string (b @ quote # u) = Some u"
      using "2.IH"(3) [OF 2 *(2,1)] by blast
    then show ?thesis using 2 * by (intro exI [of _ "c # b"]) (simp add: scan_string.simps(2))
  next
    case 3
    then obtain e u where s: "s = e # u" using "2.prems" by (auto simp: scan_string.simps(2) split: list.splits)
    show ?thesis
    proof (cases "e \<in> {CHR ''b'', CHR ''f'', CHR ''n'', CHR ''r'', CHR ''t'', backslash, CHR ''/'', quote}")
      case True
      then have "scan_string u = Some t" using "2.prems" 3 s by (simp add: scan_string.simps(2))
      then obtain b where "u = b @ quote # t" "\<forall>u. scan_string (b @ quote # u) = Some u"
        using "2.IH"(1) [OF 3 s True] by blast
      then show ?thesis using s 3 True
        by (intro exI [of _ "c # e # b"]) (simp add: scan_string.simps(2))
    next
      case False
      then have eu: "e = CHR ''u''" using "2.prems" 3 s by (auto simp: scan_string.simps(2) split: if_splits)
      then obtain h1 h2 h3 h4 v where u: "u = h1 # h2 # h3 # h4 # v"
        and h: "json_hex h1 \<and> json_hex h2 \<and> json_hex h3 \<and> json_hex h4" "scan_string v = Some t"
        using "2.prems" scan_u [of u t] unfolding 3(2) s by blast
      then obtain b where "v = b @ quote # t" "\<forall>u. scan_string (b @ quote # u) = Some u"
        using "2.IH"(2) [OF 3 s False eu u refl refl refl h] by blast
      then show ?thesis using s u h(1)
        by (intro exI [of _ "c # e # h1 # h2 # h3 # h4 # b"]) (simp add: 3(2) eu scan_u)
    qed
  qed
qed simp

definition stops :: "(char \<Rightarrow> bool) \<Rightarrow> bytes \<Rightarrow> bool" where
  "stops P r \<longleftrightarrow> r = [] \<or> \<not> P (hd r)"

lemma stops_dropWhile: "stops P r \<Longrightarrow> list_all P w \<Longrightarrow> dropWhile P (w @ r) = r"
  by (induction w) (auto simp: stops_def dropWhile_eq_self_iff)

lemma dropWhile_split: "\<exists>w. s = w @ dropWhile P s \<and> list_all P w"
  by (intro exI [of _ "takeWhile P s"]) (auto simp: list_all_iff dest: set_takeWhileD)

lemma scan_digits1_local:
  assumes "scan_digits1 s = Some r"
  shows "\<exists>w. s = w @ r \<and> w \<noteq> [] \<and> (\<forall>r'. stops is_digit r' \<longrightarrow> scan_digits1 (w @ r') = Some r')"
proof -
  from assms obtain c t where s: "s = c # t" "is_digit c" "dropWhile is_digit t = r"
    by (cases s) (auto simp: scan_digits1_def split: if_splits)
  obtain w where "t = w @ r" "list_all is_digit w" using dropWhile_split [of t is_digit] s(3) by auto
  then show ?thesis using s
    by (intro exI [of _ "c # w"]) (auto simp: scan_digits1_def stops_dropWhile)
qed

lemma scan_int_local:
  assumes "scan_int s = Some r"
  shows "\<exists>w. s = w @ r \<and> w \<noteq> [] \<and> (\<forall>r'. stops is_digit r' \<longrightarrow> scan_int (w @ r') = Some r')"
proof -
  define m where "m = (if s \<noteq> [] \<and> hd s = CHR ''-'' then ''-'' else [])"
  obtain c t where s: "s = m @ c # t" "c = CHR ''0'' \<and> t = r \<or> c \<noteq> CHR ''0'' \<and> is_digit c \<and> dropWhile is_digit t = r"
    using assms by (cases s) (auto simp: scan_int_def m_def split: list.splits if_splits)
  then obtain w where w: "t = w @ r" "list_all is_digit w" "c = CHR ''0'' \<longrightarrow> w = []"
    using dropWhile_split [of t is_digit] by auto
  have "c \<noteq> CHR ''-''" using s(2) by (auto simp: is_digit_def)
  then have "scan_int (m @ c # w @ r') = Some r'" if "stops is_digit r'" for r'
    using that s(2) w by (auto simp: scan_int_def m_def stops_dropWhile)
  then show ?thesis using s(1) w(1) by (intro exI [of _ "m @ c # w"]) auto
qed

lemma scan_frac_local:
  assumes "scan_frac s = Some r"
  shows "\<exists>w. s = w @ r \<and> (w = [] \<or> hd w = CHR ''.'')
    \<and> (\<forall>r'. stops (\<lambda>c. is_digit c \<or> c = CHR ''.'') r' \<longrightarrow> scan_frac (w @ r') = Some r')"
proof (cases "s \<noteq> [] \<and> hd s = CHR ''.''")
  case True
  then obtain t where s: "s = CHR ''.'' # t" by (cases s) auto
  then have "scan_digits1 t = Some r" using assms by (simp add: scan_frac_def)
  from scan_digits1_local [OF this] obtain w where "t = w @ r"
    "\<forall>r'. stops is_digit r' \<longrightarrow> scan_digits1 (w @ r') = Some r'" by blast
  then show ?thesis using s
    by (intro exI [of _ "CHR ''.'' # w"]) (auto simp: scan_frac_def stops_def)
next
  case False
  then have "r = s" using assms by (cases s) (auto simp: scan_frac_def)
  then show ?thesis by (intro exI [of _ "[]"]) (auto simp: scan_frac_def stops_def split: list.splits)
qed

lemma scan_exp_local:
  assumes "scan_exp s = Some r"
  shows "\<exists>w. s = w @ r \<and> (w = [] \<or> hd w = CHR ''e'' \<or> hd w = CHR ''E'')
    \<and> (\<forall>r'. stops (\<lambda>c. is_digit c \<or> c = CHR ''e'' \<or> c = CHR ''E'') r' \<longrightarrow> scan_exp (w @ r') = Some r')"
proof (cases "s \<noteq> [] \<and> (hd s = CHR ''e'' \<or> hd s = CHR ''E'')")
  case True
  then obtain c t where s: "s = c # t" "c = CHR ''e'' \<or> c = CHR ''E''" by (cases s) auto
  define m where "m = (if t \<noteq> [] \<and> (hd t = CHR ''+'' \<or> hd t = CHR ''-'') then [hd t] else [])"
  obtain u where t: "t = m @ u" "scan_digits1 u = Some r"
    using assms s by (cases t) (auto simp: scan_exp_def m_def split: if_splits)
  from scan_digits1_local [OF t(2)] obtain w where w: "u = w @ r" "w \<noteq> []"
    "\<forall>r'. stops is_digit r' \<longrightarrow> scan_digits1 (w @ r') = Some r'" by blast
  obtain d v where dv: "w = d # v" "is_digit d"
    using w(1,2) t(2) by (cases w) (auto simp: scan_digits1_def split: if_splits)
  then have d: "d \<noteq> CHR ''+''" "d \<noteq> CHR ''-''" by (auto simp: is_digit_def)
  have "scan_exp (c # m @ w @ r') = Some r'"
    if st: "stops (\<lambda>c. is_digit c \<or> c = CHR ''e'' \<or> c = CHR ''E'') r'" for r'
  proof -
    have "stops is_digit r'" using st by (auto simp: stops_def)
    then have "scan_digits1 (d # v @ r') = Some r'" using w(3) dv(1) by simp
    then show ?thesis using s(2) d dv(1) by (simp add: scan_exp_def m_def)
  qed
  then show ?thesis using s t(1) w(1) by (intro exI [of _ "c # m @ w"]) auto
next
  case False
  then have "r = s" using assms by (cases s) (auto simp: scan_exp_def)
  then show ?thesis by (intro exI [of _ "[]"]) (auto simp: scan_exp_def stops_def split: list.splits)
qed

lemma scan_number_local:
  assumes "scan_number s = Some r"
  shows "\<exists>w. s = w @ r \<and> w \<noteq> [] \<and> (\<forall>r'. delim r' \<longrightarrow> scan_number (w @ r') = Some r')"
proof -
  from assms obtain r1 r2 where r: "scan_int s = Some r1" "scan_frac r1 = Some r2" "scan_exp r2 = Some r"
    by (auto simp: scan_number_def bind_eq_Some_conv)
  from scan_int_local [OF r(1)] obtain w1 where w1: "s = w1 @ r1" "w1 \<noteq> []"
    "\<forall>r'. stops is_digit r' \<longrightarrow> scan_int (w1 @ r') = Some r'" by blast
  from scan_frac_local [OF r(2)] obtain w2 where w2: "r1 = w2 @ r2" "w2 = [] \<or> hd w2 = CHR ''.''"
    "\<forall>r'. stops (\<lambda>c. is_digit c \<or> c = CHR ''.'') r' \<longrightarrow> scan_frac (w2 @ r') = Some r'" by blast
  from scan_exp_local [OF r(3)] obtain w3 where w3: "r2 = w3 @ r"
    "w3 = [] \<or> hd w3 = CHR ''e'' \<or> hd w3 = CHR ''E''"
    "\<forall>r'. stops (\<lambda>c. is_digit c \<or> c = CHR ''e'' \<or> c = CHR ''E'') r' \<longrightarrow> scan_exp (w3 @ r') = Some r'" by blast
  have "scan_number (w1 @ w2 @ w3 @ r') = Some r'" if d: "delim r'" for r'
  proof -
    have p: "stops (\<lambda>c. is_digit c \<or> c = CHR ''.'' \<or> c = CHR ''e'' \<or> c = CHR ''E'') r'"
      using d delim_props by (cases r') (auto simp: stops_def)
    have 3: "stops (\<lambda>c. is_digit c \<or> c = CHR ''.'') (w3 @ r')"
      using p w3(2) by (cases w3) (auto simp: stops_def is_digit_def)
    have 2: "stops is_digit (w2 @ w3 @ r')"
      using 3 w2(2) by (cases w2) (auto simp: stops_def is_digit_def)
    have 1: "stops (\<lambda>c. is_digit c \<or> c = CHR ''e'' \<or> c = CHR ''E'') r'"
      using p by (auto simp: stops_def)
    show ?thesis using w1(3) 2 w2(3) 3 w3(3) 1 by (simp add: scan_number_def)
  qed
  then show ?thesis using w1 w2 w3 by (intro exI [of _ "w1 @ w2 @ w3"]) auto
qed

lemma scan_literal_local:
  assumes "scan_literal v s = Some r"
  shows "s = v @ r \<and> (\<forall>r'. scan_literal v (v @ r') = Some r')"
  using assms by (auto simp: scan_literal_def has_prefix_iff split: if_splits)

lemma scan_scalar_local:
  assumes "scan_scalar s = Some r"
  shows "\<exists>w. s = w @ r \<and> w \<noteq> [] \<and> (\<forall>r'. delim r' \<longrightarrow> scan_scalar (w @ r') = Some r')"
proof -
  obtain c t where s: "s = c # t" using assms by (cases s) (auto simp: scan_scalar_def)
  have lit: ?thesis if "scan_literal v s = Some r" "v = c # v'" "\<And>u. scan_scalar (c # u) = scan_literal v (c # u)"
    for v v'
    using scan_literal_local [OF that(1)] that(2,3) by (intro exI [of _ v]) auto
  consider (str) "c = quote" | (num) "c = CHR ''-'' \<or> is_digit c" | (t) "c = CHR ''t''"
    | (f) "c = CHR ''f''" | (n) "c = CHR ''n''"
    using assms s by (auto simp: scan_scalar_def split: if_splits)
  then show ?thesis
  proof cases
    case str
    then obtain b where "t = b @ quote # r" "\<forall>u. scan_string (b @ quote # u) = Some u"
      using assms s scan_string_local [of t r] by (auto simp: scan_scalar_def)
    then show ?thesis using s str by (intro exI [of _ "c # b @ [quote]"]) (auto simp: scan_scalar_def)
  next
    case num
    then have "c \<noteq> quote" by (auto simp: quote_def is_digit_def)
    then have sc: "scan_scalar (c # u) = scan_number (c # u)" for u using num by (simp add: scan_scalar_def)
    then obtain w where w: "s = w @ r" "w \<noteq> []" "\<forall>r'. delim r' \<longrightarrow> scan_number (w @ r') = Some r'"
      using assms s scan_number_local by metis
    obtain w' where "w = c # w'" using w(1,2) s by (cases w) auto
    then show ?thesis using w sc by (intro exI [of _ w]) auto
  next
    case t
    show ?thesis by (rule lit [of "''true''" "''rue''"])
        (use assms s t in \<open>auto simp: scan_scalar_def quote_def is_digit_def\<close>)
  next
    case f
    show ?thesis by (rule lit [of "''false''" "''alse''"])
        (use assms s f in \<open>auto simp: scan_scalar_def quote_def is_digit_def\<close>)
  next
    case n
    show ?thesis by (rule lit [of "''null''" "''ull''"])
        (use assms s n in \<open>auto simp: scan_scalar_def quote_def is_digit_def\<close>)
  qed
qed

section \<open>Marshalled lengths and spaces\<close>

lemma json_space_space: "json_space c \<Longrightarrow> byte c < 128 \<and> unicode_space (byte c)"
  unfolding json_space_def by (elim disjE) (simp_all add: unicode_space_def)

lemma trim_space_json:
  assumes "list_all json_space p" "list_all json_space q"
  shows "trim_space (p @ s @ q) = trim_space s"
proof -
  have a: "trim_space (p @ t) = trim_space t" for t
    using assms(1) by (induction p) (auto simp: json_space_space trim_space_Cons)
  have b: "trim_space (t @ q) = trim_space t" for t
    using assms(2)
  proof (induction q rule: rev_induct)
    case (snoc x q)
    then show ?case using trim_space_snoc [of x "t @ q"] json_space_space [of x] by simp
  qed simp
  show ?thesis by (simp add: a b)
qed

lemma length_marshal_chunk: "snd p \<noteq> [] \<Longrightarrow> length (marshal_chunk p) \<le> 6 * length (snd p)"
  by (cases p; cases "snd p") (auto simp: marshal_chunk_def marshal_ascii_def)

lemma length_marshal_body: "length (marshal_body s) \<le> 6 * length s"
proof (induction s rule: rune_chunks.induct)
  case (2 c s)
  obtain r n where d: "decode_rune (c # s) = (r, n)" by fastforce
  have "length (marshal_chunk (r, c # take (n - 1) s)) \<le> 6 * Suc (length (take (n - 1) s))"
    using length_marshal_chunk [of "(r, c # take (n - 1) s)"] by simp
  moreover have "length (marshal_body (drop (n - 1) s)) \<le> 6 * (length s - (n - 1))"
    using "2.IH" [OF d [symmetric] refl] by simp
  moreover have "n - 1 \<le> length s" by (rule decode_rune_size [OF d])
  ultimately show ?case by (simp add: marshal_body_def rune_chunks.simps(2) d)
qed (simp add: marshal_body_def)

lemma length_marshal: "length (json_marshal_string v) \<le> 6 * length v + 2"
  using length_marshal_body [of v] by (simp add: json_marshal_string_def)

lemma scan_int_format_nat: "scan_int (format_nat n) = Some []"
proof -
  obtain c u where f: "format_nat n = c # u" by (metis format_nat_neq_Nil neq_Nil_conv)
  have d: "is_digit c" "list_all is_digit u" using format_nat_digits [of n] f by simp_all
  show ?thesis
  proof (cases "n = 0")
    case True
    then have "format_nat n = ''0''" by (subst format_nat.simps) (simp add: digit_char_def char_of_eqI)
    then show ?thesis by (simp add: scan_int_def)
  next
    case False
    then have "c \<noteq> CHR ''0''" using hd_format_nat_zero [of n] f by simp
    then show ?thesis using d f is_digit_not_sign [OF d(1)]
      by (auto simp: scan_int_def list_all_iff)
  qed
qed

lemma skip_ws_punct: "g \<in> {CHR '','', CHR ''}'', CHR '':'', quote} \<Longrightarrow> skip_ws (g # s) = g # s"
  by (auto simp: json_space_def quote_def)

lemmas json_eval [eval_defs] =
  json_space_def skip_ws_def json_hex_def json_hex_val_def quote_def backslash_def
  scan_digits1_def scan_int_def scan_frac_def scan_exp_def scan_number_def scan_literal_def
  scan_scalar_def hex_lower_def marshal_ascii_def marshal_chunk_def marshal_body_def
  json_marshal_string_def hex4_def surrogate_def getu4_def utf16_pair_def unescape_simple_def
  unquote.simps(2) scan_string.simps(2)

end
