(* ===== verification/Go_JSON_Values.thy ===== *)
theory Go_JSON_Values
  imports Go_JSON
begin

text \<open>
  JSON values. The scanner of \<open>encoding/json\<close> is a recursive descent over the text with Go's nesting bound
  of 10000; its results are trees that keep the raw text of every value. The parsers take fuel:
  \<open>parse_json\<close> gives two units per byte, and \<open>parse_fuel_enough\<close> shows that more fuel changes nothing.
  \<open>parse_reads\<close> shows that a value is read the same way wherever it stands. On the trees are defined
  \<open>json.Valid\<close>, the three uses of \<open>json.Unmarshal\<close> and the token stream of \<open>json.Decoder\<close>.
\<close>

section \<open>Values\<close>

datatype jtree =
    JScalar (raw: bytes)
  | JArray (raw: bytes) "jtree list"
  | JObject (raw: bytes) "(bytes \<times> jtree) list"

definition upto_rest :: "bytes \<Rightarrow> bytes \<Rightarrow> bytes" where
  "upto_rest s r = take (length s - length r) s"

text \<open>The value of a scanned string; \<open>unquote_scanned\<close> shows that the default is never used.\<close>

definition unquoted :: "bytes \<Rightarrow> bytes" where
  "unquoted b = (case unquote b of Some v \<Rightarrow> v | None \<Rightarrow> [])"

definition string_body :: "bytes \<Rightarrow> bytes \<Rightarrow> bytes" where
  "string_body r rest = take (length r - length rest - 1) r"

text \<open>
  The parsers start at the first byte that is not a space. Their second argument is the nesting that is
  still allowed.
\<close>

fun parse_value :: "nat \<Rightarrow> nat \<Rightarrow> bytes \<Rightarrow> (jtree \<times> bytes) option"
  and parse_members :: "nat \<Rightarrow> nat \<Rightarrow> bytes \<Rightarrow> ((bytes \<times> jtree) list \<times> bytes) option"
  and parse_elements :: "nat \<Rightarrow> nat \<Rightarrow> bytes \<Rightarrow> (jtree list \<times> bytes) option" where
  "parse_value 0 d s = None"
| "parse_value (Suc f) d s =
     (case s of
        [] \<Rightarrow> None
      | c # r \<Rightarrow>
          if c = CHR ''{'' then
            (if d = 0 then None
             else case skip_ws r of
                 [] \<Rightarrow> None
               | e # u \<Rightarrow>
                   if e = CHR ''}'' then Some (JObject (upto_rest s u) [], u)
                   else map_option (\<lambda>(ms, v). (JObject (upto_rest s v) ms, v))
                          (parse_members f (d - 1) (e # u)))
          else if c = CHR ''['' then
            (if d = 0 then None
             else case skip_ws r of
                 [] \<Rightarrow> None
               | e # u \<Rightarrow>
                   if e = CHR '']'' then Some (JArray (upto_rest s u) [], u)
                   else map_option (\<lambda>(ts, v). (JArray (upto_rest s v) ts, v))
                          (parse_elements f (d - 1) (e # u)))
          else map_option (\<lambda>u. (JScalar (upto_rest s u), u)) (scan_scalar s))"
| "parse_members 0 d s = None"
| "parse_members (Suc f) d s =
     (case s of
        [] \<Rightarrow> None
      | c # r \<Rightarrow>
          if c \<noteq> quote then None
          else case scan_string r of
              None \<Rightarrow> None
            | Some r1 \<Rightarrow>
                (case skip_ws r1 of
                   [] \<Rightarrow> None
                 | e # r2 \<Rightarrow>
                     if e \<noteq> CHR '':'' then None
                     else case parse_value f d (skip_ws r2) of
                         None \<Rightarrow> None
                       | Some (t, r3) \<Rightarrow>
                           (case skip_ws r3 of
                              [] \<Rightarrow> None
                            | g # r4 \<Rightarrow>
                                if g = CHR ''}'' then Some ([(unquoted (string_body r r1), t)], r4)
                                else if g = CHR '','' then
                                  map_option (\<lambda>(ms, v). ((unquoted (string_body r r1), t) # ms, v))
                                    (parse_members f d (skip_ws r4))
                                else None)))"
| "parse_elements 0 d s = None"
| "parse_elements (Suc f) d s =
     (case parse_value f d s of
        None \<Rightarrow> None
      | Some (t, r3) \<Rightarrow>
          (case skip_ws r3 of
             [] \<Rightarrow> None
           | g # r4 \<Rightarrow>
               if g = CHR '']'' then Some ([t], r4)
               else if g = CHR '','' then
                 map_option (\<lambda>(ts, v). (t # ts, v)) (parse_elements f d (skip_ws r4))
               else None))"

declare parse_value.simps(2) [simp del] parse_members.simps(2) [simp del]
  parse_elements.simps(2) [simp del]

definition max_nesting :: nat where
  "max_nesting = 10000"

definition parse_json :: "bytes \<Rightarrow> jtree option" where
  "parse_json s =
     (case parse_value (2 * length s) max_nesting (skip_ws s) of
        None \<Rightarrow> None
      | Some (t, r) \<Rightarrow> if skip_ws r = [] then Some t else None)"

definition json_valid :: "bytes \<Rightarrow> bool" where
  "json_valid s \<longleftrightarrow> parse_json s \<noteq> None"

text \<open>Container nesting.\<close>

fun depth :: "jtree \<Rightarrow> nat" where
  "depth (JScalar _) = 0"
| "depth (JArray _ ts) = Suc (foldr (\<lambda>t m. max (depth t) m) ts 0)"
| "depth (JObject _ ms) = Suc (foldr (\<lambda>p m. max (depth (snd p)) m) ms 0)"

section \<open>Parsing is local\<close>

lemma upto_rest_append [simp]: "upto_rest (w @ r) r = w"
  by (simp add: upto_rest_def)

lemma upto_rest_Cons_append: "upto_rest (c # w @ r) r = c # w"
  using upto_rest_append [of "c # w" r] by simp

lemma string_body_append: "string_body (b @ quote # t) t = b"
  by (simp add: string_body_def)

lemma foldr_max_le: "foldr (\<lambda>t m. max (g t) m) ts 0 \<le> d \<longleftrightarrow> (\<forall>t\<in>set ts. g t \<le> (d::nat))"
  by (induction ts) auto

lemma depth_le_JArray: "depth (JArray w ts) \<le> Suc d \<longleftrightarrow> (\<forall>t\<in>set ts. depth t \<le> d)"
  by (simp add: foldr_max_le)

lemma depth_le_JObject: "depth (JObject w ms) \<le> Suc d \<longleftrightarrow> (\<forall>p\<in>set ms. depth (snd p) \<le> d)"
  by (simp add: foldr_max_le)

text \<open>A step that reads a prefix of its input, whatever follows it.\<close>

definition reads_value :: "nat \<Rightarrow> nat \<Rightarrow> bytes \<Rightarrow> jtree \<Rightarrow> bytes \<Rightarrow> bool" where
  "reads_value f d s t r \<longleftrightarrow> s = raw t @ r \<and> raw t \<noteq> [] \<and> depth t \<le> d \<and>
     (\<forall>r' d'. delim r' \<longrightarrow> depth t \<le> d' \<longrightarrow> parse_value f d' (raw t @ r') = Some (t, r'))"

definition reads_members :: "nat \<Rightarrow> nat \<Rightarrow> bytes \<Rightarrow> (bytes \<times> jtree) list \<Rightarrow> bytes \<Rightarrow> bool" where
  "reads_members f d s ms r \<longleftrightarrow> (\<forall>p\<in>set ms. depth (snd p) \<le> d) \<and>
     (\<exists>w. s = w @ r \<and> w \<noteq> [] \<and> (\<forall>r' d'. (\<forall>p\<in>set ms. depth (snd p) \<le> d') \<longrightarrow>
        parse_members f d' (w @ r') = Some (ms, r')))"

definition reads_elements :: "nat \<Rightarrow> nat \<Rightarrow> bytes \<Rightarrow> jtree list \<Rightarrow> bytes \<Rightarrow> bool" where
  "reads_elements f d s ts r \<longleftrightarrow> (\<forall>t\<in>set ts. depth t \<le> d) \<and>
     (\<exists>w. s = w @ r \<and> w \<noteq> [] \<and> (\<forall>r' d'. (\<forall>t\<in>set ts. depth t \<le> d') \<longrightarrow>
        parse_elements f d' (w @ r') = Some (ts, r')))"

text \<open>What comes after a value inside a container: spaces and one punctuation byte.\<close>

lemma after_value:
  assumes "skip_ws r = g # u" "g \<in> {CHR '','', CHR ''}'', CHR '']''}"
  obtains p where "r = p @ g # u" "\<And>v. delim (p @ g # v)" "\<And>v. skip_ws (p @ g # v) = g # v"
proof -
  obtain p where p: "r = p @ g # u" "list_all json_space p" and g: "\<not> json_space g"
    using skip_ws_Cons [OF assms(1)] by blast
  have "skip_ws (p @ g # v) = g # v" for v using p(2) g by (simp add: skip_ws_append)
  moreover from this have "delim (p @ g # v)" for v using assms(2) by (rule delim_skip_ws)
  ultimately show thesis using that p(1) by blast
qed

lemma reads_elements_step:
  assumes IH: "\<And>d s t r. parse_value f d s = Some (t, r) \<Longrightarrow> reads_value f d s t r"
    "\<And>d s ts r. parse_elements f d s = Some (ts, r) \<Longrightarrow> reads_elements f d s ts r"
    and p: "parse_elements (Suc f) d s = Some (ts, r)"
  shows "reads_elements (Suc f) d s ts r"
proof -
  from p obtain t r3 g r4 where v: "parse_value f d s = Some (t, r3)" and sk: "skip_ws r3 = g # r4"
    and g: "g = CHR '']'' \<and> ts = [t] \<and> r = r4
      \<or> g = CHR '','' \<and> (\<exists>us. parse_elements f d (skip_ws r4) = Some (us, r) \<and> ts = t # us)"
    by (auto simp: parse_elements.simps(2) split: option.splits list.splits if_splits)
  note rv = IH(1) [OF v, unfolded reads_value_def]
  obtain q where q: "r3 = q @ g # r4" "\<And>v. delim (q @ g # v)" "\<And>v. skip_ws (q @ g # v) = g # v"
    using after_value [OF sk] g by blast
  from g show ?thesis
  proof (elim disjE conjE exE)
    assume *: "g = CHR '']''" "ts = [t]" "r = r4"
    have "parse_elements (Suc f) d' (raw t @ q @ g # r') = Some (ts, r')" if "depth t \<le> d'" for r' d'
      using rv q(2,3) that * by (simp add: parse_elements.simps(2))
    then show ?thesis unfolding reads_elements_def using rv q(1) *
      by (auto intro!: exI [of _ "raw t @ q @ [g]"])
  next
    fix us
    assume *: "g = CHR '',''" "parse_elements f d (skip_ws r4) = Some (us, r)" "ts = t # us"
    from IH(2) [OF *(2), unfolded reads_elements_def] obtain w where
      w: "skip_ws r4 = w @ r" "w \<noteq> []" "\<forall>t\<in>set us. depth t \<le> d"
      "\<forall>r' d'. (\<forall>t\<in>set us. depth t \<le> d') \<longrightarrow> parse_elements f d' (w @ r') = Some (us, r')" by blast
    obtain c w' where c: "w = c # w'" using w(2) by (cases w) auto
    obtain p where p: "r4 = p @ c # w' @ r" "list_all json_space p" "\<not> json_space c"
      using skip_ws_Cons [of r4 c "w' @ r"] w(1) c by auto
    have "parse_elements (Suc f) d' (raw t @ q @ g # p @ w @ r') = Some (ts, r')"
      if "\<forall>t\<in>set ts. depth t \<le> d'" for r' d'
    proof -
      have "skip_ws (p @ w @ r') = w @ r'" using p c by (simp add: skip_ws_append)
      then show ?thesis using rv q(2,3) that * w(4) by (simp add: parse_elements.simps(2))
    qed
    then show ?thesis unfolding reads_elements_def using rv q(1) * w(3) p(1) c
      by (auto intro!: exI [of _ "raw t @ q @ g # p @ w"])
  qed
qed

lemma reads_members_step:
  assumes IH: "\<And>d s t r. parse_value f d s = Some (t, r) \<Longrightarrow> reads_value f d s t r"
    "\<And>d s ms r. parse_members f d s = Some (ms, r) \<Longrightarrow> reads_members f d s ms r"
    and p: "parse_members (Suc f) d s = Some (ms, r)"
  shows "reads_members (Suc f) d s ms r"
proof -
  from p obtain x r1 r2 t r3 g r4 where s: "s = quote # x" and st: "scan_string x = Some r1"
    and col: "skip_ws r1 = CHR '':'' # r2"
    and v: "parse_value f d (skip_ws r2) = Some (t, r3)" and sk: "skip_ws r3 = g # r4"
    and g: "g = CHR ''}'' \<and> ms = [(unquoted (string_body x r1), t)] \<and> r = r4
      \<or> g = CHR '','' \<and> (\<exists>us. parse_members f d (skip_ws r4) = Some (us, r)
            \<and> ms = (unquoted (string_body x r1), t) # us)"
    by (auto simp: parse_members.simps(2) split: option.splits list.splits if_splits)
  note rv = IH(1) [OF v, unfolded reads_value_def]
  obtain b where b: "x = b @ quote # r1" "\<forall>u. scan_string (b @ quote # u) = Some u"
    using scan_string_local [OF st] by blast
  define k where "k = unquoted (string_body x r1)"
  have kb: "unquoted (string_body (b @ quote # u) u) = k" for u
    by (simp add: k_def b(1) string_body_append)
  obtain a where a: "r1 = a @ CHR '':'' # r2" "list_all json_space a"
    using skip_ws_Cons [OF col] by blast
  obtain c w' where c: "raw t = c # w'" using rv by (cases "raw t") auto
  obtain e where e: "r2 = e @ raw t @ r3" "list_all json_space e" "\<not> json_space c"
    using skip_ws_Cons [of r2 c "w' @ r3"] rv c by auto
  obtain q where q: "r3 = q @ g # r4" "\<And>v. delim (q @ g # v)" "\<And>v. skip_ws (q @ g # v) = g # v"
    using after_value [OF sk] g by blast
  have nc: "\<not> json_space CHR '':''" by (simp add: json_space_def)
  have pre: "parse_members (Suc f) d' (quote # b @ quote # a @ CHR '':'' # e @ raw t @ q @ g # z)
      = (if g = CHR ''}'' then Some ([(k, t)], z)
         else if g = CHR '','' then map_option (\<lambda>(ms, v). ((k, t) # ms, v)) (parse_members f d' (skip_ws z))
         else None)" if "depth t \<le> d'" for d' z
  proof -
    have "skip_ws (a @ CHR '':'' # y) = CHR '':'' # y" for y
      using a(2) nc by (simp add: skip_ws_append)
    moreover have "skip_ws (e @ raw t @ y) = raw t @ y" for y
      using e(2,3) c by (simp add: skip_ws_append)
    ultimately show ?thesis using rv q(2,3) that b(2) kb by (simp add: parse_members.simps(2))
  qed
  from g show ?thesis
  proof (elim disjE conjE exE)
    assume *: "g = CHR ''}''" "ms = [(unquoted (string_body x r1), t)]" "r = r4"
    then show ?thesis unfolding reads_members_def using rv q(1) pre s b(1) a(1) e(1) k_def
      by (auto intro!: exI [of _ "quote # b @ quote # a @ CHR '':'' # e @ raw t @ q @ [g]"])
  next
    fix us
    assume *: "g = CHR '',''" "parse_members f d (skip_ws r4) = Some (us, r)"
      "ms = (unquoted (string_body x r1), t) # us"
    from IH(2) [OF *(2), unfolded reads_members_def] obtain w where
      w: "skip_ws r4 = w @ r" "w \<noteq> []" "\<forall>p\<in>set us. depth (snd p) \<le> d"
      "\<forall>r' d'. (\<forall>p\<in>set us. depth (snd p) \<le> d') \<longrightarrow> parse_members f d' (w @ r') = Some (us, r')" by blast
    obtain h w'' where h: "w = h # w''" using w(2) by (cases w) auto
    obtain p where p: "r4 = p @ h # w'' @ r" "list_all json_space p" "\<not> json_space h"
      using skip_ws_Cons [of r4 h "w'' @ r"] w(1) h by auto
    have "parse_members (Suc f) d' (quote # b @ quote # a @ CHR '':'' # e @ raw t @ q @ g # p @ w @ r')
        = Some (ms, r')" if "\<forall>p\<in>set ms. depth (snd p) \<le> d'" for r' d'
    proof -
      have "skip_ws (p @ w @ r') = w @ r'" using p h by (simp add: skip_ws_append)
      then show ?thesis using pre [of d' "p @ w @ r'"] that * w(4) k_def by simp
    qed
    then show ?thesis unfolding reads_members_def using rv q(1) * w(3) p(1) h s b(1) a(1) e(1)
      by (auto intro!: exI [of _ "quote # b @ quote # a @ CHR '':'' # e @ raw t @ q @ g # p @ w"])
  qed
qed

lemma reads_value_object:
  assumes IH: "\<And>d s ms r. parse_members f d s = Some (ms, r) \<Longrightarrow> reads_members f d s ms r"
    and p: "parse_value (Suc f) d (CHR ''{'' # x) = Some (t, r)"
  shows "reads_value (Suc f) d (CHR ''{'' # x) t r"
proof -
  let ?c = "CHR ''{''"
  obtain e u where e: "d \<noteq> 0" "skip_ws x = e # u"
    and cs: "e = CHR ''}'' \<and> t = JObject (upto_rest (?c # x) u) [] \<and> r = u
      \<or> e \<noteq> CHR ''}'' \<and> (\<exists>ms. parse_members f (d - 1) (e # u) = Some (ms, r)
            \<and> t = JObject (upto_rest (?c # x) r) ms)"
    using p by (auto simp: parse_value.simps(2) split: list.splits if_splits)
  obtain a where a: "x = a @ e # u" "list_all json_space a" "\<not> json_space e"
    using skip_ws_Cons [OF e(2)] by blast
  have sk: "skip_ws (a @ e # y) = e # y" for y using a by (simp add: skip_ws_append)
  from cs show ?thesis
  proof (elim disjE conjE exE)
    assume *: "e = CHR ''}''" "t = JObject (upto_rest (?c # x) u) []" "r = u"
    have s: "?c # x = (?c # a @ [e]) @ u" using a by simp
    then have t: "t = JObject (?c # a @ [e]) []" using *(2) by (metis upto_rest_append)
    have "parse_value (Suc f) d' ((?c # a @ [e]) @ r') = Some (t, r')" if "1 \<le> d'" for r' d'
      using that *(1) sk upto_rest_append [of "?c # a @ [e]" r'] t by (simp add: parse_value.simps(2))
    then show ?thesis using s *(3) t e(1) by (auto simp: reads_value_def)
  next
    fix ms
    assume *: "e \<noteq> CHR ''}''" "parse_members f (d - 1) (e # u) = Some (ms, r)"
      "t = JObject (upto_rest (?c # x) r) ms"
    from IH [OF *(2), unfolded reads_members_def] obtain w where
      w: "e # u = w @ r" "w \<noteq> []" "\<forall>p\<in>set ms. depth (snd p) \<le> d - 1"
      "\<forall>r' d'. (\<forall>p\<in>set ms. depth (snd p) \<le> d') \<longrightarrow> parse_members f d' (w @ r') = Some (ms, r')"
      by blast
    obtain w' where w': "w = e # w'" using w(1,2) by (cases w) auto
    have s: "?c # x = (?c # a @ w) @ r" using a w(1) by simp
    then have t: "t = JObject (?c # a @ w) ms" using *(3) by (metis upto_rest_append)
    have dt: "depth t \<le> d' \<longleftrightarrow> d' \<noteq> 0 \<and> (\<forall>p\<in>set ms. depth (snd p) \<le> d' - 1)" for d'
      using t depth_le_JObject [of "?c # a @ w" ms "d' - 1"] by (cases d') auto
    have "parse_value (Suc f) d' ((?c # a @ w) @ r') = Some (t, r')" if "depth t \<le> d'" for r' d'
      using that [unfolded dt] w(4) *(1) sk upto_rest_append [of "?c # a @ w" r'] t w'
      by (simp add: parse_value.simps(2))
    moreover have "depth t \<le> d" using w(3) e(1) dt by simp
    ultimately show ?thesis using s t by (auto simp: reads_value_def)
  qed
qed

lemma reads_value_array:
  assumes IH: "\<And>d s ms r. parse_elements f d s = Some (ms, r) \<Longrightarrow> reads_elements f d s ms r"
    and p: "parse_value (Suc f) d (CHR ''['' # x) = Some (t, r)"
  shows "reads_value (Suc f) d (CHR ''['' # x) t r"
proof -
  let ?c = "CHR ''[''"
  obtain e u where e: "d \<noteq> 0" "skip_ws x = e # u"
    and cs: "e = CHR '']'' \<and> t = JArray (upto_rest (?c # x) u) [] \<and> r = u
      \<or> e \<noteq> CHR '']'' \<and> (\<exists>ms. parse_elements f (d - 1) (e # u) = Some (ms, r)
            \<and> t = JArray (upto_rest (?c # x) r) ms)"
    using p by (auto simp: parse_value.simps(2) split: list.splits if_splits)
  obtain a where a: "x = a @ e # u" "list_all json_space a" "\<not> json_space e"
    using skip_ws_Cons [OF e(2)] by blast
  have sk: "skip_ws (a @ e # y) = e # y" for y using a by (simp add: skip_ws_append)
  from cs show ?thesis
  proof (elim disjE conjE exE)
    assume *: "e = CHR '']''" "t = JArray (upto_rest (?c # x) u) []" "r = u"
    have s: "?c # x = (?c # a @ [e]) @ u" using a by simp
    then have t: "t = JArray (?c # a @ [e]) []" using *(2) by (metis upto_rest_append)
    have "parse_value (Suc f) d' ((?c # a @ [e]) @ r') = Some (t, r')" if "1 \<le> d'" for r' d'
      using that *(1) sk upto_rest_append [of "?c # a @ [e]" r'] t by (simp add: parse_value.simps(2))
    then show ?thesis using s *(3) t e(1) by (auto simp: reads_value_def)
  next
    fix ms
    assume *: "e \<noteq> CHR '']''" "parse_elements f (d - 1) (e # u) = Some (ms, r)"
      "t = JArray (upto_rest (?c # x) r) ms"
    from IH [OF *(2), unfolded reads_elements_def] obtain w where
      w: "e # u = w @ r" "w \<noteq> []" "\<forall>p\<in>set ms. depth p \<le> d - 1"
      "\<forall>r' d'. (\<forall>p\<in>set ms. depth p \<le> d') \<longrightarrow> parse_elements f d' (w @ r') = Some (ms, r')"
      by blast
    obtain w' where w': "w = e # w'" using w(1,2) by (cases w) auto
    have s: "?c # x = (?c # a @ w) @ r" using a w(1) by simp
    then have t: "t = JArray (?c # a @ w) ms" using *(3) by (metis upto_rest_append)
    have dt: "depth t \<le> d' \<longleftrightarrow> d' \<noteq> 0 \<and> (\<forall>p\<in>set ms. depth p \<le> d' - 1)" for d'
      using t depth_le_JArray [of "?c # a @ w" ms "d' - 1"] by (cases d') auto
    have "parse_value (Suc f) d' ((?c # a @ w) @ r') = Some (t, r')" if "depth t \<le> d'" for r' d'
      using that [unfolded dt] w(4) *(1) sk upto_rest_append [of "?c # a @ w" r'] t w'
      by (simp add: parse_value.simps(2))
    moreover have "depth t \<le> d" using w(3) e(1) dt by simp
    ultimately show ?thesis using s t by (auto simp: reads_value_def)
  qed
qed

lemma reads_value_scalar:
  assumes "c \<noteq> CHR ''{''" "c \<noteq> CHR ''[''" and "parse_value (Suc f) d (c # x) = Some (t, r)"
  shows "reads_value (Suc f) d (c # x) t r"
proof -
  obtain sc: "scan_scalar (c # x) = Some r" and t: "t = JScalar (upto_rest (c # x) r)"
    using assms by (auto simp: parse_value.simps(2))
  from scan_scalar_local [OF sc] obtain w where
    w: "c # x = w @ r" "w \<noteq> []" "\<forall>r'. delim r' \<longrightarrow> scan_scalar (w @ r') = Some r'" by blast
  moreover obtain w' where "w = c # w'" using w by (cases w) auto
  ultimately show ?thesis using assms(1,2) t
    by (auto simp: reads_value_def parse_value.simps(2) upto_rest_Cons_append)
qed

lemma reads_value_step:
  assumes "\<And>d s ms r. parse_members f d s = Some (ms, r) \<Longrightarrow> reads_members f d s ms r"
    "\<And>d s ts r. parse_elements f d s = Some (ts, r) \<Longrightarrow> reads_elements f d s ts r"
    and p: "parse_value (Suc f) d s = Some (t, r)"
  shows "reads_value (Suc f) d s t r"
proof -
  obtain c x where s: "s = c # x" using p by (cases s) (auto simp: parse_value.simps(2))
  consider "c = CHR ''{''" | "c = CHR ''[''" | "c \<noteq> CHR ''{''" "c \<noteq> CHR ''[''" by blast
  then show ?thesis
  proof cases
    case 1
    show ?thesis unfolding s 1 by (rule reads_value_object) (use assms(1) p s 1 in auto)
  next
    case 2
    show ?thesis unfolding s 2 by (rule reads_value_array) (use assms(2) p s 2 in auto)
  next
    case 3
    then show ?thesis using p unfolding s by (rule reads_value_scalar)
  qed
qed

lemma parse_reads:
  "parse_value f d s = Some (t, r) \<Longrightarrow> reads_value f d s t r"
  "parse_members f d s = Some (ms, r) \<Longrightarrow> reads_members f d s ms r"
  "parse_elements f d s = Some (ts, r) \<Longrightarrow> reads_elements f d s ts r"
proof (induction f arbitrary: d s t ms ts r)
  case (Suc f)
  { case 1 show ?case by (rule reads_value_step) (use Suc.IH(2,3) 1 in auto) }
  { case 2 show ?case by (rule reads_members_step) (use Suc.IH(1,2) 2 in auto) }
  { case 3 show ?case by (rule reads_elements_step) (use Suc.IH(1,3) 3 in auto) }
qed simp_all

lemma parse_value_shorter: "parse_value f d s = Some (t, r) \<Longrightarrow> length r < length s"
  by (drule parse_reads(1)) (auto simp: reads_value_def)

lemma parse_members_fuel_step:
  assumes "\<And>d s. 2 * length s \<le> f \<Longrightarrow> parse_value (Suc f) d s = parse_value f d s"
    "\<And>d s. 2 * length s \<le> f \<Longrightarrow> parse_members (Suc f) d s = parse_members f d s"
    and l: "2 * length s \<le> Suc f"
  shows "parse_members (Suc (Suc f)) d s = parse_members (Suc f) d s"
proof -
  have v: "parse_value (Suc f) d (skip_ws r2) = parse_value f d (skip_ws r2)"
    if "s = c # r" "scan_string r = Some r1" "skip_ws r1 = e # r2" for c r r1 e r2
  proof (rule assms(1))
    show "2 * length (skip_ws r2) \<le> f"
      using that l scan_string_length [OF that(2)] length_skip_ws [of r1] length_skip_ws [of r2] by simp
  qed
  have m: "parse_members (Suc f) d (skip_ws r4) = parse_members f d (skip_ws r4)"
    if "s = c # r" "scan_string r = Some r1" "skip_ws r1 = e # r2"
      "parse_value f d (skip_ws r2) = Some (t, r3)" "skip_ws r3 = g # r4" for c r r1 e r2 t r3 g r4
  proof (rule assms(2))
    show "2 * length (skip_ws r4) \<le> f"
      using that l scan_string_length [OF that(2)] length_skip_ws [of r1] length_skip_ws [of r2]
        parse_value_shorter [OF that(4)] length_skip_ws [of r3] length_skip_ws [of r4] by simp
  qed
  show ?thesis
    by (simp add: parse_members.simps(2) [of _ d s] v m split: list.split option.split prod.split)
qed

lemma parse_elements_fuel_step:
  assumes "\<And>d s. 2 * length s \<le> f \<Longrightarrow> parse_value (Suc f) d s = parse_value f d s"
    "\<And>d s. 2 * length s < f \<Longrightarrow> parse_elements (Suc f) d s = parse_elements f d s"
    and l: "2 * length s < Suc f"
  shows "parse_elements (Suc (Suc f)) d s = parse_elements (Suc f) d s"
proof -
  have v: "parse_value (Suc f) d s = parse_value f d s" using l by (intro assms(1)) simp
  have m: "parse_elements (Suc f) d (skip_ws r4) = parse_elements f d (skip_ws r4)"
    if "parse_value f d s = Some (t, r3)" "skip_ws r3 = g # r4" for t r3 g r4
  proof (rule assms(2))
    show "2 * length (skip_ws r4) < f"
      using that l parse_value_shorter [OF that(1)] length_skip_ws [of r3] length_skip_ws [of r4] by simp
  qed
  show ?thesis
    by (simp add: parse_elements.simps(2) [of _ d s] v m split: list.split option.split prod.split)
qed

lemma parse_fuel_step:
  "2 * length s \<le> f \<Longrightarrow> parse_value (Suc f) d s = parse_value f d s"
  "2 * length s \<le> f \<Longrightarrow> parse_members (Suc f) d s = parse_members f d s"
  "2 * length s < f \<Longrightarrow> parse_elements (Suc f) d s = parse_elements f d s"
proof (induction f arbitrary: d s)
  case 0
  { case 1 then show ?case by (simp add: parse_value.simps(2)) }
  { case 2 then show ?case by (simp add: parse_members.simps(2)) }
  { case 3 then show ?case by simp }
next
  case (Suc f)
  { case 1
    have l: "2 * length (e # u) < f" "2 * length (e # u) \<le> f" if "s = c # r" "skip_ws r = e # u" for c r e u
      using that 1 length_skip_ws [of r] by simp_all
    have m: "parse_members (Suc f) (d - 1) (e # u) = parse_members f (d - 1) (e # u)"
      if "s = c # r" "skip_ws r = e # u" for c r e u
      using Suc.IH(2) l(2) that by blast
    have e: "parse_elements (Suc f) (d - 1) (e # u) = parse_elements f (d - 1) (e # u)"
      if "s = c # r" "skip_ws r = e # u" for c r e u
      using Suc.IH(3) l(1) that by blast
    show ?case by (simp add: parse_value.simps(2) [of _ d s] m [simplified] e [simplified] split: list.split)
  }
  { case 2 show ?case by (rule parse_members_fuel_step) (use Suc.IH(1,2) 2 in auto) }
  { case 3 show ?case by (rule parse_elements_fuel_step) (use Suc.IH(1,3) 3 in auto) }
qed

lemma parse_fuel_enough:
  assumes "2 * length s \<le> f"
  shows "parse_value f d s = parse_value (2 * length s) d s"
  using assms by (induction f rule: dec_induct) (auto simp: parse_fuel_step)

section \<open>Values at any place\<close>

lemma parse_mono_step:
  "parse_value f d s = Some x \<Longrightarrow> parse_value (Suc f) d s = Some x"
  "parse_members f d s = Some y \<Longrightarrow> parse_members (Suc f) d s = Some y"
  "parse_elements f d s = Some z \<Longrightarrow> parse_elements (Suc f) d s = Some z"
proof (induction f arbitrary: d s x y z)
  case (Suc f)
  { case 1
    then show ?case using Suc.IH(2,3)
      by (simp add: parse_value.simps(2) [of _ d s] split: list.splits if_splits) fastforce+
  }
  { case 2
    then show ?case using Suc.IH(1,2)
      by (simp add: parse_members.simps(2) [of _ d s] split: list.splits if_splits option.splits prod.splits)
         (fastforce simp: Suc.IH)+
  }
  { case 3
    then show ?case using Suc.IH(1,3)
      by (simp add: parse_elements.simps(2) [of _ d s] split: list.splits if_splits option.splits prod.splits)
         (fastforce simp: Suc.IH)+
  }
qed simp_all

lemma parse_mono:
  assumes "parse_value f d s = Some x" and "f \<le> f'"
  shows "parse_value f' d s = Some x"
  using assms(2,1) by (induction f' rule: dec_induct) (auto simp: parse_mono_step)

definition json_value :: "jtree \<Rightarrow> bool" where
  "json_value t \<longleftrightarrow> parse_value (2 * length (raw t)) (depth t) (raw t) = Some (t, [])"

lemma delim_Nil [simp]: "delim []"
  by (simp add: delim_def)

lemma parse_value_json_value:
  assumes "parse_value f d s = Some (t, r)"
  shows "json_value t"
proof -
  have "parse_value f (depth t) (raw t @ []) = Some (t, [])"
    using parse_reads(1) [OF assms] by (simp add: reads_value_def del: append_Nil2)
  then have p: "parse_value f (depth t) (raw t) = Some (t, [])" by simp
  have "parse_value (max f (2 * length (raw t))) (depth t) (raw t) = Some (t, [])"
    by (rule parse_mono [OF p]) simp
  then show ?thesis unfolding json_value_def using parse_fuel_enough [of "raw t" "max f (2 * length (raw t))"] by simp
qed

lemma json_value_parse:
  assumes "json_value t" "depth t \<le> d" "delim r" "2 * length (raw t) \<le> f"
  shows "parse_value f d (raw t @ r) = Some (t, r)"
proof -
  have "parse_value (2 * length (raw t)) d (raw t @ r) = Some (t, r)"
    using parse_reads(1) [OF assms(1) [unfolded json_value_def]] assms(2,3) by (simp add: reads_value_def)
  then show ?thesis using assms(4) by (rule parse_mono)
qed

lemma json_value_raw:
  assumes "json_value t"
  obtains c u where "raw t = c # u"
  using assms parse_reads(1) unfolding json_value_def reads_value_def by (metis neq_Nil_conv)

lemma parse_value_nonspace:
  assumes "parse_value f d (c # u) = Some x"
  shows "\<not> json_space c"
proof (cases f)
  case 0
  then show ?thesis using assms by simp
next
  case (Suc g)
  then show ?thesis using assms
    by (auto simp: parse_value.simps(2) json_space_def byte_eq_const scan_scalar_def quote_def is_digit_def
        split: if_splits)
qed

lemma json_value_skip_ws: "json_value t \<Longrightarrow> skip_ws (raw t @ r) = raw t @ r"
  by (metis append_Cons json_value_def json_value_raw parse_value_nonspace skip_ws_nonspace)

lemma parse_json_raw:
  assumes "json_value t" "depth t \<le> max_nesting"
  shows "parse_json (raw t) = Some t"
  using json_value_parse [OF assms delim_Nil order_refl] json_value_skip_ws [OF assms(1), of "[]"]
  by (simp add: parse_json_def)

lemma parse_json_json_value:
  assumes "parse_json s = Some t"
  shows "json_value t" and "depth t \<le> max_nesting" and "\<exists>p q. s = p @ raw t @ q \<and> list_all json_space p \<and> list_all json_space q"
proof -
  from assms obtain r where p: "parse_value (2 * length s) max_nesting (skip_ws s) = Some (t, r)"
    and r: "skip_ws r = []" by (auto simp: parse_json_def split: option.splits if_splits)
  show "json_value t" by (rule parse_value_json_value [OF p])
  note rv = parse_reads(1) [OF p, unfolded reads_value_def]
  show "depth t \<le> max_nesting" using rv by blast
  have "s = takeWhile json_space s @ skip_ws s" by (simp add: skip_ws_def)
  moreover have "skip_ws s = raw t @ r" using rv by blast
  moreover have "list_all json_space r" using r by (simp add: skip_ws_def list_all_iff)
  ultimately show "\<exists>p q. s = p @ raw t @ q \<and> list_all json_space p \<and> list_all json_space q"
    by (metis list_all_iff set_takeWhileD)
qed

section \<open>Valid and Unmarshal\<close>

lemma json_valid_raw: "json_value t \<Longrightarrow> depth t \<le> max_nesting \<Longrightarrow> json_valid (raw t)"
  by (simp add: json_valid_def parse_json_raw)

text \<open>
  \<open>json.Unmarshal\<close> into a \<open>map[string]json.RawMessage\<close>. The raw message of a member is its text without
  the surrounding spaces, \<open>null\<close> included; a later member replaces an earlier one of the same name. The text
  \<open>null\<close> leaves the map nil, which reads as empty.
\<close>

definition members_map :: "(bytes \<times> jtree) list \<Rightarrow> (bytes, bytes) gomap" where
  "members_map ms = foldl (\<lambda>m (k, t). AList.update k (raw t) m) [] ms"

definition unmarshal_map :: "bytes \<Rightarrow> (bytes, bytes) gomap option" where
  "unmarshal_map s =
     (case parse_json s of
        None \<Rightarrow> None
      | Some (JObject _ ms) \<Rightarrow> Some (members_map ms)
      | Some (JArray _ _) \<Rightarrow> None
      | Some (JScalar w) \<Rightarrow> if w = ''null'' then Some [] else None)"

text \<open>\<open>json.Unmarshal\<close> into a \<open>[]json.RawMessage\<close>.\<close>

definition unmarshal_slice :: "bytes \<Rightarrow> bytes list option" where
  "unmarshal_slice s =
     (case parse_json s of
        None \<Rightarrow> None
      | Some (JObject _ _) \<Rightarrow> None
      | Some (JArray _ ts) \<Rightarrow> Some (map raw ts)
      | Some (JScalar w) \<Rightarrow> if w = ''null'' then Some [] else None)"

definition is_string_text :: "bytes \<Rightarrow> bool" where
  "is_string_text w \<longleftrightarrow> w \<noteq> [] \<and> hd w = quote"

definition string_value :: "bytes \<Rightarrow> bytes" where
  "string_value w = unquoted (butlast (tl w))"

text \<open>\<open>json.Unmarshal\<close> into a string; \<open>null\<close> leaves it empty without an error.\<close>

definition unmarshal_string :: "bytes \<Rightarrow> bytes option" where
  "unmarshal_string s =
     (case parse_json s of
        Some (JScalar w) \<Rightarrow>
          if is_string_text w then Some (string_value w)
          else if w = ''null'' then Some [] else None
      | _ \<Rightarrow> None)"

section \<open>The token stream of a decoder\<close>

datatype token = Delim char | TokenString bytes | TokenNumber bytes | TokenBool bool | TokenNull

definition scalar_token :: "bytes \<Rightarrow> token" where
  "scalar_token w =
     (if is_string_text w then TokenString (string_value w)
      else if w = ''true'' then TokenBool True
      else if w = ''false'' then TokenBool False
      else if w = ''null'' then TokenNull
      else TokenNumber w)"

datatype token_state =
    TokenTopValue
  | TokenArrayStart
  | TokenArrayValue
  | TokenArrayComma
  | TokenObjectStart
  | TokenObjectKey
  | TokenObjectColon
  | TokenObjectValue
  | TokenObjectComma

record decoder =
  dec_rest :: bytes
  dec_state :: token_state
  dec_stack :: "token_state list"

definition new_decoder :: "bytes \<Rightarrow> decoder" where
  "new_decoder s = \<lparr>dec_rest = s, dec_state = TokenTopValue, dec_stack = []\<rparr>"

definition token_value_allowed :: "token_state \<Rightarrow> bool" where
  "token_value_allowed st \<longleftrightarrow>
     st \<in> {TokenTopValue, TokenArrayStart, TokenArrayValue, TokenObjectValue}"

definition token_value_end :: "token_state \<Rightarrow> token_state" where
  "token_value_end st =
     (case st of
        TokenArrayStart \<Rightarrow> TokenArrayComma
      | TokenArrayValue \<Rightarrow> TokenArrayComma
      | TokenObjectValue \<Rightarrow> TokenObjectComma
      | _ \<Rightarrow> st)"

definition decoder_open :: "char \<Rightarrow> token_state \<Rightarrow> bytes \<Rightarrow> decoder \<Rightarrow> (token \<times> decoder) option" where
  "decoder_open c st r d =
     (if token_value_allowed (dec_state d)
      then Some (Delim c, \<lparr>dec_rest = r, dec_state = st, dec_stack = dec_state d # dec_stack d\<rparr>)
      else None)"

text \<open>The stack is not empty in the states of a container, so its missing case is never reached.\<close>

definition decoder_close :: "char \<Rightarrow> token_state set \<Rightarrow> bytes \<Rightarrow> decoder \<Rightarrow> (token \<times> decoder) option" where
  "decoder_close c sts r d =
     (if dec_state d \<in> sts
      then (case dec_stack d of
              [] \<Rightarrow> None
            | st # rest \<Rightarrow>
                Some (Delim c, \<lparr>dec_rest = r, dec_state = token_value_end st, dec_stack = rest\<rparr>))
      else None)"

definition decoder_scalar :: "bytes \<Rightarrow> decoder \<Rightarrow> (token \<times> decoder) option" where
  "decoder_scalar s d =
     (if token_value_allowed (dec_state d)
      then map_option (\<lambda>r. (scalar_token (upto_rest s r),
             d\<lparr>dec_rest := r, dec_state := token_value_end (dec_state d)\<rparr>)) (scan_scalar s)
      else None)"

text \<open>\<open>Decoder.Token\<close>; \<open>None\<close> is an error, the end of the input included.\<close>

function decoder_token :: "decoder \<Rightarrow> (token \<times> decoder) option" where
  "decoder_token d =
     (case skip_ws (dec_rest d) of
        [] \<Rightarrow> None
      | c # r \<Rightarrow>
          if c = CHR ''['' then decoder_open c TokenArrayStart r d
          else if c = CHR '']'' then decoder_close c {TokenArrayStart, TokenArrayComma} r d
          else if c = CHR ''{'' then decoder_open c TokenObjectStart r d
          else if c = CHR ''}'' then decoder_close c {TokenObjectStart, TokenObjectComma} r d
          else if c = CHR '':'' then
            (if dec_state d = TokenObjectColon
             then decoder_token (d\<lparr>dec_rest := r, dec_state := TokenObjectValue\<rparr>) else None)
          else if c = CHR '','' then
            (if dec_state d = TokenArrayComma
             then decoder_token (d\<lparr>dec_rest := r, dec_state := TokenArrayValue\<rparr>)
             else if dec_state d = TokenObjectComma
             then decoder_token (d\<lparr>dec_rest := r, dec_state := TokenObjectKey\<rparr>)
             else None)
          else if c = quote \<and> dec_state d \<in> {TokenObjectStart, TokenObjectKey} then
            map_option (\<lambda>u. (TokenString (unquoted (string_body r u)),
               d\<lparr>dec_rest := u, dec_state := TokenObjectColon\<rparr>)) (scan_string r)
          else decoder_scalar (c # r) d)"
  by pat_completeness auto
termination
proof (relation "measure (\<lambda>d. length (dec_rest d))")
  fix d :: decoder and c r
  assume "skip_ws (dec_rest d) = c # r"
  then have "length r < length (dec_rest d)" using length_skip_ws [of "dec_rest d"] by simp
  then show "(d\<lparr>dec_rest := r, dec_state := TokenObjectValue\<rparr>, d) \<in> measure (\<lambda>d. length (dec_rest d))"
    and "(d\<lparr>dec_rest := r, dec_state := TokenArrayValue\<rparr>, d) \<in> measure (\<lambda>d. length (dec_rest d))"
    and "(d\<lparr>dec_rest := r, dec_state := TokenObjectKey\<rparr>, d) \<in> measure (\<lambda>d. length (dec_rest d))"
    by simp_all
qed simp

declare decoder_token.simps [simp del]

definition decoder_more :: "decoder \<Rightarrow> bool" where
  "decoder_more d \<longleftrightarrow>
     (case skip_ws (dec_rest d) of [] \<Rightarrow> False | c # _ \<Rightarrow> c \<noteq> CHR '']'' \<and> c \<noteq> CHR ''}'')"

text \<open>
  \<open>Decoder.Decode\<close> of the first value into an \<open>any\<close> with \<open>UseNumber\<close>: \<open>None\<close> is an error, and the inner
  \<open>None\<close> a container.
\<close>

definition decode_any :: "bytes \<Rightarrow> token option option" where
  "decode_any s =
     (case parse_value (2 * length s) max_nesting (skip_ws s) of
        None \<Rightarrow> None
      | Some (JScalar w, _) \<Rightarrow> Some (Some (scalar_token w))
      | Some (_, _) \<Rightarrow> Some None)"

section \<open>Members\<close>

lemma parse_json_values:
  "parse_members f d s = Some (ms, r) \<Longrightarrow> \<forall>p\<in>set ms. json_value (snd p)"
  "parse_elements f d s = Some (ts, r) \<Longrightarrow> \<forall>t\<in>set ts. json_value t"
proof (induction f arbitrary: d s ms ts r)
  case (Suc f)
  note v = parse_value_json_value [of f]
  { case 1
    then show ?case
      by (auto simp: parse_members.simps(2) dest!: v Suc.IH(1)
          split: list.splits if_splits option.splits prod.splits) }
  { case 2
    then show ?case
      by (auto simp: parse_elements.simps(2) dest!: v Suc.IH(2)
          split: list.splits if_splits option.splits prod.splits) }
qed simp_all

lemma parse_value_children:
  "parse_value f d s = Some (JObject w ms, r) \<Longrightarrow> \<forall>p\<in>set ms. json_value (snd p)"
  "parse_value f d s = Some (JArray w ts, r) \<Longrightarrow> \<forall>t\<in>set ts. json_value t"
  by (cases f; auto simp: parse_value.simps(2) dest!: parse_json_values
      split: list.splits if_splits option.splits prod.splits)+

lemma json_children:
  "json_value (JObject w ms) \<Longrightarrow> p \<in> set ms \<Longrightarrow> json_value (snd p)"
  "json_value (JArray w ts) \<Longrightarrow> t \<in> set ts \<Longrightarrow> json_value t"
  using parse_value_children unfolding json_value_def by blast+

lemma foldl_members_map:
  "foldl (\<lambda>m (k, t). AList.update k (raw t) m) m ms
     = foldl (\<lambda>m (k, v). AList.update k v m) m (map (\<lambda>(k, t). (k, raw t)) ms)"
  by (induction ms arbitrary: m) auto

lemma set_members_map: "p \<in> set (members_map ms) \<Longrightarrow> \<exists>k t. (k, t) \<in> set ms \<and> p = (k, raw t)"
  using set_foldl_update [of "[]" "map (\<lambda>(k, t). (k, raw t)) ms"]
  unfolding members_map_def foldl_members_map by (force dest: subsetD)

lemma wf_members_map [simp]: "wf_map (members_map ms)"
  by (simp add: members_map_def foldl_members_map wf_foldl_update)

lemma members_map_distinct: "distinct (map fst ms) \<Longrightarrow> members_map ms = map (\<lambda>(k, t). (k, raw t)) ms"
  unfolding members_map_def foldl_members_map
  by (subst foldl_update_fresh) (auto simp: wf_map_def comp_def case_prod_beta)

lemma scan_scalar_first:
  "scan_scalar (c # u) \<noteq> None \<Longrightarrow> byte c < 128 \<and> \<not> unicode_space (byte c)"
  by (auto simp: scan_scalar_def quote_def is_digit_def unicode_space_def split: if_splits)

lemma parse_value_first:
  "parse_value f d (c # u) \<noteq> None \<Longrightarrow> byte c < 128 \<and> \<not> unicode_space (byte c)"
  using scan_scalar_first [of c u]
  by (cases f) (auto simp: parse_value.simps(2) unicode_space_def split: if_splits)

lemma json_first:
  assumes "json_value t"
  obtains c u where "raw t = c # u" "byte c < 128" "\<not> unicode_space (byte c)"
proof -
  obtain c u where r: "raw t = c # u" using json_value_raw [OF assms] .
  then have "parse_value (2 * length (raw t)) (depth t) (c # u) \<noteq> None"
    using assms by (simp add: json_value_def)
  from parse_value_first [OF this] r that show ?thesis by blast
qed

lemma unmarshal_map_values:
  assumes "unmarshal_map v = Some members" and "p \<in> set members"
  shows "\<exists>t. json_value t \<and> snd p = raw t"
proof -
  from assms obtain w ms where j: "parse_json v = Some (JObject w ms)" and m: "p \<in> set (members_map ms)"
    by (auto simp: unmarshal_map_def split: option.splits jtree.splits if_splits)
  from set_members_map [OF m] obtain k t where "(k, t) \<in> set ms" "p = (k, raw t)" by blast
  then show ?thesis using json_children(1) [OF parse_json_json_value(1) [OF j]] by force
qed

section \<open>Marshalled values\<close>

lemma untrimmed_json:
  assumes "parse_json s = Some t" and "trim_space s = s"
  shows "s = raw t"
proof -
  from parse_json_json_value(3) [OF assms(1)] obtain p q where
    s: "s = p @ raw t @ q" "list_all json_space p" "list_all json_space q" by blast
  have "trim_space s = trim_space (raw t)" using trim_space_json [OF s(2,3), of "raw t"] s(1) by simp
  then have "length s \<le> length (raw t)" using assms(2) length_trim_space [of "raw t"] by simp
  then show ?thesis using s(1) by simp
qed

lemma json_scalar:
  assumes "scan_scalar (c # u) = Some []" "c \<noteq> CHR ''{''" "c \<noteq> CHR ''[''"
  shows "json_value (JScalar (c # u))"
  using assms by (simp add: json_value_def parse_value.simps(2) upto_rest_def)

lemma json_value_string: "json_value (JScalar (json_marshal_string v))"
  using scan_scalar_marshal [of v "[]"] unfolding json_marshal_string_def
  by (intro json_scalar) (simp_all add: quote_def)

lemma unmarshal_marshalled:
  assumes "valid_utf8 v"
  shows "unmarshal_string (json_marshal_string v) = Some v"
    and "decode_any (json_marshal_string v) = Some (Some (TokenString v))"
proof -
  have p: "parse_json (json_marshal_string v) = Some (JScalar (json_marshal_string v))"
    using parse_json_raw [OF json_value_string] by simp
  have s: "is_string_text (json_marshal_string v)" "string_value (json_marshal_string v) = v"
    using unquote_marshal [OF assms]
    by (simp_all add: is_string_text_def json_marshal_string_def string_value_def unquoted_def)
  show "unmarshal_string (json_marshal_string v) = Some v"
    using p s by (simp add: unmarshal_string_def)
  show "decode_any (json_marshal_string v) = Some (Some (TokenString v))"
    using p s by (auto simp: decode_any_def scalar_token_def parse_json_def split: option.splits if_splits)
qed

lemma json_value_int: "json_value (JScalar (format_int i))"
proof -
  obtain c u where f: "format_int i = c # u" "c = CHR ''-'' \<or> is_digit c"
    by (metis format_int_def format_nat_neq_Nil hd_format_nat list.collapse list.sel(1))
  have "scan_int (format_int i) = Some []"
  proof (cases "i < 0")
    case True
    then show ?thesis using scan_int_format_nat [of "nat (- i)"] hd_format_nat [of "nat (- i)"] is_digit_not_sign
      by (cases "format_nat (nat (- i))") (auto simp: format_int_def scan_int_def)
  qed (simp add: format_int_def scan_int_format_nat)
  then have "scan_number (format_int i) = Some []" by (simp add: scan_number_def scan_frac_def scan_exp_def)
  then have "scan_scalar (c # u) = Some []" using f by (auto simp: scan_scalar_def quote_def is_digit_def)
  then show ?thesis using f unfolding f(1) by (intro json_scalar) (auto simp: is_digit_def)
qed

lemma decode_any_scalar: "json_value (JScalar w) \<Longrightarrow> decode_any w = Some (Some (scalar_token w))"
  using parse_json_raw [of "JScalar w"] by (auto simp: decode_any_def parse_json_def split: option.splits if_splits)

lemma string_body_marshal:
  "valid_utf8 n \<Longrightarrow> unquoted (string_body (marshal_body n @ quote # r) r) = n"
  by (simp add: string_body_append unquoted_def unquote_marshal)

lemmas parse_numeral [eval_defs] =
  parse_value.simps(2) [of "pred_numeral k" for k, folded numeral_eq_Suc]
  parse_members.simps(2) [of "pred_numeral k" for k, folded numeral_eq_Suc]
  parse_elements.simps(2) [of "pred_numeral k" for k, folded numeral_eq_Suc]

lemmas json_values_eval [eval_defs] =
  upto_rest_def unquoted_def string_body_def max_nesting_def parse_json_def json_valid_def
  members_map_def unmarshal_map_def unmarshal_slice_def is_string_text_def string_value_def
  unmarshal_string_def scalar_token_def new_decoder_def token_value_allowed_def
  token_value_end_def decoder_open_def decoder_close_def decoder_scalar_def decoder_more_def
  decode_any_def parse_value.simps(2) parse_members.simps(2) parse_elements.simps(2)
  decoder_token.simps

end
