(* ===== verification/CE_Event.thy ===== *)
theory CE_Event
  imports CE_Validation Go_JSON_Values
begin

text \<open>
  \<open>event.go\<close>: event data, the constructor \<open>NewEvent\<close>, \<open>Validate\<close> and the accessors. The fields of
  \<open>Data\<close> and \<open>Event\<close> are private, so the values other packages can hold are the zero values and what the
  constructors return: \<open>constructed_data\<close> and \<open>event_wf\<close>. The byte slice of present data is never observed
  as nil, so one list models it; the slice of absent data is nil.
\<close>

section \<open>Data\<close>

datatype DataKind = DataAbsent | DataJSON | DataText | DataBinary

record Data =
  data_kind :: DataKind
  data_present :: bool
  data_bytes :: bytes

definition zero_data :: Data where
  "zero_data = \<lparr>data_kind = DataAbsent, data_present = False, data_bytes = []\<rparr>"

definition NewJSONData :: "bytes \<Rightarrow> Data result" where
  "NewJSONData value =
     (if \<not> json_valid value then Inl (Sentinel ErrInvalidData)
      else Inr \<lparr>data_kind = DataJSON, data_present = True, data_bytes = value\<rparr>)"

definition NewTextData :: "bytes \<Rightarrow> Data result" where
  "NewTextData value =
     (if \<not> valid_utf8 value then Inl (Sentinel ErrInvalidData)
      else Inr \<lparr>data_kind = DataText, data_present = True, data_bytes = value\<rparr>)"

definition NewBinaryData :: "bytes \<Rightarrow> Data" where
  "NewBinaryData value = \<lparr>data_kind = DataBinary, data_present = True, data_bytes = value\<rparr>"

definition Data_Present :: "Data \<Rightarrow> bool" where
  "Data_Present d = data_present d"

definition Data_Kind :: "Data \<Rightarrow> DataKind" where
  "Data_Kind d = data_kind d"

definition Data_Bytes :: "Data \<Rightarrow> bytes option" where
  "Data_Bytes d = (if \<not> data_present d then None else Some (data_bytes d))"

text \<open>A slice field that receives the result of \<open>Bytes\<close>.\<close>

definition slice_bytes :: "bytes option \<Rightarrow> bytes" where
  "slice_bytes b = (case b of None \<Rightarrow> [] | Some x \<Rightarrow> x)"

inductive constructed_data :: "Data \<Rightarrow> bool" where
  "constructed_data zero_data"
| "NewJSONData v = Inr d \<Longrightarrow> constructed_data d"
| "NewTextData v = Inr d \<Longrightarrow> constructed_data d"
| "constructed_data (NewBinaryData v)"

section \<open>Events\<close>

definition specVersion :: bytes where
  "specVersion = ''1.0''"

record Event =
  ev_id :: bytes
  ev_source :: bytes
  ev_type :: bytes
  ev_dataContentType :: bytes
  ev_dataSchema :: bytes
  ev_subject :: bytes
  ev_time :: gotime
  ev_hasTime :: bool
  ev_extensions :: "(bytes, Attribute) gomap"
  ev_data :: Data

definition NewEvent :: "Attributes \<Rightarrow> Data \<Rightarrow> Event result" where
  "NewEvent attributes data =
     and_then (validateAttributes attributes) (\<lambda>_.
       Inr \<lparr>
         ev_id = a_ID attributes,
         ev_source = a_Source attributes,
         ev_type = a_Type attributes,
         ev_dataContentType = a_DataContentType attributes,
         ev_dataSchema = a_DataSchema attributes,
         ev_subject = a_Subject attributes,
         ev_time = (case a_Time attributes of None \<Rightarrow> zero_time | Some t \<Rightarrow> time_utc t),
         ev_hasTime = (a_Time attributes \<noteq> None),
         ev_extensions = copy_map (a_Extensions attributes),
         ev_data = \<lparr>data_kind = data_kind data, data_present = data_present data,
                    data_bytes = slice_bytes (Data_Bytes data)\<rparr>\<rparr>)"

definition event_attributes :: "Event \<Rightarrow> Attributes" where
  "event_attributes e = \<lparr>
     a_ID = ev_id e, a_Source = ev_source e, a_Type = ev_type e,
     a_DataContentType = ev_dataContentType e, a_DataSchema = ev_dataSchema e,
     a_Subject = ev_subject e, a_Time = (if ev_hasTime e then Some (ev_time e) else None),
     a_Extensions = ev_extensions e\<rparr>"

definition Event_Validate :: "Event \<Rightarrow> unit result" where
  "Event_Validate e =
     and_then (validateAttributes (event_attributes e)) (\<lambda>_.
       if \<not> data_present (ev_data e) \<and> data_kind (ev_data e) \<noteq> DataAbsent
       then Inl (Sentinel ErrInvalidEvent)
       else if data_present (ev_data e) then
         (case data_kind (ev_data e) of
            DataJSON \<Rightarrow> if \<not> json_valid (data_bytes (ev_data e)) then Inl (Sentinel ErrInvalidEvent) else Inr ()
          | DataText \<Rightarrow> if \<not> valid_utf8 (data_bytes (ev_data e)) then Inl (Sentinel ErrInvalidEvent) else Inr ()
          | DataBinary \<Rightarrow> Inr ()
          | DataAbsent \<Rightarrow> Inl (Sentinel ErrInvalidEvent))
       else Inr ())"

definition Event_SpecVersion :: "Event \<Rightarrow> bytes" where
  "Event_SpecVersion e = specVersion"

definition Event_ID :: "Event \<Rightarrow> bytes" where
  "Event_ID e = ev_id e"

definition Event_Source :: "Event \<Rightarrow> bytes" where
  "Event_Source e = ev_source e"

definition Event_Type :: "Event \<Rightarrow> bytes" where
  "Event_Type e = ev_type e"

definition Event_DataContentType :: "Event \<Rightarrow> bytes \<times> bool" where
  "Event_DataContentType e = (ev_dataContentType e, ev_dataContentType e \<noteq> '''')"

definition Event_DataSchema :: "Event \<Rightarrow> bytes \<times> bool" where
  "Event_DataSchema e = (ev_dataSchema e, ev_dataSchema e \<noteq> '''')"

definition Event_Subject :: "Event \<Rightarrow> bytes \<times> bool" where
  "Event_Subject e = (ev_subject e, ev_subject e \<noteq> '''')"

definition Event_Time :: "Event \<Rightarrow> gotime \<times> bool" where
  "Event_Time e = (ev_time e, ev_hasTime e)"

definition Event_Extension :: "Event \<Rightarrow> bytes \<Rightarrow> Attribute option" where
  "Event_Extension e name = map_of (ev_extensions e) name"

definition Event_Extensions :: "Event \<Rightarrow> (bytes, Attribute) gomap" where
  "Event_Extensions e = copy_map (ev_extensions e)"

definition Event_Data :: "Event \<Rightarrow> Data" where
  "Event_Data e = \<lparr>data_kind = data_kind (ev_data e), data_present = data_present (ev_data e),
     data_bytes = slice_bytes (Data_Bytes (ev_data e))\<rparr>"

section \<open>Invariants\<close>

definition data_ok :: "Data \<Rightarrow> bool" where
  "data_ok d \<longleftrightarrow>
     (case data_kind d of
        DataAbsent \<Rightarrow> \<not> data_present d \<and> data_bytes d = []
      | DataJSON \<Rightarrow> data_present d \<and> json_valid (data_bytes d)
      | DataText \<Rightarrow> data_present d \<and> valid_utf8 (data_bytes d)
      | DataBinary \<Rightarrow> data_present d)"

lemma constructed_data_ok: "constructed_data d \<longleftrightarrow> data_ok d"
proof
  assume "constructed_data d"
  then show "data_ok d"
    by cases (auto simp: data_ok_def zero_data_def NewJSONData_def NewTextData_def NewBinaryData_def
        split: if_splits)
next
  assume d: "data_ok d"
  show "constructed_data d"
  proof (cases "data_kind d")
    case DataAbsent
    then have "d = zero_data" using d by (simp add: data_ok_def zero_data_def)
    then show ?thesis by (simp add: constructed_data.intros)
  next
    case DataJSON
    then have "NewJSONData (data_bytes d) = Inr d" using d by (simp add: data_ok_def NewJSONData_def)
    then show ?thesis by (rule constructed_data.intros)
  next
    case DataText
    then have "NewTextData (data_bytes d) = Inr d" using d by (simp add: data_ok_def NewTextData_def)
    then show ?thesis by (rule constructed_data.intros)
  next
    case DataBinary
    then have "d = NewBinaryData (data_bytes d)" using d by (simp add: data_ok_def NewBinaryData_def)
    then show ?thesis by (metis constructed_data.intros(4))
  qed
qed

lemma copy_data: "data_ok d \<Longrightarrow>
    \<lparr>data_kind = data_kind d, data_present = data_present d, data_bytes = slice_bytes (Data_Bytes d)\<rparr> = d"
  by (auto simp: data_ok_def Data_Bytes_def slice_bytes_def split: DataKind.splits)

text \<open>A map of attributes in the representation the constructors use.\<close>

definition plain_map :: "(bytes, Attribute) gomap \<Rightarrow> bool" where
  "plain_map m \<longleftrightarrow> wf_map m \<and> list_all (\<lambda>(name, a). plain_bytes a) m"

lemma plain_map_Nil [simp]: "plain_map []"
  by (simp add: plain_map_def)

lemma plain_map_wf [simp]: "plain_map m \<Longrightarrow> wf_map m"
  by (simp add: plain_map_def)

lemma plain_map_update: "plain_map m \<Longrightarrow> plain_bytes a \<Longrightarrow> plain_map (AList.update k a m)"
proof -
  have "list_all (\<lambda>(name, a). plain_bytes a) m \<Longrightarrow> plain_bytes a
      \<Longrightarrow> list_all (\<lambda>(name, a). plain_bytes a) (AList.update k a m)"
    by (induction m) auto
  then show "plain_map m \<Longrightarrow> plain_bytes a \<Longrightarrow> plain_map (AList.update k a m)"
    by (simp add: plain_map_def)
qed

text \<open>The representation invariant of an event that was constructed, and the validity of its context.\<close>

definition event_wf :: "Event \<Rightarrow> bool" where
  "event_wf e \<longleftrightarrow> plain_map (ev_extensions e) \<and> data_ok (ev_data e) \<and>
     (if ev_hasTime e then time_utc (ev_time e) = ev_time e \<and> nsec (ev_time e) < 10 ^ 9
      else ev_time e = zero_time)"

definition valid_event :: "Event \<Rightarrow> bool" where
  "valid_event e \<longleftrightarrow> event_wf e \<and> valid_context (event_attributes e)"

definition attributes_wf :: "Attributes \<Rightarrow> bool" where
  "attributes_wf a \<longleftrightarrow> plain_map (a_Extensions a) \<and> pred_option (\<lambda>t. nsec t < 10 ^ 9) (a_Time a)"

lemma NewEvent_Inl: "NewEvent a d = Inl e \<longleftrightarrow> validateAttributes a = Inl e"
  by (simp add: NewEvent_def and_then_eq_Inl)

lemma NewEvent_Inr:
  assumes "attributes_wf a" and "data_ok d"
  shows "NewEvent a d = Inr e \<longleftrightarrow> valid_context a \<and> e = \<lparr>
     ev_id = a_ID a, ev_source = a_Source a, ev_type = a_Type a,
     ev_dataContentType = a_DataContentType a, ev_dataSchema = a_DataSchema a, ev_subject = a_Subject a,
     ev_time = (case a_Time a of None \<Rightarrow> zero_time | Some t \<Rightarrow> time_utc t),
     ev_hasTime = (a_Time a \<noteq> None), ev_extensions = a_Extensions a, ev_data = d\<rparr>"
  using assms by (auto simp: NewEvent_def validateAttributes_Inr copy_data attributes_wf_def)

lemma valid_context_time [simp]: "valid_context (a\<lparr>a_Time := t\<rparr>) \<longleftrightarrow> valid_context a"
  by (simp add: valid_context_def)

lemma NewEvent_valid:
  assumes "attributes_wf a" and "data_ok d" and "NewEvent a d = Inr e"
  shows "valid_event e"
proof -
  note e = assms(3) [unfolded NewEvent_Inr [OF assms(1,2)]]
  have "event_attributes e = a\<lparr>a_Time := map_option time_utc (a_Time a)\<rparr>"
    using e by (cases "a_Time a") (auto simp: event_attributes_def)
  then have "valid_context (event_attributes e)" using e by simp
  moreover have "event_wf e"
    using e assms(1,2) by (cases "a_Time a") (auto simp: event_wf_def attributes_wf_def time_utc_def)
  ultimately show ?thesis by (simp add: valid_event_def)
qed

lemma Event_Validate_iff:
  assumes "event_wf e"
  shows "Event_Validate e = Inr () \<longleftrightarrow> valid_event e"
  using assms
  by (auto simp: Event_Validate_def validateAttributes_Inr valid_event_def event_wf_def data_ok_def
      split: DataKind.splits)

lemma Event_Validate_valid [simp]: "valid_event e \<Longrightarrow> Event_Validate e = Inr ()"
  using Event_Validate_iff valid_event_def by blast

lemma Event_Data_id: "event_wf e \<Longrightarrow> Event_Data e = ev_data e"
  by (simp add: Event_Data_def copy_data event_wf_def)

lemma attributes_wf_event: "event_wf e \<Longrightarrow> attributes_wf (event_attributes e)"
  by (auto simp: attributes_wf_def event_attributes_def event_wf_def)

text \<open>Building an event from the attributes of a valid event gives the event back.\<close>

lemma NewEvent_event_attributes:
  assumes "valid_event e"
  shows "NewEvent (event_attributes e) (ev_data e) = Inr e"
proof -
  have w: "event_wf e" "valid_context (event_attributes e)" using assms by (auto simp: valid_event_def)
  have "data_ok (ev_data e)" using w(1) by (simp add: event_wf_def)
  then show ?thesis
    using NewEvent_Inr [OF attributes_wf_event [OF w(1)], of "ev_data e" e] w
    by (auto simp: event_attributes_def event_wf_def split: if_splits)
qed

text \<open>Two events that differ only in the iteration order of their extension maps.\<close>

definition same_event :: "Event \<Rightarrow> Event \<Rightarrow> bool" where
  "same_event e f \<longleftrightarrow> e\<lparr>ev_extensions := []\<rparr> = f\<lparr>ev_extensions := []\<rparr>
     \<and> same_map (ev_extensions e) (ev_extensions f)"

lemma same_event_refl [simp]: "same_event e e"
  by (simp add: same_event_def)

lemma same_event_sym: "same_event e f \<Longrightarrow> same_event f e"
  by (auto simp: same_event_def same_map_def)

lemma same_event_trans: "same_event e f \<Longrightarrow> same_event f g \<Longrightarrow> same_event e g"
  by (auto simp: same_event_def same_map_def)

lemma valid_eventD:
  assumes "valid_event e"
  shows "validCloudString (ev_id e)" "validCloudString (ev_source e)" "validCloudString (ev_type e)"
    "validCloudString (ev_subject e)" "wf_map (ev_extensions e)" "data_ok (ev_data e)"
    "list_all valid_extension (ev_extensions e)" "plain_map (ev_extensions e)"
  using assms valid_context_fields [of "event_attributes e"]
  by (auto simp: valid_event_def event_wf_def event_attributes_def valid_context_def)

lemma valid_context_perm:
  assumes "valid_context a" and "wf_map (a_Extensions a)" and "mset xs = mset (a_Extensions a)"
  shows "valid_context (a\<lparr>a_Extensions := xs\<rparr>)"
proof -
  have m: "map_of xs = map_of (a_Extensions a)" by (rule perm_map_of [OF assms(2,3)])
  have "set xs = set (a_Extensions a)" using assms(3) by (metis set_mset_mset)
  then show ?thesis using assms(1) unfolding valid_context_def selected_ok_def by (simp add: m list_all_iff)
qed

lemma valid_event_perm:
  assumes v: "valid_event e" and p: "mset xs = mset (ev_extensions e)"
  shows "valid_event (e\<lparr>ev_extensions := xs\<rparr>)"
proof -
  have w: "wf_map (ev_extensions e)" by (rule valid_eventD(5) [OF v])
  have "valid_context (event_attributes (e\<lparr>ev_extensions := xs\<rparr>))"
    using valid_context_perm [of "event_attributes e" xs] v w p
    by (cases "ev_hasTime e") (simp_all add: valid_event_def event_attributes_def)
  moreover have "plain_map xs"
    using valid_eventD(8) [OF v] wf_map_mset [OF w] p unfolding plain_map_def list_all_iff
    by (metis set_mset_mset)
  ultimately show ?thesis using v by (auto simp: valid_event_def event_wf_def)
qed

lemma absent_data: "data_ok d \<Longrightarrow> \<not> data_present d \<Longrightarrow> d = zero_data"
  by (auto simp: data_ok_def zero_data_def split: DataKind.splits)

text \<open>The canonical copy of an event: its extensions in the order of their names.\<close>

definition sorted_event :: "Event \<Rightarrow> Event" where
  "sorted_event e = e\<lparr>ev_extensions := sort_key fst (ev_extensions e)\<rparr>"

lemma same_sorted_event:
  assumes "valid_event e"
  shows "same_event e (sorted_event e)" "valid_event (sorted_event e)"
proof -
  have m: "mset (sort_key fst (ev_extensions e)) = mset (ev_extensions e)" by simp
  then show "valid_event (sorted_event e)" unfolding sorted_event_def by (rule valid_event_perm [OF assms])
  have "wf_map (ev_extensions e)" by (rule valid_eventD(5) [OF assms])
  then show "same_event e (sorted_event e)"
    using same_map_mset_eq [of "ev_extensions e" "sort_key fst (ev_extensions e)"]
      wf_map_mset [of "ev_extensions e" "sort_key fst (ev_extensions e)"]
    by (auto simp: same_event_def sorted_event_def)
qed

lemmas event_eval [eval_defs] =
  NewEvent_def validateAttributes_def attributeIssues_def standardIssues_def selectedIssues_def
  extensionIssues_def Event_Validate_def event_attributes_def NewBinaryData_def NewTextData_def
  NewJSONData_def Data_Bytes_def slice_bytes_def copy_map_def specVersion_def Event_SpecVersion_def

section \<open>Properties\<close>

text \<open>
  C10. \<open>NewEvent\<close> establishes the event invariant: from constructed data and a well-formed context, an event
  it returns is valid, passes \<open>Validate\<close>, and rebuilding an event from its own attributes and data gives
  the same event.
\<close>

theorem NewEvent_establishes_valid:
  assumes "attributes_wf a" and "constructed_data d" and "NewEvent a d = Inr e"
  shows "valid_event e \<and> Event_Validate e = Inr () \<and> NewEvent (event_attributes e) (Event_Data e) = Inr e"
proof -
  have d: "data_ok d" using assms(2) by (simp add: constructed_data_ok)
  have v: "valid_event e" by (rule NewEvent_valid [OF assms(1) d assms(3)])
  then have "Event_Data e = ev_data e" by (simp add: valid_event_def Event_Data_id)
  then show ?thesis using v by (simp add: NewEvent_event_attributes)
qed

definition sample_event :: Event where
  "sample_event = \<lparr>ev_id = ''1'', ev_source = ''/s'', ev_type = ''t'', ev_dataContentType = '''',
     ev_dataSchema = '''', ev_subject = '''', ev_time = zero_time, ev_hasTime = False,
     ev_extensions = [(''a'', text_attribute ''x''), (''b'', text_attribute ''y'')],
     ev_data = zero_data\<rparr>"

lemma sample_attributes_wf: "attributes_wf sample_attributes"
  by (simp add: attributes_wf_def sample_attributes_def wf_map_def plain_map_def plain_bytes_def
      text_attribute_def)

lemma zero_data_ok [simp]: "data_ok zero_data"
  by (simp add: data_ok_def zero_data_def)

lemma NewEvent_sample: "NewEvent sample_attributes zero_data = Inr sample_event"
  unfolding NewEvent_Inr [OF sample_attributes_wf zero_data_ok] using sample_attributes_valid
  by (simp add: sample_event_def sample_attributes_def)

lemma sample_event_valid: "valid_event sample_event"
  by (rule NewEvent_valid [OF sample_attributes_wf zero_data_ok NewEvent_sample])

theorem NewEvent_establishes_valid_witness:
  "NewEvent sample_attributes zero_data = Inr sample_event \<and> valid_event sample_event"
  using NewEvent_establishes_valid [OF sample_attributes_wf constructed_data.intros(1) NewEvent_sample]
    NewEvent_sample by blast

end
