(* ===== verification/CE_Conversion.thy ===== *)
theory CE_Conversion
  imports CE_Event
begin

text \<open>
  \<open>conversion.go\<close>: the reports of what an encoding changes, with the media type tests of
  \<open>json.go\<close> they rest on. A report is sorted by field and reason, so it does not depend on the order in
  which the extension map is ranged over; a strict encoder refuses exactly the events with a report.
\<close>

section \<open>Media types\<close>

definition isJSONMediaType :: "bytes \<Rightarrow> bool" where
  "isJSONMediaType value \<longleftrightarrow>
     (if value = '''' then True
      else let (mediaType, ok) = parse_media_type value in
        if \<not> ok then False
        else let (_, subtype, found) = cut CHR ''/'' (to_lower mediaType) in
          found \<and> (subtype = ''json'' \<or> has_suffix subtype ''+json''))"

definition isTextMediaType :: "bytes \<Rightarrow> bool" where
  "isTextMediaType value \<longleftrightarrow>
     (let (mediaType, ok) = parse_media_type value in ok \<and> has_prefix (to_lower mediaType) ''text/'')"

definition implicitDataContentType :: "DataKind \<Rightarrow> bytes" where
  "implicitDataContentType kind =
     (case kind of
        DataJSON \<Rightarrow> ''application/json''
      | DataText \<Rightarrow> ''text/plain''
      | _ \<Rightarrow> ''application/octet-stream'')"

definition dataKindMatchesContentType :: "DataKind \<Rightarrow> bytes \<Rightarrow> bool" where
  "dataKindMatchesContentType kind contentType \<longleftrightarrow>
     (case kind of
        DataJSON \<Rightarrow> isJSONMediaType contentType
      | DataText \<Rightarrow> isTextMediaType contentType
      | _ \<Rightarrow> if isJSONMediaType contentType then False else \<not> isTextMediaType contentType)"

section \<open>Reports\<close>

definition canonicalConversionReport :: "report \<Rightarrow> report" where
  "canonicalConversionReport report = sort report"

definition prefixConversionReport :: "report \<Rightarrow> bytes \<Rightarrow> report" where
  "prefixConversionReport report pre =
     canonicalConversionReport (map (\<lambda>l. Loss (pre @ loss_field l) (loss_reason l)) report)"

definition rejectConversionLoss :: "report \<Rightarrow> unit result" where
  "rejectConversionLoss report =
     (case report of [] \<Rightarrow> Inr () | l # _ \<Rightarrow> Inl (Errorf ErrConversionLoss (loss_field l)))"

definition jsonExtensionLoss :: "bytes \<times> Attribute \<Rightarrow> report" where
  "jsonExtensionLoss p =
     (case p of (name, attribute) \<Rightarrow>
        if attr_kind attribute \<in> {AttributeString, AttributeBoolean, AttributeInteger} then []
        else [Loss (''extensions.'' @ name) ''abstract extension type normalizes to a JSON string''])"

definition jsonDataLoss :: "Event \<Rightarrow> report" where
  "jsonDataLoss e =
     (let data = ev_data e in
      (if data_present data \<and> data_kind data = DataJSON \<and> data_bytes data \<noteq> trim_space (data_bytes data)
       then [Loss ''data''
         ''leading or trailing JSON whitespace is not representable inside a structured event'']
       else []) @
      (if data_present data then
         (if data_kind data = DataText \<and> ev_dataContentType e = ''''
          then [Loss ''datacontenttype'' ''text/plain is materialized to preserve text data semantics'']
          else if data_kind data = DataText \<and> isJSONMediaType (ev_dataContentType e)
          then [Loss ''data'' ''JSON content type decodes text data as JSON'']
          else if data_kind data = DataJSON \<and> \<not> isJSONMediaType (ev_dataContentType e)
          then [Loss ''data'' ''non-JSON content type cannot preserve JSON data semantics'']
          else [])
       else []))"

definition jsonConversionReport :: "Event \<Rightarrow> report" where
  "jsonConversionReport e =
     canonicalConversionReport (jsonDataLoss e @ concat (map jsonExtensionLoss (ev_extensions e)))"

definition binaryExtensionLoss :: "bytes \<times> Attribute \<Rightarrow> report" where
  "binaryExtensionLoss p =
     (case p of (name, attribute) \<Rightarrow>
        if attr_kind attribute \<noteq> AttributeString
        then [Loss (''extensions.'' @ name) ''abstract extension type normalizes to a protocol string'']
        else [])"

definition binaryDataLoss :: "Event \<Rightarrow> report" where
  "binaryDataLoss e =
     (let data = ev_data e in
      if data_present data \<and> ev_dataContentType e = ''''
      then [Loss ''datacontenttype''
        (implicitDataContentType (data_kind data) @ '' is materialized to preserve data semantics'')]
      else if data_present data \<and> \<not> dataKindMatchesContentType (data_kind data) (ev_dataContentType e)
      then [Loss ''data'' ''declared content type changes the data kind in the binary binding'']
      else [])"

definition binaryConversionReport :: "Event \<Rightarrow> report" where
  "binaryConversionReport e =
     canonicalConversionReport (binaryDataLoss e @ concat (map binaryExtensionLoss (ev_extensions e)))"

definition httpBinaryConversionReport :: "Event \<Rightarrow> report" where
  "httpBinaryConversionReport e = binaryConversionReport e"

section \<open>Reports are canonical\<close>

lemma canonical_sorted: "sorted (canonicalConversionReport r)"
  by (simp add: canonicalConversionReport_def)

lemma canonical_Nil [simp]: "canonicalConversionReport r = [] \<longleftrightarrow> r = []"
  by (metis canonicalConversionReport_def length_0_conv length_sort)

lemma canonical_mset [simp]: "mset (canonicalConversionReport r) = mset r"
  by (simp add: canonicalConversionReport_def)

lemma rejectConversionLoss_Inr [simp]: "rejectConversionLoss r = Inr u \<longleftrightarrow> r = []"
  by (simp add: rejectConversionLoss_def split: list.split)

lemma rejectConversionLoss_least:
  assumes "r \<noteq> []"
  shows "rejectConversionLoss (canonicalConversionReport r)
    = Inl (Errorf ErrConversionLoss (loss_field (Min (set r))))"
proof -
  obtain l ls where c: "canonicalConversionReport r = l # ls"
    using assms by (cases "canonicalConversionReport r") auto
  have s: "set (l # ls) = set r" by (metis c canonicalConversionReport_def set_sort)
  moreover have "\<forall>x \<in> set (l # ls). l \<le> x" using canonical_sorted [of r] c by simp
  ultimately have "Min (set r) = l" by (intro Min_eqI) auto
  then show ?thesis by (simp add: c rejectConversionLoss_def)
qed

lemma report_perm:
  assumes "mset xs = mset ys"
  shows "canonicalConversionReport (r @ concat (map f xs)) = canonicalConversionReport (r @ concat (map f ys))"
  unfolding canonicalConversionReport_def
  by (rule sort_mset_cong) (simp add: mset_concat_map [OF assms])

lemma jsonConversionReport_perm:
  assumes "mset exts = mset (ev_extensions e)"
  shows "jsonConversionReport (e\<lparr>ev_extensions := exts\<rparr>) = jsonConversionReport e"
proof -
  have "jsonDataLoss (e\<lparr>ev_extensions := exts\<rparr>) = jsonDataLoss e" by (simp add: jsonDataLoss_def Let_def)
  then show ?thesis using report_perm [OF assms] by (simp add: jsonConversionReport_def)
qed

lemma binaryConversionReport_perm:
  assumes "mset exts = mset (ev_extensions e)"
  shows "binaryConversionReport (e\<lparr>ev_extensions := exts\<rparr>) = binaryConversionReport e"
proof -
  have "binaryDataLoss (e\<lparr>ev_extensions := exts\<rparr>) = binaryDataLoss e" by (simp add: binaryDataLoss_def Let_def)
  then show ?thesis using report_perm [OF assms] by (simp add: binaryConversionReport_def)
qed

section \<open>Empty reports\<close>

lemma jsonConversionReport_Nil:
  "jsonConversionReport e = [] \<longleftrightarrow>
     (data_present (ev_data e) \<longrightarrow>
        (data_kind (ev_data e) = DataJSON \<longrightarrow>
           trim_space (data_bytes (ev_data e)) = data_bytes (ev_data e)
           \<and> isJSONMediaType (ev_dataContentType e)) \<and>
        (data_kind (ev_data e) = DataText \<longrightarrow>
           ev_dataContentType e \<noteq> '''' \<and> \<not> isJSONMediaType (ev_dataContentType e))) \<and>
     (\<forall>p \<in> set (ev_extensions e).
        attr_kind (snd p) \<in> {AttributeString, AttributeBoolean, AttributeInteger})"
  by (auto simp: jsonConversionReport_def jsonDataLoss_def jsonExtensionLoss_def Let_def split: if_splits)

lemma binaryConversionReport_Nil:
  "binaryConversionReport e = [] \<longleftrightarrow>
     (data_present (ev_data e) \<longrightarrow> ev_dataContentType e \<noteq> ''''
        \<and> dataKindMatchesContentType (data_kind (ev_data e)) (ev_dataContentType e)) \<and>
     (\<forall>p \<in> set (ev_extensions e). attr_kind (snd p) = AttributeString)"
  by (auto simp: binaryConversionReport_def binaryDataLoss_def binaryExtensionLoss_def Let_def
      split: if_splits)

lemmas conversion_eval [eval_defs] =
  jsonConversionReport_def jsonDataLoss_def jsonExtensionLoss_def canonicalConversionReport_def
  binaryConversionReport_def binaryDataLoss_def binaryExtensionLoss_def httpBinaryConversionReport_def
  rejectConversionLoss_def implicitDataContentType_def dataKindMatchesContentType_def
  isJSONMediaType_def isTextMediaType_def prefixConversionReport_def

section \<open>Properties\<close>

text \<open>
  C40. The conversion reports do not depend on the order in which the extension map is ranged over, and
  they are sorted by field and reason.
\<close>

theorem conversion_reports_canonical:
  assumes "mset exts = mset (ev_extensions e)"
  shows "jsonConversionReport (e\<lparr>ev_extensions := exts\<rparr>) = jsonConversionReport e
    \<and> binaryConversionReport (e\<lparr>ev_extensions := exts\<rparr>) = binaryConversionReport e
    \<and> sorted (jsonConversionReport e) \<and> sorted (binaryConversionReport e)"
  using assms
  by (simp add: jsonConversionReport_perm binaryConversionReport_perm canonical_sorted
      jsonConversionReport_def [of e] binaryConversionReport_def [of e])

theorem conversion_reports_canonical_witness:
  "jsonConversionReport (sample_event\<lparr>ev_extensions := rev (ev_extensions sample_event)\<rparr>)
     = jsonConversionReport sample_event"
  using conversion_reports_canonical [of "rev (ev_extensions sample_event)" sample_event] by simp

end
