(* ===== verification/CE_Limits.thy ===== *)
theory CE_Limits
  imports Prelude "HOL-Library.Word"
begin

text \<open>
  The decoder limits of \<open>limits.go\<close>. The fields are Go \<open>int64\<close> and \<open>int\<close> values of a 64-bit platform,
  modelled as \<^typ>\<open>int\<close>; \<open>limits_ok\<close> states their range. The code never computes with a limit in a way
  that can overflow: the two places that scale a limit are modelled at machine width in the theories of
  the bindings.
\<close>

record Limits =
  MaxEventBytes :: int
  MaxDataBytes :: int
  MaxAttributes :: int
  MaxAttributeNameBytes :: int
  MaxAttributeValueBytes :: int
  MaxDepth :: int
  MaxBatchEvents :: int
  MaxKafkaKeyBytes :: int
  MaxKafkaHeaders :: int
  MaxKafkaHeaderNameBytes :: int
  MaxKafkaHeaderValueBytes :: int

definition DefaultLimits :: Limits where
  "DefaultLimits = \<lparr>
     MaxEventBytes = push_bit 20 1,
     MaxDataBytes = push_bit 20 1,
     MaxAttributes = 64,
     MaxAttributeNameBytes = 64,
     MaxAttributeValueBytes = push_bit 10 16,
     MaxDepth = 64,
     MaxBatchEvents = 1000,
     MaxKafkaKeyBytes = push_bit 20 1,
     MaxKafkaHeaders = 64,
     MaxKafkaHeaderNameBytes = 256,
     MaxKafkaHeaderValueBytes = push_bit 10 16\<rparr>"

definition maxInt64 :: int where
  "maxInt64 = 9223372036854775807"

definition int64_range :: "int \<Rightarrow> bool" where
  "int64_range i \<longleftrightarrow> - 9223372036854775808 \<le> i \<and> i \<le> maxInt64"

definition limits_ok :: "Limits \<Rightarrow> bool" where
  "limits_ok l \<longleftrightarrow> list_all int64_range [MaxEventBytes l, MaxDataBytes l, MaxAttributes l,
     MaxAttributeNameBytes l, MaxAttributeValueBytes l, MaxDepth l, MaxBatchEvents l,
     MaxKafkaKeyBytes l, MaxKafkaHeaders l, MaxKafkaHeaderNameBytes l, MaxKafkaHeaderValueBytes l]"

lemma DefaultLimits_simps [simp]:
  "MaxEventBytes DefaultLimits = 1048576"
  "MaxDataBytes DefaultLimits = 1048576"
  "MaxAttributes DefaultLimits = 64"
  "MaxAttributeNameBytes DefaultLimits = 64"
  "MaxAttributeValueBytes DefaultLimits = 16384"
  "MaxDepth DefaultLimits = 64"
  "MaxBatchEvents DefaultLimits = 1000"
  "MaxKafkaKeyBytes DefaultLimits = 1048576"
  "MaxKafkaHeaders DefaultLimits = 64"
  "MaxKafkaHeaderNameBytes DefaultLimits = 256"
  "MaxKafkaHeaderValueBytes DefaultLimits = 16384"
  by (simp_all add: DefaultLimits_def push_bit_eq_mult)

lemma DefaultLimits_ok: "limits_ok DefaultLimits"
  by (simp add: limits_ok_def int64_range_def maxInt64_def)

end
