(* ===== verification/CE_Json.thy ===== *)
theory CE_Json
  imports CE_Conversion CE_Limits
begin

text \<open>
  \<open>json.go\<close>: the JSON event format and its batch form. \<open>encodeJSON\<close> builds the members in the order of
  the code and sorts them by name; \<open>DecodeJSON\<close> walks the token stream for depth and duplicate members,
  unmarshals the envelope and builds the event.

  \<open>inspectJSONValue\<close> is the recursive token walk. Its fuel counts calls: \<open>inspectJSON\<close> gives
  two per byte and one more, which is enough because every call but a loop's last reads a token. A failed
  type assertion and an index out of range are outcomes of their own, and are shown not to happen.
\<close>

section \<open>Encoding\<close>

definition JSONMediaType :: bytes where
  "JSONMediaType = ''application/cloudevents+json''"

definition JSONBatchMediaType :: bytes where
  "JSONBatchMediaType = ''application/cloudevents-batch+json''"

text \<open>A member is its name and the text of its value.\<close>

type_synonym jsonMember = "bytes \<times> bytes"

definition stringMemberText :: "bytes \<Rightarrow> bytes \<Rightarrow> jsonMember" where
  "stringMemberText name value = (name, json_marshal_string value)"

definition extensionMember :: "bytes \<times> Attribute \<Rightarrow> jsonMember list" where
  "extensionMember p =
     (case p of (name, attribute) \<Rightarrow>
        (case attr_kind attribute of
           AttributeBoolean \<Rightarrow> [(name, attr_text attribute)]
         | AttributeInteger \<Rightarrow> [(name, attr_text attribute)]
         | AttributeUnassigned \<Rightarrow> []
         | _ \<Rightarrow> [stringMemberText name (attr_text attribute)]))"

definition newBinaryString :: "bytes \<Rightarrow> bytes" where
  "newBinaryString value = Attribute_String (NewBinaryAttribute value)"

definition dataMember :: "Data \<Rightarrow> jsonMember list" where
  "dataMember d =
     (if data_present d then
        (case data_kind d of
           DataJSON \<Rightarrow> [(''data'', data_bytes d)]
         | DataText \<Rightarrow> [stringMemberText ''data'' (data_bytes d)]
         | DataBinary \<Rightarrow> [stringMemberText ''data_base64'' (newBinaryString (data_bytes d))]
         | DataAbsent \<Rightarrow> [])
      else [])"

definition standardMembers :: "Event \<Rightarrow> jsonMember list" where
  "standardMembers e =
     [stringMemberText ''specversion'' (Event_SpecVersion e),
      stringMemberText ''id'' (ev_id e),
      stringMemberText ''source'' (ev_source e),
      stringMemberText ''type'' (ev_type e)] @
     (if ev_dataContentType e \<noteq> '''' then [stringMemberText ''datacontenttype'' (ev_dataContentType e)]
      else if data_present (ev_data e) \<and> data_kind (ev_data e) = DataText
      then [stringMemberText ''datacontenttype'' (implicitDataContentType DataText)] else []) @
     (if ev_dataSchema e \<noteq> '''' then [stringMemberText ''dataschema'' (ev_dataSchema e)] else []) @
     (if ev_subject e \<noteq> '''' then [stringMemberText ''subject'' (ev_subject e)] else []) @
     (if ev_hasTime e then [stringMemberText ''time'' (time_format (time_utc (ev_time e)))] else [])"

definition jsonMembers :: "Event \<Rightarrow> jsonMember list" where
  "jsonMembers e =
     standardMembers e @ concat (map extensionMember (ev_extensions e)) @ dataMember (ev_data e)"

text \<open>A loop that writes a comma before every item but the first.\<close>

fun writeItems :: "nat \<Rightarrow> bytes list \<Rightarrow> bytes" where
  "writeItems index [] = []"
| "writeItems index (x # xs) = (if index > 0 then '','' else []) @ x @ writeItems (Suc index) xs"

definition memberText :: "jsonMember \<Rightarrow> bytes" where
  "memberText m = json_marshal_string (fst m) @ '':'' @ snd m"

definition encodeJSON :: "Event \<Rightarrow> bytes" where
  "encodeJSON e = ''{'' @ writeItems 0 (map memberText (sort_key fst (jsonMembers e))) @ ''}''"

definition EncodeJSONWithReport :: "Event \<Rightarrow> (bytes \<times> report) result" where
  "EncodeJSONWithReport e =
     and_then (Event_Validate e) (\<lambda>_. Inr (encodeJSON e, jsonConversionReport e))"

definition EncodeJSON :: "Event \<Rightarrow> bytes result" where
  "EncodeJSON e =
     and_then (EncodeJSONWithReport e) (\<lambda>(encoded, report).
       and_then (rejectConversionLoss report) (\<lambda>_. Inr encoded))"

definition eventPrefix :: "nat \<Rightarrow> bytes" where
  "eventPrefix index = ''events['' @ format_nat index @ ''].''"

fun encodeBatchLoop :: "nat \<Rightarrow> bytes \<Rightarrow> report \<Rightarrow> Event list \<Rightarrow> (bytes \<times> report) result" where
  "encodeBatchLoop index out losses [] = Inr (out, losses)"
| "encodeBatchLoop index out losses (e # es) =
     and_then (EncodeJSONWithReport e) (\<lambda>(value, eventReport).
       encodeBatchLoop (Suc index) (out @ (if index > 0 then '','' else []) @ value)
         (losses @ prefixConversionReport eventReport (eventPrefix index)) es)"

definition EncodeJSONBatchWithReport :: "Event list \<Rightarrow> (bytes \<times> report) result" where
  "EncodeJSONBatchWithReport events =
     and_then (encodeBatchLoop 0 ''['' [] events) (\<lambda>(out, losses).
       Inr (out @ '']'', canonicalConversionReport losses))"

definition EncodeJSONBatch :: "Event list \<Rightarrow> bytes result" where
  "EncodeJSONBatch events =
     and_then (EncodeJSONBatchWithReport events) (\<lambda>(encoded, report).
       and_then (rejectConversionLoss report) (\<lambda>_. Inr encoded))"

section \<open>The token walk\<close>

datatype 'a outcome = Done 'a | Fail go_error | Panic | OutOfFuel

definition errJSON :: go_error where
  "errJSON = Errorf ErrInvalidEvent ''json''"

fun inspectJSONValue :: "nat \<Rightarrow> decoder \<Rightarrow> int \<Rightarrow> int \<Rightarrow> bool \<Rightarrow> decoder outcome"
  and inspectMembers :: "nat \<Rightarrow> decoder \<Rightarrow> int \<Rightarrow> int \<Rightarrow> bool \<Rightarrow> bytes list \<Rightarrow> decoder outcome"
  and inspectElements :: "nat \<Rightarrow> decoder \<Rightarrow> int \<Rightarrow> int \<Rightarrow> decoder outcome" where
  "inspectJSONValue 0 d level maxDepth topLevel = OutOfFuel"
| "inspectJSONValue (Suc f) d level maxDepth topLevel =
     (case decoder_token d of
        None \<Rightarrow> Fail errJSON
      | Some (token, d1) \<Rightarrow>
          (case token of
             Delim c \<Rightarrow>
               if level + 1 > maxDepth then Fail (Sentinel ErrLimitExceeded)
               else (case (if c = CHR ''{'' then inspectMembers f d1 (level + 1) maxDepth topLevel []
                           else inspectElements f d1 (level + 1) maxDepth) of
                       Done d2 \<Rightarrow>
                         (case decoder_token d2 of None \<Rightarrow> Fail errJSON | Some (_, d3) \<Rightarrow> Done d3)
                     | r \<Rightarrow> r)
           | _ \<Rightarrow> Done d1))"
| "inspectMembers 0 d level maxDepth topLevel seen = OutOfFuel"
| "inspectMembers (Suc f) d level maxDepth topLevel seen =
     (if \<not> decoder_more d then Done d
      else case decoder_token d of
          None \<Rightarrow> Fail errJSON
        | Some (nameToken, d1) \<Rightarrow>
            (case nameToken of
               TokenString name \<Rightarrow>
                 if topLevel \<and> name \<in> set seen then Fail (Errorf ErrInvalidEvent ''duplicate member'')
                 else (case inspectJSONValue f d1 level maxDepth False of
                         Done d2 \<Rightarrow>
                           inspectMembers f d2 level maxDepth topLevel
                             (if topLevel then name # seen else seen)
                       | r \<Rightarrow> r)
             | _ \<Rightarrow> Panic))"
| "inspectElements 0 d level maxDepth = OutOfFuel"
| "inspectElements (Suc f) d level maxDepth =
     (if \<not> decoder_more d then Done d
      else case inspectJSONValue f d level maxDepth False of
          Done d2 \<Rightarrow> inspectElements f d2 level maxDepth
        | r \<Rightarrow> r)"

declare inspectJSONValue.simps(2) [simp del] inspectMembers.simps(2) [simp del]
  inspectElements.simps(2) [simp del]

definition inspectFuel :: "bytes \<Rightarrow> nat" where
  "inspectFuel value = 2 * length value + 1"

definition panicked :: go_error where
  "panicked = External ''panic''"

definition inspectJSON :: "bytes \<Rightarrow> int \<Rightarrow> unit result" where
  "inspectJSON value maxDepth =
     (if maxDepth \<le> 0 then Inl (Sentinel ErrLimitExceeded)
      else case inspectJSONValue (inspectFuel value) (new_decoder value) 0 maxDepth True of
          Fail e \<Rightarrow> Inl e
        | Done d \<Rightarrow>
            (case decoder_token d of
               Some _ \<Rightarrow> Inl (Errorf ErrInvalidEvent ''trailing json'')
             | None \<Rightarrow> Inr ())
        | _ \<Rightarrow> Inl panicked)"

section \<open>Decoding\<close>

definition countJSONAttributes :: "(bytes, bytes) gomap \<Rightarrow> nat" where
  "countJSONAttributes members =
     foldl (\<lambda>count (name, _). if name = ''data'' \<or> name = ''data_base64'' then count else Suc count) 0 members"

definition exceedsJSONEncodedStringLimit :: "bytes \<Rightarrow> int \<Rightarrow> bool" where
  "exceedsJSONEncodedStringLimit rawValue limit \<longleftrightarrow>
     (if limit \<le> 0 then True
      else let units = int (length rawValue div 6); remainder = length rawValue mod 6 in
        units > limit \<or> (units = limit \<and> remainder > 2))"

definition is_null :: "bytes \<Rightarrow> bool" where
  "is_null rawValue \<longleftrightarrow> trim_space rawValue = ''null''"

definition stringMember ::
    "(bytes, bytes) gomap \<Rightarrow> Limits \<Rightarrow> bytes \<Rightarrow> bool \<Rightarrow> (bytes \<times> bool) result" where
  "stringMember members limits name required =
     (case map_of members name of
        None \<Rightarrow> if required then Inl (Errorf ErrInvalidEvent name) else Inr ('''', False)
      | Some rawValue \<Rightarrow>
          if is_null rawValue
          then (if required then Inl (Errorf ErrInvalidEvent name) else Inr ('''', False))
          else if exceedsJSONEncodedStringLimit rawValue (MaxAttributeValueBytes limits)
          then Inl (Sentinel ErrLimitExceeded)
          else (case unmarshal_string rawValue of
                  None \<Rightarrow> Inl (Errorf ErrInvalidEvent name)
                | Some decoded \<Rightarrow>
                    if int (length decoded) > MaxAttributeValueBytes limits
                    then Inl (Sentinel ErrLimitExceeded) else Inr (decoded, True)))"

definition decodeJSONAttribute :: "bytes \<Rightarrow> Attribute result" where
  "decodeJSONAttribute rawValue =
     (case decode_any rawValue of
        None \<Rightarrow> Inl (External ''json'')
      | Some (Some (TokenString s)) \<Rightarrow> NewStringAttribute s
      | Some (Some (TokenBool b)) \<Rightarrow> Inr (NewBooleanAttribute b)
      | Some (Some (TokenNumber n)) \<Rightarrow>
          (case parse_int 32 n of
             None \<Rightarrow> Inl (External ''strconv'')
           | Some integer \<Rightarrow> NewIntegerAttribute integer)
      | Some _ \<Rightarrow> Inl (Sentinel ErrInvalidAttribute))"

text \<open>One iteration of the loop over the members of the envelope.\<close>

definition decodeJSONExtension ::
    "Limits \<Rightarrow> (bytes, Attribute) gomap \<Rightarrow> jsonMember \<Rightarrow> (bytes, Attribute) gomap result" where
  "decodeJSONExtension limits extensions member =
     (case member of (name, rawValue) \<Rightarrow>
        if isReservedAttributeName name then Inr extensions
        else if MaxAttributeNameBytes limits \<le> 0 \<or> int (length name) > MaxAttributeNameBytes limits
        then Inl (Sentinel ErrLimitExceeded)
        else if is_null rawValue then Inr extensions
        else case trim_space rawValue of
            [] \<Rightarrow> Inl panicked
          | c # _ \<Rightarrow>
              if (if c = quote then exceedsJSONEncodedStringLimit (trim_space rawValue) (MaxAttributeValueBytes limits)
                  else int (length (trim_space rawValue)) > MaxAttributeValueBytes limits)
              then Inl (Sentinel ErrLimitExceeded)
              else (case decodeJSONAttribute rawValue of
                      Inl _ \<Rightarrow> Inl (Errorf ErrInvalidEvent (''extension '' @ name))
                    | Inr attribute \<Rightarrow>
                        if int (length (Attribute_String attribute)) > MaxAttributeValueBytes limits
                        then Inl (Sentinel ErrLimitExceeded)
                        else Inr (AList.update name attribute extensions)))"

definition base64DecodedLength :: "bytes \<Rightarrow> int" where
  "base64DecodedLength encoded =
     int (b64_decoded_len (length encoded)) - (if has_suffix encoded ''='' then 1 else 0)
       - (if has_suffix encoded ''=='' then 1 else 0)"

definition decodeJSONBase64 :: "bytes \<Rightarrow> Limits \<Rightarrow> Data result" where
  "decodeJSONBase64 rawBase64 limits =
     (let failure = Inl (Errorf ErrInvalidEvent ''data_base64'') in
      if is_null rawBase64 then failure
      else case unmarshal_string rawBase64 of
          None \<Rightarrow> failure
        | Some encoded \<Rightarrow>
            if MaxDataBytes limits \<le> 0 \<or> base64DecodedLength encoded > MaxDataBytes limits
            then Inl (Sentinel ErrLimitExceeded)
            else if list_ex line_break encoded then failure
            else (case b64_decode_strict encoded of
                    None \<Rightarrow> failure
                  | Some decoded \<Rightarrow> Inr (NewBinaryData decoded)))"

definition decodeJSONData :: "(bytes, bytes) gomap \<Rightarrow> bytes \<Rightarrow> Limits \<Rightarrow> Data result" where
  "decodeJSONData members dataContentType limits =
     (case (map_of members ''data'', map_of members ''data_base64'') of
        (Some _, Some _) \<Rightarrow> Inl (Errorf ErrInvalidEvent ''data and data_base64'')
      | (None, Some rawBase64) \<Rightarrow> decodeJSONBase64 rawBase64 limits
      | (None, None) \<Rightarrow> Inr zero_data
      | (Some rawData, None) \<Rightarrow>
          if isJSONMediaType dataContentType then
            (if MaxDataBytes limits \<le> 0 \<or> int (length rawData) > MaxDataBytes limits
             then Inl (Sentinel ErrLimitExceeded) else NewJSONData rawData)
          else if exceedsJSONEncodedStringLimit rawData (MaxDataBytes limits)
          then Inl (Sentinel ErrLimitExceeded)
          else (case unmarshal_string rawData of
                  None \<Rightarrow> Inl (Errorf ErrInvalidEvent ''data'')
                | Some text \<Rightarrow>
                    if int (length text) > MaxDataBytes limits then Inl (Sentinel ErrLimitExceeded)
                    else NewTextData text))"

definition decodeTimeText :: "bytes \<Rightarrow> bool \<Rightarrow> gotime option result" where
  "decodeTimeText timeValue hasTime =
     (if hasTime then
        (case time_parse timeValue of
           None \<Rightarrow> Inl (Errorf ErrInvalidEvent ''time'')
         | Some parsed \<Rightarrow> Inr (Some parsed))
      else Inr None)"

text \<open>The rest of \<open>DecodeJSON\<close>, from the members of the envelope.\<close>

definition decodeJSONMembers :: "(bytes, bytes) gomap \<Rightarrow> Limits \<Rightarrow> Event result" where
  "decodeJSONMembers members limits =
     and_then (stringMember members limits ''specversion'' True) (\<lambda>(specVersionValue, _).
     if specVersionValue \<noteq> specVersion then Inl (Errorf ErrInvalidEvent ''specversion'') else
     and_then (stringMember members limits ''id'' True) (\<lambda>(ident, _).
     and_then (stringMember members limits ''source'' True) (\<lambda>(source, _).
     and_then (stringMember members limits ''type'' True) (\<lambda>(eventType, _).
     and_then (stringMember members limits ''datacontenttype'' False) (\<lambda>(dataContentType, _).
     and_then (stringMember members limits ''dataschema'' False) (\<lambda>(dataSchema, _).
     and_then (stringMember members limits ''subject'' False) (\<lambda>(subject, _).
     and_then (stringMember members limits ''time'' False) (\<lambda>(timeValue, hasTime).
     and_then (decodeTimeText timeValue hasTime) (\<lambda>occurredAt.
     and_then (fold_result (decodeJSONExtension limits) [] members) (\<lambda>extensions.
     and_then (decodeJSONData members dataContentType limits) (\<lambda>data.
     NewEvent \<lparr>a_ID = ident, a_Source = source, a_Type = eventType,
       a_DataContentType = dataContentType, a_DataSchema = dataSchema, a_Subject = subject,
       a_Time = occurredAt, a_Extensions = extensions\<rparr> data)))))))))))"

definition DecodeJSON :: "bytes \<Rightarrow> Limits \<Rightarrow> Event result" where
  "DecodeJSON value limits =
     (if MaxEventBytes limits \<le> 0 \<or> int (length value) > MaxEventBytes limits
      then Inl (Sentinel ErrLimitExceeded)
      else and_then (inspectJSON value (MaxDepth limits)) (\<lambda>_.
        case unmarshal_map value of
          None \<Rightarrow> Inl (Errorf ErrInvalidEvent ''json'')
        | Some members \<Rightarrow>
            if MaxAttributes limits \<le> 0 \<or> int (countJSONAttributes members) > MaxAttributes limits
            then Inl (Sentinel ErrLimitExceeded)
            else decodeJSONMembers members limits))"

definition DecodeJSONBatch :: "bytes \<Rightarrow> Limits \<Rightarrow> Event list result" where
  "DecodeJSONBatch value limits =
     (let failure = Inl (Errorf ErrInvalidEvent ''json batch'') in
      if MaxEventBytes limits \<le> 0 \<or> int (length value) > MaxEventBytes limits
      then Inl (Sentinel ErrLimitExceeded)
      else if MaxDepth limits \<le> 0 \<or> MaxDepth limits = maxInt64 then Inl (Sentinel ErrLimitExceeded)
      else and_then (inspectJSON value (MaxDepth limits + 1)) (\<lambda>_.
        if trim_space value = [] \<or> hd (trim_space value) \<noteq> CHR ''['' then failure
        else case unmarshal_slice value of
            None \<Rightarrow> failure
          | Some rawEvents \<Rightarrow>
              if MaxBatchEvents limits \<le> 0 \<or> int (length rawEvents) > MaxBatchEvents limits
              then Inl (Sentinel ErrLimitExceeded)
              else map_result (\<lambda>rawEvent. DecodeJSON rawEvent limits) rawEvents))"

lemmas inspect_numeral [eval_defs] =
  inspectJSONValue.simps(2) [of "pred_numeral k" for k, folded numeral_eq_Suc]
  inspectMembers.simps(2) [of "pred_numeral k" for k, folded numeral_eq_Suc]
  inspectElements.simps(2) [of "pred_numeral k" for k, folded numeral_eq_Suc]

lemmas json_format_eval [eval_defs] =
  JSONMediaType_def JSONBatchMediaType_def stringMemberText_def extensionMember_def
  newBinaryString_def dataMember_def standardMembers_def jsonMembers_def memberText_def
  encodeJSON_def EncodeJSONWithReport_def EncodeJSON_def eventPrefix_def
  EncodeJSONBatchWithReport_def EncodeJSONBatch_def errJSON_def inspectFuel_def panicked_def
  inspectJSON_def countJSONAttributes_def exceedsJSONEncodedStringLimit_def is_null_def
  stringMember_def decodeJSONAttribute_def decodeJSONExtension_def base64DecodedLength_def
  decodeJSONBase64_def decodeJSONData_def decodeTimeText_def decodeJSONMembers_def
  DecodeJSON_def DecodeJSONBatch_def inspectJSONValue.simps(2) inspectMembers.simps(2)
  inspectElements.simps(2)

end
