(* ===== verification/CE_Json_Inspect.thy ===== *)
theory CE_Json_Inspect
  imports CE_Json
begin

text \<open>
  The token walk of \<open>inspectJSON\<close>. First the tokens: a token always consumes input, and in each state of the
  walk only the expected tokens can come. From this the walk is shown to end with the given fuel and
  without a panic. Then the walk is related to the parser: on a text that parses, it computes the same
  result as \<open>check_tree\<close>, a check of depth and duplicate names on the parse tree.
\<close>

section \<open>Tokens\<close>

lemma scan_scalar_shorter: "scan_scalar s = Some r \<Longrightarrow> length r < length s"
  using scan_scalar_local by fastforce

lemma decoder_token_shorter:
  "decoder_token d = Some (t, d') \<Longrightarrow> length (dec_rest d') < length (dec_rest d)"
proof (induction d rule: decoder_token.induct)
  case (1 d)
  obtain c r where s: "skip_ws (dec_rest d) = c # r"
    using "1.prems" by (subst (asm) decoder_token.simps) (auto split: list.splits)
  then have l: "length r < length (dec_rest d)" using length_skip_ws [of "dec_rest d"] by simp
  have sc: "length u < length (dec_rest d)" if "scan_scalar (c # r) = Some u" for u
    using scan_scalar_shorter [OF that] l by simp
  have st: "length u < length (dec_rest d)" if "scan_string r = Some u" for u
    using scan_string_length [OF that] l by simp
  note p = "1.prems" [unfolded decoder_token.simps [of d] s list.case]
  show ?case
  proof (cases "c = CHR '':'' \<or> c = CHR '',''")
    case True
    then show ?thesis using p "1.IH" [OF s] l by (auto split: if_splits)
  next
    case False
    then show ?thesis using p l sc st
      by (auto simp: decoder_open_def decoder_close_def decoder_scalar_def split: if_splits list.splits)
  qed
qed

text \<open>Where the walk asks for a value, and the state it leaves behind.\<close>

definition value_ready :: "decoder \<Rightarrow> bool" where
  "value_ready d \<longleftrightarrow> dec_state d = TokenTopValue \<or> dec_state d = TokenObjectColon
     \<or> (dec_state d \<in> {TokenArrayStart, TokenArrayComma} \<and> decoder_more d)"

definition state_after :: "token_state \<Rightarrow> token_state" where
  "state_after st =
     (case st of
        TokenObjectColon \<Rightarrow> TokenObjectComma
      | TokenArrayStart \<Rightarrow> TokenArrayComma
      | _ \<Rightarrow> st)"

definition open_state :: "char \<Rightarrow> token_state" where
  "open_state c = (if c = CHR ''{'' then TokenObjectStart else TokenArrayStart)"

text \<open>A value token: a container opens, or a scalar is complete.\<close>

definition value_token :: "token_state \<Rightarrow> token_state list \<Rightarrow> token \<Rightarrow> decoder \<Rightarrow> bool" where
  "value_token after stack t d \<longleftrightarrow>
     (case t of
        Delim c \<Rightarrow> c \<in> {CHR ''{'', CHR ''[''} \<and> dec_state d = open_state c
          \<and> (\<exists>st. dec_stack d = st # stack \<and> token_value_end st = after)
      | _ \<Rightarrow> dec_state d = after \<and> dec_stack d = stack)"

lemma scalar_token_not_Delim: "scalar_token w \<noteq> Delim c"
  by (simp add: scalar_token_def)

lemma allowed_token:
  assumes "token_value_allowed (dec_state d)" and "dec_state d \<noteq> TokenArrayStart \<or> decoder_more d"
    and t: "decoder_token d = Some (t, d1)"
  shows "value_token (token_value_end (dec_state d)) (dec_stack d) t d1"
proof -
  obtain c r where s: "skip_ws (dec_rest d) = c # r"
    using t by (subst (asm) decoder_token.simps) (auto split: list.splits)
  note p = t [unfolded decoder_token.simps [of d] s list.case]
  have c: "c \<noteq> CHR '']'' \<or> dec_state d \<noteq> TokenArrayStart" using assms(2) s by (auto simp: decoder_more_def)
  have sc: "case_token (\<lambda>c. P c) (\<lambda>_. Q) (\<lambda>_. Q) (\<lambda>_. Q) Q (scalar_token w) = Q" for P Q w
    using scalar_token_not_Delim [of w] by (cases "scalar_token w") auto
  show ?thesis
    using p c assms(1)
    by (auto simp: value_token_def decoder_open_def decoder_close_def decoder_scalar_def open_state_def
        token_value_allowed_def sc split: if_splits list.splits)
qed

lemma value_ready_token:
  assumes "value_ready d" and t: "decoder_token d = Some (t, d1)"
  shows "value_token (state_after (dec_state d)) (dec_stack d) t d1"
proof -
  obtain c r where s: "skip_ws (dec_rest d) = c # r"
    using t by (subst (asm) decoder_token.simps) (auto split: list.splits)
  note p = t [unfolded decoder_token.simps [of d] s list.case]
  consider "token_value_allowed (dec_state d)" | "dec_state d = TokenObjectColon" | "dec_state d = TokenArrayComma"
    using assms(1) by (auto simp: value_ready_def token_value_allowed_def)
  then show ?thesis
  proof cases
    case 1
    have "state_after (dec_state d) = token_value_end (dec_state d)"
      using 1 assms(1) by (auto simp: value_ready_def state_after_def token_value_end_def token_value_allowed_def)
    then show ?thesis using allowed_token [OF 1 _ t] assms(1) by (auto simp: value_ready_def)
  next
    case 2
    then have "decoder_token (d\<lparr>dec_rest := r, dec_state := TokenObjectValue\<rparr>) = Some (t, d1)"
      using p by (auto simp: decoder_open_def decoder_close_def decoder_scalar_def token_value_allowed_def split: if_splits)
    from allowed_token [OF _ _ this] show ?thesis using 2
      by (simp add: token_value_allowed_def token_value_end_def state_after_def)
  next
    case 3
    then have "c \<noteq> CHR '']''" using assms(1) s by (auto simp: value_ready_def decoder_more_def)
    then have "decoder_token (d\<lparr>dec_rest := r, dec_state := TokenArrayValue\<rparr>) = Some (t, d1)"
      using p 3 by (auto simp: decoder_open_def decoder_close_def decoder_scalar_def token_value_allowed_def split: if_splits)
    from allowed_token [OF _ _ this] show ?thesis using 3
      by (simp add: token_value_allowed_def token_value_end_def state_after_def)
  qed
qed

lemma key_token:
  assumes "dec_state d \<in> {TokenObjectStart, TokenObjectComma}" and "decoder_more d"
    and t: "decoder_token d = Some (t, d1)"
  shows "\<exists>name. t = TokenString name \<and> dec_state d1 = TokenObjectColon \<and> dec_stack d1 = dec_stack d"
proof -
  have start: "\<exists>name. t = TokenString name \<and> dec_state d1 = TokenObjectColon \<and> dec_stack d1 = dec_stack e"
    if e1: "dec_state e = TokenObjectStart \<and> decoder_more e \<or> dec_state e = TokenObjectKey"
      and e2: "decoder_token e = Some (t, d1)" for e
  proof -
    obtain c r where s: "skip_ws (dec_rest e) = c # r"
      using e2 by (subst (asm) decoder_token.simps) (auto split: list.splits)
    have c: "dec_state e = TokenObjectStart \<longrightarrow> c \<noteq> CHR ''}''" using e1 s by (auto simp: decoder_more_def)
    show ?thesis using e2 [unfolded decoder_token.simps [of e] s list.case] e1 c
      by (auto simp: decoder_open_def decoder_close_def decoder_scalar_def token_value_allowed_def split: if_splits)
  qed
  show ?thesis
  proof (cases "dec_state d = TokenObjectStart")
    case True
    then show ?thesis using start [of d] assms by blast
  next
    case False
    then have st: "dec_state d = TokenObjectComma" using assms(1) by simp
    obtain c r where s: "skip_ws (dec_rest d) = c # r"
      using t by (subst (asm) decoder_token.simps) (auto split: list.splits)
    have "c \<noteq> CHR ''}''" using assms(2) s by (auto simp: decoder_more_def)
    then have "decoder_token (d\<lparr>dec_rest := r, dec_state := TokenObjectKey\<rparr>) = Some (t, d1)"
      using t [unfolded decoder_token.simps [of d] s list.case] st
      by (auto simp: decoder_open_def decoder_close_def decoder_scalar_def token_value_allowed_def split: if_splits)
    then show ?thesis using start [of "d\<lparr>dec_rest := r, dec_state := TokenObjectKey\<rparr>"] by simp
  qed
qed

lemma close_token:
  assumes "\<not> decoder_more d" and "dec_stack d = st # stack"
    and t: "decoder_token d = Some (t, d1)"
  shows "dec_state d1 = token_value_end st \<and> dec_stack d1 = stack"
proof -
  obtain c r where s: "skip_ws (dec_rest d) = c # r"
    using t by (subst (asm) decoder_token.simps) (auto split: list.splits)
  then have "c = CHR '']'' \<or> c = CHR ''}''" using assms(1) by (auto simp: decoder_more_def)
  then show ?thesis using t [unfolded decoder_token.simps [of d] s list.case] assms(2)
    by (auto simp: decoder_close_def split: if_splits)
qed

section \<open>The walk ends without a panic\<close>

definition walk_errors :: "go_error set" where
  "walk_errors = {errJSON, Sentinel ErrLimitExceeded, Errorf ErrInvalidEvent ''duplicate member''}"

definition ends_well :: "(decoder \<Rightarrow> bool) \<Rightarrow> decoder outcome \<Rightarrow> bool" where
  "ends_well P r \<longleftrightarrow>
     (case r of Done d \<Rightarrow> P d | Fail e \<Rightarrow> e \<in> walk_errors | Panic \<Rightarrow> False | OutOfFuel \<Rightarrow> False)"

lemma ends_well_simps [simp]:
  "ends_well P (Done d) \<longleftrightarrow> P d" "ends_well P (Fail e) \<longleftrightarrow> e \<in> walk_errors"
  "\<not> ends_well P Panic" "\<not> ends_well P OutOfFuel"
  by (simp_all add: ends_well_def)

lemma walk_errors_mem [simp]:
  "errJSON \<in> walk_errors" "Sentinel ErrLimitExceeded \<in> walk_errors"
  "Errorf ErrInvalidEvent ''duplicate member'' \<in> walk_errors"
  by (simp_all add: walk_errors_def)

lemma ends_well_then:
  assumes "ends_well P r" and "\<And>d. r = Done d \<Longrightarrow> P d \<Longrightarrow> ends_well Q (f d)"
  shows "ends_well Q (case r of Done d \<Rightarrow> f d | x \<Rightarrow> x)"
  using assms by (cases r) auto

definition after_walk :: "decoder \<Rightarrow> decoder \<Rightarrow> bool" where
  "after_walk d d' \<longleftrightarrow> dec_state d' = state_after (dec_state d) \<and> dec_stack d' = dec_stack d
     \<and> length (dec_rest d') < length (dec_rest d)"

definition after_loop :: "token_state set \<Rightarrow> decoder \<Rightarrow> decoder \<Rightarrow> bool" where
  "after_loop sts d d' \<longleftrightarrow> dec_state d' \<in> sts \<and> dec_stack d' = dec_stack d
     \<and> length (dec_rest d') \<le> length (dec_rest d) \<and> \<not> decoder_more d'"

abbreviation "object_states \<equiv> {TokenObjectStart, TokenObjectComma}"

abbreviation "array_states \<equiv> {TokenArrayStart, TokenArrayComma}"

lemma inspect_value_safe:
  assumes ready: "value_ready d"
    and M: "\<And>d lvl topl seen. dec_state d \<in> object_states \<Longrightarrow> 2 * length (dec_rest d) + 2 \<le> f \<Longrightarrow>
      ends_well (after_loop object_states d) (inspectMembers f d lvl mx topl seen)"
    and E: "\<And>d lvl. dec_state d \<in> array_states \<Longrightarrow> 2 * length (dec_rest d) + 2 \<le> f \<Longrightarrow>
      ends_well (after_loop array_states d) (inspectElements f d lvl mx)"
    and fuel: "2 * length (dec_rest d) + 1 \<le> Suc f"
  shows "ends_well (after_walk d) (inspectJSONValue (Suc f) d lvl mx topl)"
proof (cases "decoder_token d")
  case None
  then show ?thesis by (simp add: inspectJSONValue.simps(2))
next
  case (Some p)
  obtain t d1 where t: "decoder_token d = Some (t, d1)" using Some by (cases p) auto
  note sh = decoder_token_shorter [OF t]
  note vt = value_ready_token [OF ready t]
  show ?thesis
  proof (cases "\<exists>c. t = Delim c")
    case False
    then show ?thesis using vt sh
      by (auto simp: inspectJSONValue.simps(2) t value_token_def after_walk_def split: token.splits)
  next
    case True
    then obtain c where c: "t = Delim c" by blast
    obtain st where st: "c \<in> {CHR ''{'', CHR ''[''}" "dec_state d1 = open_state c"
      "dec_stack d1 = st # dec_stack d" "token_value_end st = state_after (dec_state d)"
      using vt c by (auto simp: value_token_def)
    let ?loop = "if c = CHR ''{'' then inspectMembers f d1 (lvl + 1) mx topl [] else inspectElements f d1 (lvl + 1) mx"
    have "ends_well (\<lambda>d2. dec_stack d2 = dec_stack d1 \<and> length (dec_rest d2) \<le> length (dec_rest d1) \<and> \<not> decoder_more d2) ?loop"
    proof (cases "c = CHR ''{''")
      case True
      have "ends_well (after_loop object_states d1) (inspectMembers f d1 (lvl + 1) mx topl [])"
        using st True sh fuel by (intro M) (auto simp: open_state_def)
      then show ?thesis using True
        by (cases "inspectMembers f d1 (lvl + 1) mx topl []") (auto simp: after_loop_def)
    next
      case False
      have "ends_well (after_loop array_states d1) (inspectElements f d1 (lvl + 1) mx)"
        using st False sh fuel by (intro E) (auto simp: open_state_def)
      then show ?thesis using False
        by (cases "inspectElements f d1 (lvl + 1) mx") (auto simp: after_loop_def)
    qed
    then have "ends_well (after_walk d) (case ?loop of
        Done d2 \<Rightarrow> (case decoder_token d2 of None \<Rightarrow> Fail errJSON | Some (_, d3) \<Rightarrow> Done d3) | r \<Rightarrow> r)"
    proof (rule ends_well_then)
      fix d2 assume "dec_stack d2 = dec_stack d1 \<and> length (dec_rest d2) \<le> length (dec_rest d1) \<and> \<not> decoder_more d2"
      then show "ends_well (after_walk d)
          (case decoder_token d2 of None \<Rightarrow> Fail errJSON | Some (_, d3) \<Rightarrow> Done d3)"
        using close_token [of d2 st "dec_stack d"] decoder_token_shorter [of d2] st sh
        by (auto simp: after_walk_def split: option.splits)
    qed
    then show ?thesis by (simp add: inspectJSONValue.simps(2) t c)
  qed
qed

lemma inspect_members_safe:
  assumes st: "dec_state d \<in> object_states"
    and V: "\<And>d lvl topl. value_ready d \<Longrightarrow> 2 * length (dec_rest d) + 1 \<le> f \<Longrightarrow>
      ends_well (after_walk d) (inspectJSONValue f d lvl mx topl)"
    and M: "\<And>d lvl topl seen. dec_state d \<in> object_states \<Longrightarrow> 2 * length (dec_rest d) + 2 \<le> f \<Longrightarrow>
      ends_well (after_loop object_states d) (inspectMembers f d lvl mx topl seen)"
    and fuel: "2 * length (dec_rest d) + 2 \<le> Suc f"
  shows "ends_well (after_loop object_states d) (inspectMembers (Suc f) d lvl mx topl seen)"
proof (cases "decoder_more d")
  case False
  then show ?thesis using st by (simp add: inspectMembers.simps(2) after_loop_def)
next
  case more: True
  show ?thesis
  proof (cases "decoder_token d")
    case None
    then show ?thesis using more by (simp add: inspectMembers.simps(2))
  next
    case (Some p)
    obtain t d1 where t: "decoder_token d = Some (t, d1)" using Some by (cases p) auto
    note sh = decoder_token_shorter [OF t]
    obtain name where n: "t = TokenString name" "dec_state d1 = TokenObjectColon" "dec_stack d1 = dec_stack d"
      using key_token [OF st more t] by blast
    let ?seen = "if topl then name # seen else seen"
    have v: "ends_well (after_walk d1) (inspectJSONValue f d1 lvl mx False)"
      using n sh fuel by (intro V) (auto simp: value_ready_def)
    have "ends_well (after_loop object_states d) (case inspectJSONValue f d1 lvl mx False of
        Done d2 \<Rightarrow> inspectMembers f d2 lvl mx topl ?seen | r \<Rightarrow> r)"
      using v
    proof (rule ends_well_then)
      fix d2 assume a: "after_walk d1 d2"
      then have "dec_state d2 = TokenObjectComma" using n by (simp add: after_walk_def state_after_def)
      then have "ends_well (after_loop object_states d2) (inspectMembers f d2 lvl mx topl ?seen)"
        using a sh fuel by (intro M) (auto simp: after_walk_def)
      then show "ends_well (after_loop object_states d) (inspectMembers f d2 lvl mx topl ?seen)"
        using a n sh by (cases "inspectMembers f d2 lvl mx topl ?seen") (auto simp: after_loop_def after_walk_def)
    qed
    then show ?thesis using more t n by (simp add: inspectMembers.simps(2))
  qed
qed

lemma inspect_elements_safe:
  assumes st: "dec_state d \<in> array_states"
    and V: "\<And>d lvl topl. value_ready d \<Longrightarrow> 2 * length (dec_rest d) + 1 \<le> f \<Longrightarrow>
      ends_well (after_walk d) (inspectJSONValue f d lvl mx topl)"
    and E: "\<And>d lvl. dec_state d \<in> array_states \<Longrightarrow> 2 * length (dec_rest d) + 2 \<le> f \<Longrightarrow>
      ends_well (after_loop array_states d) (inspectElements f d lvl mx)"
    and fuel: "2 * length (dec_rest d) + 2 \<le> Suc f"
  shows "ends_well (after_loop array_states d) (inspectElements (Suc f) d lvl mx)"
proof (cases "decoder_more d")
  case False
  then show ?thesis using st by (simp add: inspectElements.simps(2) after_loop_def)
next
  case more: True
  have v: "ends_well (after_walk d) (inspectJSONValue f d lvl mx False)"
    using st more fuel by (intro V) (auto simp: value_ready_def)
  have "ends_well (after_loop array_states d) (case inspectJSONValue f d lvl mx False of
      Done d2 \<Rightarrow> inspectElements f d2 lvl mx | r \<Rightarrow> r)"
    using v
  proof (rule ends_well_then)
    fix d2 assume a: "after_walk d d2"
    then have "dec_state d2 = TokenArrayComma" using st by (auto simp: after_walk_def state_after_def)
    then have "ends_well (after_loop array_states d2) (inspectElements f d2 lvl mx)"
      using a fuel by (intro E) (auto simp: after_walk_def)
    then show "ends_well (after_loop array_states d) (inspectElements f d2 lvl mx)"
      using a by (cases "inspectElements f d2 lvl mx") (auto simp: after_loop_def after_walk_def)
  qed
  then show ?thesis using more by (simp add: inspectElements.simps(2))
qed

lemma inspect_safe:
  "value_ready d \<Longrightarrow> 2 * length (dec_rest d) + 1 \<le> f \<Longrightarrow>
     ends_well (after_walk d) (inspectJSONValue f d lvl mx topl)"
  "dec_state d \<in> object_states \<Longrightarrow> 2 * length (dec_rest d) + 2 \<le> f \<Longrightarrow>
     ends_well (after_loop object_states d) (inspectMembers f d lvl mx topl seen)"
  "dec_state d \<in> array_states \<Longrightarrow> 2 * length (dec_rest d) + 2 \<le> f \<Longrightarrow>
     ends_well (after_loop array_states d) (inspectElements f d lvl mx)"
proof (induction f arbitrary: d lvl topl seen)
  case (Suc f)
  { case 1 then show ?case by (intro inspect_value_safe Suc.IH(2,3)) auto }
  { case 2 then show ?case by (intro inspect_members_safe Suc.IH(1,2)) auto }
  { case 3 then show ?case by (intro inspect_elements_safe Suc.IH(1,3)) auto }
qed simp_all

section \<open>The walk computes a check of the tree\<close>

fun first_error :: "go_error option list \<Rightarrow> go_error option" where
  "first_error [] = None"
| "first_error (e # es) = (case e of Some x \<Rightarrow> Some x | None \<Rightarrow> first_error es)"

fun members_error :: "bool \<Rightarrow> bytes list \<Rightarrow> (bytes \<times> go_error option) list \<Rightarrow> go_error option" where
  "members_error topl seen [] = None"
| "members_error topl seen ((k, e) # ms) =
     (if topl \<and> k \<in> set seen then Some (Errorf ErrInvalidEvent ''duplicate member'')
      else case e of
          Some x \<Rightarrow> Some x
        | None \<Rightarrow> members_error topl (if topl then k # seen else seen) ms)"

fun check_tree :: "int \<Rightarrow> int \<Rightarrow> bool \<Rightarrow> jtree \<Rightarrow> go_error option" where
  "check_tree lvl mx topl (JScalar _) = None"
| "check_tree lvl mx topl (JArray _ ts) =
     (if lvl + 1 > mx then Some (Sentinel ErrLimitExceeded)
      else first_error (map (check_tree (lvl + 1) mx False) ts))"
| "check_tree lvl mx topl (JObject _ ms) =
     (if lvl + 1 > mx then Some (Sentinel ErrLimitExceeded)
      else members_error topl [] (map (\<lambda>p. (fst p, check_tree (lvl + 1) mx False (snd p))) ms))"

lemma decoder_token_skip_ws:
  "decoder_token (d\<lparr>dec_rest := skip_ws r, dec_state := st\<rparr>)
     = decoder_token (d\<lparr>dec_rest := r, dec_state := st\<rparr>)"
  by (simp add: decoder_token.simps [of "d\<lparr>dec_rest := skip_ws r, dec_state := st\<rparr>"]
      decoder_token.simps [of "d\<lparr>dec_rest := r, dec_state := st\<rparr>"] decoder_open_def decoder_close_def
      decoder_scalar_def split: list.split)

definition value_at :: "decoder \<Rightarrow> bytes \<Rightarrow> token_state \<Rightarrow> bool" where
  "value_at d s st \<longleftrightarrow> token_value_allowed st
     \<and> decoder_token d = decoder_token (d\<lparr>dec_rest := s, dec_state := st\<rparr>)"

definition members_at :: "decoder \<Rightarrow> bytes \<Rightarrow> token_state \<Rightarrow> bool" where
  "members_at d s st \<longleftrightarrow> st \<in> {TokenObjectStart, TokenObjectKey} \<and> decoder_more d
     \<and> decoder_token d = decoder_token (d\<lparr>dec_rest := s, dec_state := st\<rparr>)"

abbreviation member_errors :: "int \<Rightarrow> int \<Rightarrow> (bytes \<times> jtree) list \<Rightarrow> (bytes \<times> go_error option) list" where
  "member_errors lvl mx ms \<equiv> map (\<lambda>p. (fst p, check_tree lvl mx False (snd p))) ms"

definition walks_value :: "nat \<Rightarrow> jtree \<Rightarrow> bytes \<Rightarrow> bytes \<Rightarrow> int \<Rightarrow> bool" where
  "walks_value g t s r mx \<longleftrightarrow> (\<forall>d st lvl topl. value_at d s st \<longrightarrow>
     inspectJSONValue g d lvl mx topl =
       (case check_tree lvl mx topl t of
          Some e \<Rightarrow> Fail e
        | None \<Rightarrow> Done \<lparr>dec_rest = r, dec_state = token_value_end st, dec_stack = dec_stack d\<rparr>))"

definition walks_members :: "nat \<Rightarrow> (bytes \<times> jtree) list \<Rightarrow> bytes \<Rightarrow> bytes \<Rightarrow> int \<Rightarrow> bool" where
  "walks_members g ms s r mx \<longleftrightarrow> (\<forall>d st lvl topl seen. members_at d s st \<longrightarrow>
     (case members_error topl seen (member_errors lvl mx ms) of
        Some e \<Rightarrow> inspectMembers g d lvl mx topl seen = Fail e
      | None \<Rightarrow> \<exists>u. skip_ws u = CHR ''}'' # r \<and> inspectMembers g d lvl mx topl seen
            = Done \<lparr>dec_rest = u, dec_state = TokenObjectComma, dec_stack = dec_stack d\<rparr>))"

definition walks_elements :: "nat \<Rightarrow> jtree list \<Rightarrow> bytes \<Rightarrow> bytes \<Rightarrow> int \<Rightarrow> bool" where
  "walks_elements g ts s r mx \<longleftrightarrow> (\<forall>d st lvl. value_at d s st \<and> decoder_more d
       \<and> st \<in> {TokenArrayStart, TokenArrayValue} \<longrightarrow>
     (case first_error (map (check_tree lvl mx False) ts) of
        Some e \<Rightarrow> inspectElements g d lvl mx = Fail e
      | None \<Rightarrow> \<exists>u. skip_ws u = CHR '']'' # r \<and> inspectElements g d lvl mx
            = Done \<lparr>dec_rest = u, dec_state = TokenArrayComma, dec_stack = dec_stack d\<rparr>))"

text \<open>The tokens between the values.\<close>

lemma token_colon:
  "skip_ws r = CHR '':'' # u \<Longrightarrow> dec_state d = TokenObjectColon \<Longrightarrow> dec_rest d = r \<Longrightarrow>
     value_at d (skip_ws u) TokenObjectValue"
  unfolding value_at_def decoder_token.simps [of d]
  by (simp add: decoder_token_skip_ws token_value_allowed_def)

lemma token_comma_object:
  "skip_ws r = CHR '','' # u \<Longrightarrow> dec_state d = TokenObjectComma \<Longrightarrow> dec_rest d = r \<Longrightarrow>
     members_at d (skip_ws u) TokenObjectKey"
  unfolding members_at_def decoder_token.simps [of d]
  by (simp add: decoder_token_skip_ws decoder_more_def)

lemma token_comma_array:
  "skip_ws r = CHR '','' # u \<Longrightarrow> dec_state d = TokenArrayComma \<Longrightarrow> dec_rest d = r \<Longrightarrow>
     value_at d (skip_ws u) TokenArrayValue \<and> decoder_more d"
  unfolding value_at_def decoder_token.simps [of d]
  by (simp add: decoder_token_skip_ws decoder_more_def token_value_allowed_def)

lemma token_close:
  assumes "skip_ws (dec_rest d) = c # r" "dec_stack d = st # stack"
    and "c = CHR ''}'' \<and> dec_state d \<in> object_states \<or> c = CHR '']'' \<and> dec_state d \<in> array_states"
  shows "decoder_token d = Some (Delim c, \<lparr>dec_rest = r, dec_state = token_value_end st, dec_stack = stack\<rparr>)"
  unfolding decoder_token.simps [of d] assms(1) list.case
  using assms(3) by (elim disjE conjE) (simp_all add: decoder_close_def assms(2))

lemma walks_elements_step:
  assumes V: "\<And>n s t r. parse_value f n s = Some (t, r) \<Longrightarrow> 2 * length s + 1 \<le> g \<Longrightarrow> walks_value g t s r mx"
    and E: "\<And>n s ts r. parse_elements f n s = Some (ts, r) \<Longrightarrow> 2 * length s + 2 \<le> g \<Longrightarrow> walks_elements g ts s r mx"
    and p: "parse_elements (Suc f) n s = Some (ts, r)" and l: "2 * length s + 2 \<le> Suc g"
  shows "walks_elements (Suc g) ts s r mx"
  unfolding walks_elements_def
proof (intro allI impI, elim conjE)
  fix d st lvl
  assume d: "value_at d s st" "decoder_more d" "st \<in> {TokenArrayStart, TokenArrayValue}"
  from p obtain t r3 h r4 where v: "parse_value f n s = Some (t, r3)" and sk: "skip_ws r3 = h # r4"
    and h: "h = CHR '']'' \<and> ts = [t] \<and> r = r4
      \<or> h = CHR '','' \<and> (\<exists>us. parse_elements f n (skip_ws r4) = Some (us, r) \<and> ts = t # us)"
    by (auto simp: parse_elements.simps(2) split: option.splits list.splits if_splits)
  let ?d2 = "\<lparr>dec_rest = r3, dec_state = TokenArrayComma, dec_stack = dec_stack d\<rparr>"
  have "walks_value g t s r3 mx" using V [OF v] l by simp
  moreover have "token_value_end st = TokenArrayComma" using d(3) by (auto simp: token_value_end_def)
  ultimately have wv: "inspectJSONValue g d lvl mx False
      = (case check_tree lvl mx False t of Some e \<Rightarrow> Fail e | None \<Rightarrow> Done ?d2)"
    using d(1) by (simp add: walks_value_def split: option.split)
  have l4: "2 * length (skip_ws r4) + 2 \<le> g" "0 < g"
    using parse_value_shorter [OF v] sk length_skip_ws [of r3] length_skip_ws [of r4] l by auto
  show "case first_error (map (check_tree lvl mx False) ts) of
        Some e \<Rightarrow> inspectElements (Suc g) d lvl mx = Fail e
      | None \<Rightarrow> \<exists>u. skip_ws u = CHR '']'' # r \<and> inspectElements (Suc g) d lvl mx
            = Done \<lparr>dec_rest = u, dec_state = TokenArrayComma, dec_stack = dec_stack d\<rparr>"
  proof (cases "check_tree lvl mx False t")
    case (Some e)
    then show ?thesis using h wv d(2) by (auto simp: inspectElements.simps(2))
  next
    case None
    from h show ?thesis
    proof (elim disjE conjE exE)
      assume *: "h = CHR '']''" "ts = [t]" "r = r4"
      obtain g' where g': "g = Suc g'" using l4(2) by (cases g) auto
      have "\<not> decoder_more ?d2" using sk * by (simp add: decoder_more_def)
      then show ?thesis using None wv d(2) sk * g' by (auto simp: inspectElements.simps(2))
    next
      fix us assume *: "h = CHR '',''" "parse_elements f n (skip_ws r4) = Some (us, r)" "ts = t # us"
      have a: "value_at ?d2 (skip_ws r4) TokenArrayValue \<and> decoder_more ?d2"
        using sk * by (intro token_comma_array) auto
      have "walks_elements g us (skip_ws r4) r mx" using E [OF *(2)] l4 by blast
      from this [unfolded walks_elements_def, rule_format, of ?d2 TokenArrayValue lvl] a
      show ?thesis using None wv d(2) * by (auto simp: inspectElements.simps(2) split: option.splits)
    qed
  qed
qed

lemma walks_members_step:
  assumes V: "\<And>n s t r. parse_value f n s = Some (t, r) \<Longrightarrow> 2 * length s + 1 \<le> g \<Longrightarrow> walks_value g t s r mx"
    and M: "\<And>n s ms r. parse_members f n s = Some (ms, r) \<Longrightarrow> 2 * length s + 2 \<le> g \<Longrightarrow> walks_members g ms s r mx"
    and p: "parse_members (Suc f) n s = Some (ms, r)" and l: "2 * length s + 2 \<le> Suc g"
  shows "walks_members (Suc g) ms s r mx"
  unfolding walks_members_def
proof (intro allI impI)
  fix d st lvl topl seen
  assume d: "members_at d s st"
  from p obtain x r1 r2 t r3 h r4 where s: "s = quote # x" and sc: "scan_string x = Some r1"
    and col: "skip_ws r1 = CHR '':'' # r2"
    and v: "parse_value f n (skip_ws r2) = Some (t, r3)" and sk: "skip_ws r3 = h # r4"
    and h: "h = CHR ''}'' \<and> ms = [(unquoted (string_body x r1), t)] \<and> r = r4
      \<or> h = CHR '','' \<and> (\<exists>us. parse_members f n (skip_ws r4) = Some (us, r)
            \<and> ms = (unquoted (string_body x r1), t) # us)"
    by (auto simp: parse_members.simps(2) split: option.splits list.splits if_splits)
  define k where "k = unquoted (string_body x r1)"
  let ?d1 = "\<lparr>dec_rest = r1, dec_state = TokenObjectColon, dec_stack = dec_stack d\<rparr>"
  let ?d2 = "\<lparr>dec_rest = r3, dec_state = TokenObjectComma, dec_stack = dec_stack d\<rparr>"
  define sn where "sn = (if topl then k # seen else seen)"
  have more: "decoder_more d" using d by (simp add: members_at_def)
  have "decoder_token d = decoder_token (d\<lparr>dec_rest := s, dec_state := st\<rparr>)" "st \<in> {TokenObjectStart, TokenObjectKey}"
    using d by (auto simp: members_at_def)
  moreover have "skip_ws (quote # x) = quote # x" by (simp add: json_space_def quote_def)
  moreover have "(d\<lparr>dec_rest := r1, dec_state := TokenObjectColon\<rparr>) = ?d1" by simp
  ultimately have tok: "decoder_token d = Some (TokenString k, ?d1)"
    using sc unfolding s k_def decoder_token.simps [of "d\<lparr>dec_rest := quote # x, dec_state := st\<rparr>"]
    by (auto simp: quote_def)
  have l2: "length (skip_ws r2) < length x" "length (skip_ws r4) < length x"
    using scan_string_length [OF sc] length_skip_ws [of r1] length_skip_ws [of r2] col
      parse_value_shorter [OF v] sk length_skip_ws [of r3] length_skip_ws [of r4] by auto
  have l4: "2 * length (skip_ws r2) + 1 \<le> g" "2 * length (skip_ws r4) + 2 \<le> g" "0 < g"
    using l2 l s by auto
  have "value_at ?d1 (skip_ws r2) TokenObjectValue" by (rule token_colon [OF col]) simp_all
  then have wv: "inspectJSONValue g ?d1 lvl mx False
      = (case check_tree lvl mx False t of Some e \<Rightarrow> Fail e | None \<Rightarrow> Done ?d2)"
    using V [OF v l4(1)] by (auto simp: walks_value_def token_value_end_def split: option.split)
  have step: "inspectMembers (Suc g) d lvl mx topl seen =
      (if topl \<and> k \<in> set seen then Fail (Errorf ErrInvalidEvent ''duplicate member'')
       else case check_tree lvl mx False t of Some e \<Rightarrow> Fail e | None \<Rightarrow> inspectMembers g ?d2 lvl mx topl sn)"
    using more tok wv by (auto simp: inspectMembers.simps(2) sn_def split: option.split)
  obtain us where ms: "ms = (k, t) # us"
    and us: "h = CHR ''}'' \<and> us = [] \<and> r = r4 \<or> h = CHR '','' \<and> parse_members f n (skip_ws r4) = Some (us, r)"
    using h by (auto simp: k_def)
  have rest: "case members_error topl sn (member_errors lvl mx us) of
        Some e \<Rightarrow> inspectMembers g ?d2 lvl mx topl sn = Fail e
      | None \<Rightarrow> \<exists>u. skip_ws u = CHR ''}'' # r \<and> inspectMembers g ?d2 lvl mx topl sn
            = Done \<lparr>dec_rest = u, dec_state = TokenObjectComma, dec_stack = dec_stack d\<rparr>"
    using us
  proof (elim disjE conjE)
    assume *: "h = CHR ''}''" "us = []" "r = r4"
    then have "inspectMembers g ?d2 lvl mx topl sn = Done ?d2"
      using l4(3) sk by (cases g) (auto simp: inspectMembers.simps(2) decoder_more_def)
    then show ?thesis using sk * by auto
  next
    assume *: "h = CHR '',''" "parse_members f n (skip_ws r4) = Some (us, r)"
    have a: "members_at ?d2 (skip_ws r4) TokenObjectKey" using sk * by (intro token_comma_object) auto
    from M [OF *(2) l4(2), unfolded walks_members_def, rule_format, OF a, of lvl topl sn]
    show ?thesis by (cases "members_error topl sn (member_errors lvl mx us)") auto
  qed
  have me: "members_error topl seen ((k, e) # es) =
      (if topl \<and> k \<in> set seen then Some (Errorf ErrInvalidEvent ''duplicate member'')
       else case e of Some x \<Rightarrow> Some x | None \<Rightarrow> members_error topl sn es)" for e es
    unfolding sn_def by (rule members_error.simps(2))
  show "case members_error topl seen (member_errors lvl mx ms) of
        Some e \<Rightarrow> inspectMembers (Suc g) d lvl mx topl seen = Fail e
      | None \<Rightarrow> \<exists>u. skip_ws u = CHR ''}'' # r \<and> inspectMembers (Suc g) d lvl mx topl seen
            = Done \<lparr>dec_rest = u, dec_state = TokenObjectComma, dec_stack = dec_stack d\<rparr>"
    unfolding ms list.map fst_conv snd_conv me step using rest
    by (cases "check_tree lvl mx False t"; cases "members_error topl sn (member_errors lvl mx us)") auto
qed

lemma walks_scalar:
  assumes "c \<noteq> CHR ''{''" "c \<noteq> CHR ''[''" and p: "parse_value (Suc f) n (c # x) = Some (t, r)"
  shows "walks_value (Suc g) t (c # x) r mx"
  unfolding walks_value_def
proof (intro allI impI)
  fix d st lvl topl
  assume d: "value_at d (c # x) st"
  obtain sc: "scan_scalar (c # x) = Some r" and t: "t = JScalar (upto_rest (c # x) r)"
    using assms by (auto simp: parse_value.simps(2))
  have sp: "skip_ws (c # x) = c # x" using parse_value_nonspace [OF p] by simp
  have c: "c \<noteq> CHR '']''" "c \<noteq> CHR ''}''" "c \<noteq> CHR '':''" "c \<noteq> CHR '',''"
    using sc by (auto simp: scan_scalar_def quote_def is_digit_def)
  have st: "st \<notin> {TokenObjectStart, TokenObjectKey}" "token_value_allowed st"
    using d by (auto simp: value_at_def token_value_allowed_def)
  have "decoder_token d = decoder_token (d\<lparr>dec_rest := c # x, dec_state := st\<rparr>)"
    using d by (simp add: value_at_def)
  also have "\<dots> = decoder_scalar (c # x) (d\<lparr>dec_rest := c # x, dec_state := st\<rparr>)"
    using sp c st assms(1,2) unfolding decoder_token.simps [of "d\<lparr>dec_rest := c # x, dec_state := st\<rparr>"] by simp
  also have "\<dots> = Some (scalar_token (upto_rest (c # x) r),
      \<lparr>dec_rest = r, dec_state = token_value_end st, dec_stack = dec_stack d\<rparr>)"
    using sc st by (simp add: decoder_scalar_def)
  finally show "inspectJSONValue (Suc g) d lvl mx topl =
       (case check_tree lvl mx topl t of
          Some e \<Rightarrow> Fail e
        | None \<Rightarrow> Done \<lparr>dec_rest = r, dec_state = token_value_end st, dec_stack = dec_stack d\<rparr>)"
    using scalar_token_not_Delim [of "upto_rest (c # x) r"] t
    by (simp add: inspectJSONValue.simps(2) split: token.split)
qed

lemma token_open:
  assumes "value_at d (c # x) st" and "c = CHR ''{'' \<or> c = CHR ''[''"
  shows "decoder_token d = Some (Delim c,
    \<lparr>dec_rest = x, dec_state = open_state c, dec_stack = st # dec_stack d\<rparr>)"
proof -
  have "skip_ws (c # x) = c # x" using assms(2) by (auto simp: json_space_def)
  then have "decoder_token (d\<lparr>dec_rest := c # x, dec_state := st\<rparr>)
      = decoder_open c (open_state c) x (d\<lparr>dec_rest := c # x, dec_state := st\<rparr>)"
    using assms(2) unfolding decoder_token.simps [of "d\<lparr>dec_rest := c # x, dec_state := st\<rparr>"]
    by (elim disjE) (simp_all add: open_state_def)
  then show ?thesis using assms(1) by (simp add: value_at_def decoder_open_def)
qed

lemma walks_object:
  assumes M: "\<And>n s ms r. parse_members f n s = Some (ms, r) \<Longrightarrow> 2 * length s + 2 \<le> g \<Longrightarrow> walks_members g ms s r mx"
    and p: "parse_value (Suc f) n (CHR ''{'' # x) = Some (t, r)" and l: "2 * length x + 2 \<le> g"
  shows "walks_value (Suc g) t (CHR ''{'' # x) r mx"
  unfolding walks_value_def
proof (intro allI impI)
  fix d st lvl topl
  assume d: "value_at d (CHR ''{'' # x) st"
  let ?d1 = "\<lparr>dec_rest = x, dec_state = TokenObjectStart, dec_stack = st # dec_stack d\<rparr>"
  have tok: "decoder_token d = Some (Delim CHR ''{'', ?d1)" using token_open [OF d] by (simp add: open_state_def)
  obtain e u ms w where e: "skip_ws x = e # u" and t: "t = JObject w ms"
    and cs: "e = CHR ''}'' \<and> ms = [] \<and> r = u \<or> e \<noteq> CHR ''}'' \<and> parse_members f (n - 1) (e # u) = Some (ms, r)"
    using p by (auto simp: parse_value.simps(2) split: list.splits if_splits)
  have loop: "case members_error topl [] (member_errors (lvl + 1) mx ms) of
        Some e \<Rightarrow> inspectMembers g ?d1 (lvl + 1) mx topl [] = Fail e
      | None \<Rightarrow> \<exists>d2. skip_ws (dec_rest d2) = CHR ''}'' # r \<and> dec_state d2 \<in> object_states
          \<and> dec_stack d2 = st # dec_stack d \<and> inspectMembers g ?d1 (lvl + 1) mx topl [] = Done d2"
    using cs
  proof (elim disjE conjE)
    assume *: "e = CHR ''}''" "ms = []" "r = u"
    have "inspectMembers g ?d1 (lvl + 1) mx topl [] = Done ?d1"
      using l e * by (cases g) (auto simp: inspectMembers.simps(2) decoder_more_def)
    then show ?thesis using e * by auto
  next
    assume *: "e \<noteq> CHR ''}''" "parse_members f (n - 1) (e # u) = Some (ms, r)"
    then have "e = quote" by (cases f) (auto simp: parse_members.simps(2) split: if_splits)
    then have a: "members_at ?d1 (e # u) TokenObjectStart"
      using e decoder_token_skip_ws [where d = ?d1 and r = x and st = TokenObjectStart]
      by (simp add: members_at_def decoder_more_def quote_def)
    have w: "walks_members g ms (e # u) r mx"
      using M [OF *(2)] l length_skip_ws [of x] e by simp
    from w [unfolded walks_members_def, rule_format, OF a, of "lvl + 1" topl "[]"]
    show ?thesis by (fastforce split: option.splits)
  qed
  show "inspectJSONValue (Suc g) d lvl mx topl =
       (case check_tree lvl mx topl t of
          Some e \<Rightarrow> Fail e
        | None \<Rightarrow> Done \<lparr>dec_rest = r, dec_state = token_value_end st, dec_stack = dec_stack d\<rparr>)"
    using loop tok t token_close [of _ "CHR ''}''" r st "dec_stack d"]
    by (auto simp: inspectJSONValue.simps(2) split: option.splits)
qed
lemma walks_array:
  assumes M: "\<And>n s ts r. parse_elements f n s = Some (ts, r) \<Longrightarrow> 2 * length s + 2 \<le> g \<Longrightarrow> walks_elements g ts s r mx"
    and p: "parse_value (Suc f) n (CHR ''['' # x) = Some (t, r)" and l: "2 * length x + 2 \<le> g"
  shows "walks_value (Suc g) t (CHR ''['' # x) r mx"
  unfolding walks_value_def
proof (intro allI impI)
  fix d st lvl topl
  assume d: "value_at d (CHR ''['' # x) st"
  let ?d1 = "\<lparr>dec_rest = x, dec_state = TokenArrayStart, dec_stack = st # dec_stack d\<rparr>"
  have tok: "decoder_token d = Some (Delim CHR ''['', ?d1)" using token_open [OF d] by (simp add: open_state_def)
  obtain e u ts w where e: "skip_ws x = e # u" and t: "t = JArray w ts"
    and cs: "e = CHR '']'' \<and> ts = [] \<and> r = u \<or> e \<noteq> CHR '']'' \<and> parse_elements f (n - 1) (e # u) = Some (ts, r)"
    using p by (auto simp: parse_value.simps(2) split: list.splits if_splits)
  have loop: "case first_error (map (check_tree (lvl + 1) mx False) ts) of
        Some e \<Rightarrow> inspectElements g ?d1 (lvl + 1) mx = Fail e
      | None \<Rightarrow> \<exists>d2. skip_ws (dec_rest d2) = CHR '']'' # r \<and> dec_state d2 \<in> array_states
          \<and> dec_stack d2 = st # dec_stack d \<and> inspectElements g ?d1 (lvl + 1) mx = Done d2"
    using cs
  proof (elim disjE conjE)
    assume *: "e = CHR '']''" "ts = []" "r = u"
    have "inspectElements g ?d1 (lvl + 1) mx = Done ?d1"
      using l e * by (cases g) (auto simp: inspectElements.simps(2) decoder_more_def)
    then show ?thesis using e * by auto
  next
    assume *: "e \<noteq> CHR '']''" "parse_elements f (n - 1) (e # u) = Some (ts, r)"
    then have "e \<noteq> CHR ''}''"
      by (cases f; cases "f - 1") (auto simp: parse_elements.simps(2) parse_value.simps(2) scan_scalar_def
          quote_def is_digit_def split: option.splits)
    then have a: "value_at ?d1 (e # u) TokenArrayStart \<and> decoder_more ?d1
        \<and> TokenArrayStart \<in> {TokenArrayStart, TokenArrayValue}"
      using e * decoder_token_skip_ws [where d = ?d1 and r = x and st = TokenArrayStart]
      by (simp add: value_at_def decoder_more_def token_value_allowed_def)
    have w: "walks_elements g ts (e # u) r mx"
      using M [OF *(2)] l length_skip_ws [of x] e by simp
    from w [unfolded walks_elements_def, rule_format, OF a, of "lvl + 1"]
    show ?thesis by (fastforce split: option.splits)
  qed
  show "inspectJSONValue (Suc g) d lvl mx topl =
       (case check_tree lvl mx topl t of
          Some e \<Rightarrow> Fail e
        | None \<Rightarrow> Done \<lparr>dec_rest = r, dec_state = token_value_end st, dec_stack = dec_stack d\<rparr>)"
    using loop tok t token_close [of _ "CHR '']''" r st "dec_stack d"]
    by (auto simp: inspectJSONValue.simps(2) split: option.splits)
qed

lemma walks_value_step:
  assumes "\<And>n s ms r. parse_members f n s = Some (ms, r) \<Longrightarrow> 2 * length s + 2 \<le> g \<Longrightarrow> walks_members g ms s r mx"
    and "\<And>n s ts r. parse_elements f n s = Some (ts, r) \<Longrightarrow> 2 * length s + 2 \<le> g \<Longrightarrow> walks_elements g ts s r mx"
    and p: "parse_value (Suc f) n s = Some (t, r)" and l: "2 * length s + 1 \<le> Suc g"
  shows "walks_value (Suc g) t s r mx"
proof -
  obtain c x where s: "s = c # x" using p by (cases s) (auto simp: parse_value.simps(2))
  consider "c = CHR ''{''" | "c = CHR ''[''" | "c \<noteq> CHR ''{''" "c \<noteq> CHR ''[''" by blast
  then show ?thesis
  proof cases
    case 1
    show ?thesis unfolding s 1 by (rule walks_object) (use assms(1) p l s 1 in auto)
  next
    case 2
    show ?thesis unfolding s 2 by (rule walks_array) (use assms(2) p l s 2 in auto)
  next
    case 3
    then show ?thesis using p unfolding s by (rule walks_scalar)
  qed
qed

lemma parse_walks:
  "parse_value f n s = Some (t, r) \<Longrightarrow> 2 * length s + 1 \<le> g \<Longrightarrow> walks_value g t s r mx"
  "parse_members f n s = Some (ms, r) \<Longrightarrow> 2 * length s + 2 \<le> g \<Longrightarrow> walks_members g ms s r mx"
  "parse_elements f n s = Some (ts, r) \<Longrightarrow> 2 * length s + 2 \<le> g \<Longrightarrow> walks_elements g ts s r mx"
proof (induction f arbitrary: g n s t ms ts r)
  case (Suc f)
  { case 1
    obtain h where h: "g = Suc h" using 1 by (cases g) auto
    show ?case unfolding h by (rule walks_value_step) (use Suc.IH(2,3) 1 h in auto) }
  { case 2
    obtain h where h: "g = Suc h" using 2 by (cases g) auto
    show ?case unfolding h by (rule walks_members_step) (use Suc.IH(1,2) 2 h in auto) }
  { case 3
    obtain h where h: "g = Suc h" using 3 by (cases g) auto
    show ?case unfolding h by (rule walks_elements_step) (use Suc.IH(1,3) 3 h in auto) }
qed simp_all

section \<open>The whole inspection\<close>

fun tree_keys :: "jtree \<Rightarrow> bytes list" where
  "tree_keys (JObject _ ms) = map fst ms"
| "tree_keys _ = []"

lemma first_error_None: "first_error es = None \<longleftrightarrow> (\<forall>e\<in>set es. e = None)"
  by (induction es) (auto split: option.splits)

lemma members_error_None:
  "members_error topl seen ms = None \<longleftrightarrow> (\<forall>p\<in>set ms. snd p = None)
     \<and> (topl \<longrightarrow> distinct (map fst ms) \<and> set (map fst ms) \<inter> set seen = {})"
  by (induction topl seen ms rule: members_error.induct) (auto split: option.splits, force+)

lemma depth_bound:
  "int (foldr (\<lambda>t m. max (g t) m) ts 0) \<le> b \<longleftrightarrow> 0 \<le> b \<and> (\<forall>t\<in>set ts. int (g t) \<le> b)"
  by (induction ts) auto

lemma check_tree_False_None:
  "check_tree lvl mx False t = None \<longleftrightarrow> depth t = 0 \<or> lvl + int (depth t) \<le> mx"
proof (induction t arbitrary: lvl)
  case (JArray w ts)
  have "(\<forall>t\<in>set ts. check_tree (lvl + 1) mx False t = None)
      \<longleftrightarrow> (\<forall>t\<in>set ts. depth t = 0 \<or> int (depth t) \<le> mx - (lvl + 1))"
    using JArray.IH by (auto simp: algebra_simps)
  then show ?case
    using depth_bound [of depth ts "mx - (lvl + 1)"] by (auto simp: first_error_None algebra_simps)
next
  case (JObject w ms)
  have "(\<forall>p\<in>set ms. check_tree (lvl + 1) mx False (snd p) = None)
      \<longleftrightarrow> (\<forall>p\<in>set ms. depth (snd p) = 0 \<or> int (depth (snd p)) \<le> mx - (lvl + 1))"
    using JObject.IH by (fastforce simp: algebra_simps)
  then show ?case
    using depth_bound [of "\<lambda>p. depth (snd p)" ms "mx - (lvl + 1)"]
    by (auto simp: members_error_None algebra_simps)
qed simp

lemma check_tree_None:
  "check_tree lvl mx topl t = None \<longleftrightarrow>
     (depth t = 0 \<or> lvl + int (depth t) \<le> mx) \<and> (topl \<longrightarrow> distinct (tree_keys t))"
proof (cases t)
  case (JObject w ms)
  then have "check_tree lvl mx topl t = None \<longleftrightarrow>
      check_tree lvl mx False t = None \<and> (topl \<longrightarrow> distinct (tree_keys t))"
    by (auto simp: members_error_None comp_def)
  then show ?thesis by (simp add: check_tree_False_None)
qed (use check_tree_False_None [of lvl mx t] in \<open>auto simp del: depth.simps\<close>)

lemma value_at_new_decoder: "value_at (new_decoder v) (skip_ws v) TokenTopValue"
  using decoder_token_skip_ws [where d = "new_decoder v" and r = v and st = TokenTopValue]
  by (simp add: value_at_def new_decoder_def token_value_allowed_def)

lemma inspectJSON_parsed:
  assumes "parse_json v = Some t"
  shows "inspectJSON v mx =
    (if mx \<le> 0 then Inl (Sentinel ErrLimitExceeded)
     else case check_tree 0 mx True t of Some e \<Rightarrow> Inl e | None \<Rightarrow> Inr ())"
proof -
  from assms obtain r where p: "parse_value (2 * length v) max_nesting (skip_ws v) = Some (t, r)"
    and r: "skip_ws r = []" by (auto simp: parse_json_def split: option.splits if_splits)
  have "walks_value (inspectFuel v) t (skip_ws v) r mx"
    using length_skip_ws [of v] by (intro parse_walks(1) [OF p]) (simp add: inspectFuel_def)
  from this [unfolded walks_value_def, rule_format, OF value_at_new_decoder, of 0 True]
  have w: "inspectJSONValue (inspectFuel v) (new_decoder v) 0 mx True =
      (case check_tree 0 mx True t of Some e \<Rightarrow> Fail e
       | None \<Rightarrow> Done \<lparr>dec_rest = r, dec_state = TokenTopValue, dec_stack = []\<rparr>)"
    by (simp add: token_value_end_def new_decoder_def split: option.split)
  have "decoder_token \<lparr>dec_rest = r, dec_state = TokenTopValue, dec_stack = []\<rparr> = None"
    using r by (simp add: decoder_token.simps)
  then show ?thesis using w by (simp add: inspectJSON_def split: option.split)
qed

lemma value_ready_new [simp]: "value_ready (new_decoder v)"
  by (simp add: value_ready_def new_decoder_def)

lemma inspect_total:
  "ends_well (after_walk (new_decoder v)) (inspectJSONValue (inspectFuel v) (new_decoder v) lvl mx topl)"
  by (rule inspect_safe(1)) (simp_all add: inspectFuel_def new_decoder_def value_ready_def)

lemma inspectJSON_errors:
  "inspectJSON v mx = Inl e \<Longrightarrow> e \<in> insert (Errorf ErrInvalidEvent ''trailing json'') walk_errors"
  using inspect_total [of v 0 mx True]
  by (auto simp: inspectJSON_def split: if_splits outcome.splits option.splits)

section \<open>Properties\<close>

text \<open>
  C5. The token walk always ends, and never with a failed type assertion: with the fuel that
  \<open>inspectJSON\<close> gives, for every input and every starting depth, it reaches the end of a value or returns one
  of its three errors.
\<close>

theorem inspectJSONValue_terminates_without_panic:
  "(\<exists>d. inspectJSONValue (inspectFuel v) (new_decoder v) lvl mx topl = Done d
        \<and> dec_state d = TokenTopValue \<and> dec_stack d = [])
   \<or> (\<exists>e \<in> walk_errors. inspectJSONValue (inspectFuel v) (new_decoder v) lvl mx topl = Fail e)"
  using inspect_total [of v lvl mx topl]
  by (cases "inspectJSONValue (inspectFuel v) (new_decoder v) lvl mx topl")
    (auto simp: after_walk_def new_decoder_def state_after_def)

text \<open>
  C4. The token walk refines a check of the parse tree: on every syntactically valid JSON text the inspection
  succeeds exactly when the container nesting is at most the limit and the members of the top-level object
  have distinct names.
\<close>

theorem inspectJSON_refines_tree_check:
  assumes "parse_json v = Some t"
  shows "inspectJSON v mx = Inr () \<longleftrightarrow> 0 < mx \<and> int (depth t) \<le> mx \<and> distinct (tree_keys t)"
  using inspectJSON_parsed [OF assms, of mx] check_tree_None [of 0 mx True t]
  by (cases "check_tree 0 mx True t") auto

lemma parse_json_empty_object: "parse_json ''{}'' = Some (JObject ''{}'' [])"
  by (simp add: eval_defs)

theorem inspectJSON_refines_tree_check_witness:
  "parse_json ''{}'' = Some (JObject ''{}'' []) \<and> inspectJSON ''{}'' 1 = Inr ()"
  using inspectJSON_refines_tree_check [OF parse_json_empty_object, of 1] parse_json_empty_object by simp

end
