(* ===== verification/CE_Contracts.thy ===== *)
theory CE_Contracts
  imports CE_Conversion CE_Limits
begin

text \<open>
  What every binding promises. A strict encoder refuses exactly what its reporting encoder reports as lossy;
  a decoder returns events that are valid and within its limits, and fails with the errors it documents; a
  lossless binding gives back the event it was given. The bindings interpret these locales.
\<close>

section \<open>Admitted events\<close>

definition decode_error :: "go_error \<Rightarrow> bool" where
  "decode_error e \<longleftrightarrow>
     errors_is e ErrInvalidEvent \<or> errors_is e ErrLimitExceeded \<or> errors_is e ErrInvalidData"

lemma decode_error_simps [simp]:
  "decode_error (Errorf ErrInvalidEvent d)" "decode_error (Sentinel ErrLimitExceeded)"
  "decode_error (Sentinel ErrInvalidData)" "decode_error (Sentinel ErrInvalidEvent)"
  "decode_error (ValidationError is)"
  by (simp_all add: decode_error_def)

text \<open>What the limits promise of a decoded event.\<close>

definition name_within :: "Limits \<Rightarrow> bytes \<Rightarrow> bool" where
  "name_within l name \<longleftrightarrow> (validAttributeName name \<longrightarrow> int (length name) \<le> MaxAttributeNameBytes l)"

lemma name_withinI [simp]: "int (length name) \<le> MaxAttributeNameBytes l \<Longrightarrow> name_within l name"
  by (simp add: name_within_def)

definition extensions_within :: "Limits \<Rightarrow> (bytes, Attribute) gomap \<Rightarrow> bool" where
  "extensions_within l m \<longleftrightarrow> list_all (\<lambda>(name, a). name_within l name
     \<and> int (length (attr_text a)) \<le> MaxAttributeValueBytes l) m"

definition context_within :: "Limits \<Rightarrow> Attributes \<Rightarrow> bool" where
  "context_within l a \<longleftrightarrow>
     list_all (\<lambda>v. int (length v) \<le> MaxAttributeValueBytes l)
       [a_ID a, a_Source a, a_Type a, a_DataSchema a, a_Subject a]
     \<and> extensions_within l (a_Extensions a) \<and> int (length (a_Extensions a)) \<le> MaxAttributes l"

definition within_limits :: "Limits \<Rightarrow> Event \<Rightarrow> bool" where
  "within_limits l e \<longleftrightarrow> context_within l (event_attributes e)
     \<and> list_all (\<lambda>(name, _). int (length name) \<le> MaxAttributeNameBytes l) (ev_extensions e)
     \<and> (data_present (ev_data e) \<longrightarrow> int (length (data_bytes (ev_data e))) \<le> MaxDataBytes l)"

definition admitted :: "Limits \<Rightarrow> Event \<Rightarrow> bool" where
  "admitted l e \<longleftrightarrow> valid_event e \<and> within_limits l e"

definition data_within :: "Limits \<Rightarrow> Data \<Rightarrow> bool" where
  "data_within l d \<longleftrightarrow> data_ok d \<and> (data_present d \<longrightarrow> int (length (data_bytes d)) \<le> MaxDataBytes l)"

lemma extensions_within_Nil [simp]: "extensions_within l []"
  by (simp add: extensions_within_def)

lemma extensions_within_update:
  "extensions_within l m \<Longrightarrow> name_within l name
     \<Longrightarrow> int (length (attr_text a)) \<le> MaxAttributeValueBytes l \<Longrightarrow> extensions_within l (AList.update name a m)"
  by (induction m) (auto simp: extensions_within_def)

lemma NewEvent_yields:
  assumes "attributes_wf a" and "data_within l d" and "context_within l a"
  shows "yields decode_error (\<lambda>e. admitted l e \<and> ev_dataContentType e = a_DataContentType a) (NewEvent a d)"
proof (cases "NewEvent a d")
  case (Inl e)
  then have "decode_error e" by (auto simp: NewEvent_Inl validateAttributes_Inl)
  then show ?thesis using Inl by simp
next
  case (Inr e)
  have d: "data_ok d" using assms(2) by (simp add: data_within_def)
  note e = Inr [unfolded NewEvent_Inr [OF assms(1) d]]
  have "list_all (\<lambda>(name, _). int (length name) \<le> MaxAttributeNameBytes l) (a_Extensions a)"
  proof -
    have "list_all valid_extension (a_Extensions a)" "extensions_within l (a_Extensions a)"
      using e assms(3) by (simp_all add: valid_context_def context_within_def)
    then show ?thesis
      unfolding extensions_within_def list_all_iff valid_extension_def name_within_def by fastforce
  qed
  then show ?thesis
    using NewEvent_valid [OF assms(1) d Inr] Inr e assms(2,3)
    by (auto simp: admitted_def within_limits_def data_within_def context_within_def event_attributes_def)
qed

lemma New_data_yields:
  assumes "int (length v) \<le> MaxDataBytes l"
  shows "yields decode_error (data_within l) (NewJSONData v)" "yields decode_error (data_within l) (NewTextData v)"
    "data_within l (NewBinaryData v)"
  using assms by (auto simp: NewJSONData_def NewTextData_def NewBinaryData_def data_ok_def data_within_def)

definition binding_error :: "go_error \<Rightarrow> bool" where
  "binding_error e \<longleftrightarrow> decode_error e \<or> e = Sentinel ErrUnsupportedMode"

lemma binding_error_simps [simp]: "decode_error e \<Longrightarrow> binding_error e" "binding_error (Sentinel ErrUnsupportedMode)"
  by (simp_all add: binding_error_def)

lemma yields_binding: "yields decode_error Q m \<Longrightarrow> yields binding_error Q m"
  by (erule yields_mono) simp_all

lemma name_within_to_lower:
  "int (length s) \<le> MaxAttributeNameBytes l \<Longrightarrow> name_within l (to_lower s)"
  using length_to_lower [of s] lower_alnum_ascii [of "to_lower s"]
  by (auto simp: name_within_def validAttributeName_iff)

section \<open>Strict encoders\<close>

locale strict_encoder =
  fixes with_report :: "'a \<Rightarrow> ('w \<times> report) result" and strict :: "'a \<Rightarrow> 'w result"
  assumes strict_eq: "strict x =
      and_then (with_report x) (\<lambda>(w, r). and_then (rejectConversionLoss r) (\<lambda>_. Inr w))"
    and report_sorted: "with_report x = Inr (w, r) \<Longrightarrow> sorted r"
begin

lemma strict_Inr: "strict x = Inr w \<longleftrightarrow> with_report x = Inr (w, [])"
  by (auto simp: strict_eq split: prod.splits)

lemma strict_Inl: "with_report x = Inl e \<Longrightarrow> strict x = Inl e"
  by (simp add: strict_eq)

lemma strict_loss:
  assumes "with_report x = Inr (w, r)" and "r \<noteq> []"
  shows "strict x = Inl (Errorf ErrConversionLoss (loss_field (Min (set r))))"
proof -
  have "canonicalConversionReport r = r"
    using report_sorted [OF assms(1)] by (simp add: canonicalConversionReport_def sorted_sort_id)
  then show ?thesis
    using rejectConversionLoss_least [OF assms(2)] assms(1) by (simp add: strict_eq)
qed

end

section \<open>Decoders\<close>

locale event_decoder =
  fixes decode :: "Limits \<Rightarrow> 'w \<Rightarrow> 'm result" and events :: "'m \<Rightarrow> Event list"
    and documented :: "go_error \<Rightarrow> bool"
  assumes decode_yields: "yields documented (\<lambda>m. list_all (admitted l) (events m)) (decode l w)"
begin

lemma decoded_admitted: "decode l w = Inr m \<Longrightarrow> e \<in> set (events m) \<Longrightarrow> admitted l e"
  using yields_Inr [OF decode_yields] by (fastforce simp: list_all_iff)

lemma decoded_validates: "decode l w = Inr m \<Longrightarrow> e \<in> set (events m) \<Longrightarrow> Event_Validate e = Inr ()"
  by (drule (1) decoded_admitted) (simp add: admitted_def)

lemma failure_documented: "decode l w = Inl err \<Longrightarrow> documented err"
  by (rule yields_Inl [OF decode_yields])

end

section \<open>Lossless bindings\<close>

locale lossless_binding =
  fixes encode :: "Event \<Rightarrow> 'w result" and decode :: "Limits \<Rightarrow> 'w \<Rightarrow> Event result"
    and fits :: "Limits \<Rightarrow> Event \<Rightarrow> bool"
  assumes round_trip: "fits l e \<Longrightarrow> \<exists>w e'. encode e = Inr w \<and> decode l w = Inr e' \<and> same_event e e'"
begin

lemma encode_total: "fits l e \<Longrightarrow> \<exists>w. encode e = Inr w"
  using round_trip by blast

lemma encode_faithful: "fits l e \<Longrightarrow> fits l f \<Longrightarrow> encode e = encode f \<Longrightarrow> same_event e f"
  using round_trip [of l e] round_trip [of l f] same_event_sym same_event_trans
  by (metis Inr_inject)

end

end
