(* ===== verification/CE_Json_Decode.thy ===== *)
theory CE_Json_Decode
  imports CE_Json_Inspect CE_Contracts
begin

text \<open>
  The JSON decoder as a whole: from any bytes it returns an event that is valid and within the limits, or one
  of the documented errors, and it never panics.
\<close>

lemma decodeJSONAttribute_constructed:
  assumes "decodeJSONAttribute v = Inr a"
  shows "constructed a"
  using assms
  by (auto simp: decodeJSONAttribute_def intro: constructed.intros
      split: option.splits token.splits)

lemma decodeJSONExtension_yields:
  assumes "json_value t" and "plain_map m \<and> extensions_within l m"
  shows "yields decode_error (\<lambda>m. plain_map m \<and> extensions_within l m) (decodeJSONExtension l m (name, raw t))"
proof -
  obtain c u where "raw t = c # u" "byte c < 128" "\<not> unicode_space (byte c)" using json_first [OF assms(1)] .
  then obtain v where "trim_space (raw t) = c # v" using trim_space_head by metis
  then show ?thesis using assms(2)
    by (auto simp: decodeJSONExtension_def plain_map_update constructed_plain Attribute_String_def
        intro!: extensions_within_update dest: decodeJSONAttribute_constructed split: sum.splits)
qed

lemma decodeJSONExtension_keys:
  assumes "decodeJSONExtension l m p = Inr m'"
  shows "set (keys m') \<subseteq> set (keys m) \<union> (if isReservedAttributeName (fst p) then {} else {fst p})"
proof -
  have "m' = m \<or> (\<not> isReservedAttributeName (fst p) \<and> (\<exists>a. m' = AList.update (fst p) a m))"
    using assms
    by (auto simp: decodeJSONExtension_def split: prod.splits if_splits list.splits sum.splits)
  then show ?thesis using keys_update [of "fst p" _ m] by fastforce
qed

lemma countJSONAttributes_filter:
  "countJSONAttributes ms = length (filter (\<lambda>p. fst p \<noteq> ''data'' \<and> fst p \<noteq> ''data_base64'') ms)"
proof -
  have "foldl (\<lambda>count (name, _). if name = ''data'' \<or> name = ''data_base64'' then count else Suc count) n ms
      = n + length (filter (\<lambda>p. fst p \<noteq> ''data'' \<and> fst p \<noteq> ''data_base64'') ms)" for n
    by (induction ms arbitrary: n) auto
  then show ?thesis by (simp add: countJSONAttributes_def)
qed

lemma decodeJSONExtensions_count:
  assumes "fold_result (decodeJSONExtension l) [] members = Inr m" and "wf_map m"
  shows "length m \<le> countJSONAttributes members"
proof -
  let ?names = "filter (\<lambda>p. fst p \<noteq> ''data'' \<and> fst p \<noteq> ''data_base64'') members"
  have "set (keys m) \<subseteq> {k \<in> set (keys members). \<not> isReservedAttributeName k}"
  proof (rule fold_result_invariant [OF assms(1)])
    fix s t p
    assume p: "p \<in> set members" "decodeJSONExtension l s p = Inr t"
      and s: "set (keys s) \<subseteq> {k \<in> set (keys members). \<not> isReservedAttributeName k}"
    have "fst p \<in> set (keys members)" using p(1) by simp
    then have "set (keys s) \<union> (if isReservedAttributeName (fst p) then {} else {fst p})
        \<subseteq> {k \<in> set (keys members). \<not> isReservedAttributeName k}" using s by simp
    then show "set (keys t) \<subseteq> {k \<in> set (keys members). \<not> isReservedAttributeName k}"
      by (rule subset_trans [OF decodeJSONExtension_keys [OF p(2)]])
  qed simp
  also have "\<dots> \<subseteq> set (keys ?names)"
  proof
    fix k assume "k \<in> {k \<in> set (keys members). \<not> isReservedAttributeName k}"
    then show "k \<in> set (keys ?names)" using reserved_names by (cases "k = ''data''"; cases "k = ''data_base64''") force+
  qed
  finally have "card (set (keys m)) \<le> length (keys ?names)"
    by (meson card_length card_mono finite_set le_trans)
  moreover have "card (set (keys m)) = length m"
    using assms(2) by (metis distinct_card length_map wf_map_def)
  ultimately show ?thesis by (simp add: countJSONAttributes_filter)
qed

lemma base64DecodedLength_encode: "base64DecodedLength (b64_encode d) = int (length d)"
proof -
  have "int (length d) = int (length d div 3) * 3 + int (length d mod 3)"
    by (metis div_mult_mod_eq of_nat_add of_nat_mult of_nat_numeral)
  moreover have "length d mod 3 = 0 \<or> length d mod 3 = 1 \<or> length d mod 3 = 2" by linarith
  moreover have "(length d + 2) div 3 = length d div 3 + (if length d mod 3 = 0 then 0 else 1)" by presburger
  ultimately show ?thesis
    unfolding base64DecodedLength_def b64_encode_padding length_b64_encode b64_decoded_len_def by auto
qed

lemma base64DecodedLength_exact:
  assumes "b64_decode_strict s = Some d" and "\<not> list_ex line_break s"
  shows "base64DecodedLength s = int (length d)"
proof -
  have "b64_encode d = s"
    using assms by (intro base64.enc_dec) (auto simp: list_ex_iff list_all_iff)
  then show ?thesis using base64DecodedLength_encode by blast
qed

lemma decodeJSONBase64_yields: "yields decode_error (data_within l) (decodeJSONBase64 v l)"
  by (auto simp: decodeJSONBase64_def Let_def base64DecodedLength_exact
      intro!: New_data_yields split: option.splits)

lemma decodeJSONData_yields:
  "yields decode_error (data_within l) (decodeJSONData members ct l)"
  using decodeJSONBase64_yields
  by (auto simp: decodeJSONData_def data_within_def zero_data_def data_ok_def New_data_yields split: option.splits)

lemma decodeTimeText_yields:
  "yields decode_error (pred_option (\<lambda>t. nsec t < 10 ^ 9)) (decodeTimeText v b)"
  using time_parse_nsec by (auto simp: decodeTimeText_def split: option.splits)

lemma stringMember_yields:
  assumes "0 \<le> MaxAttributeValueBytes l"
  shows "yields decode_error (\<lambda>(v, _). int (length v) \<le> MaxAttributeValueBytes l) (stringMember members l name required)"
  using assms by (auto simp: stringMember_def split: option.splits)

lemma decodeJSONMembers_yields:
  assumes "\<And>p. p \<in> set members \<Longrightarrow> \<exists>t. json_value t \<and> snd p = raw t"
    and c: "int (countJSONAttributes members) \<le> MaxAttributes l"
  shows "yields decode_error (\<lambda>e. admitted l e \<and> int (length (ev_dataContentType e)) \<le> MaxAttributeValueBytes l)
    (decodeJSONMembers members l)"
proof (cases "0 \<le> MaxAttributeValueBytes l")
  case True
  have x: "yields decode_error (\<lambda>m. plain_map m \<and> extensions_within l m)
      (fold_result (decodeJSONExtension l) [] members)"
    by (rule yields_fold_result) (use assms(1) decodeJSONExtension_yields in fastforce)+
  have n: "yields decode_error (\<lambda>e. admitted l e \<and> int (length (ev_dataContentType e)) \<le> MaxAttributeValueBytes l)
      (NewEvent a d)"
    if "attributes_wf a" "data_within l d" "context_within l a"
      "int (length (a_DataContentType a)) \<le> MaxAttributeValueBytes l" for a d
    by (rule yields_mono [OF NewEvent_yields [OF that(1-3)]]) (use that(4) in auto)
  have count: "int (length m) \<le> MaxAttributes l"
    if "fold_result (decodeJSONExtension l) [] members = Inr m" "plain_map m" for m
    using decodeJSONExtensions_count [OF that(1)] that(2) c by simp
  note s = yields_and_then [OF stringMember_yields [OF True]]
  show ?thesis
    unfolding decodeJSONMembers_def
    by ((rule s, clarsimp)+, rule yields_and_then [OF decodeTimeText_yields], rule yields_and_then [OF x],
        rule yields_and_then [OF decodeJSONData_yields], rule n)
      (auto simp: attributes_wf_def context_within_def count)
qed (simp add: decodeJSONMembers_def stringMember_def split: option.splits)

lemma walk_errors_decode: "e \<in> walk_errors \<Longrightarrow> decode_error e"
  by (auto simp: walk_errors_def errJSON_def)

lemma inspectJSON_yields: "yields decode_error (\<lambda>_. True) (inspectJSON v mx)"
  using inspectJSON_errors [of v mx] walk_errors_decode by (cases "inspectJSON v mx") auto

lemma DecodeJSON_yields:
  "yields decode_error (\<lambda>e. admitted l e \<and> int (length (ev_dataContentType e)) \<le> MaxAttributeValueBytes l)
     (DecodeJSON v l)"
proof -
  note m = decodeJSONMembers_yields [OF unmarshal_map_values]
  show ?thesis
    unfolding DecodeJSON_def
    by (auto split: option.splits intro!: yields_and_then [OF inspectJSON_yields] m)
qed

lemma DecodeJSONBatch_yields: "yields decode_error (list_all (admitted l)) (DecodeJSONBatch v l)"
proof -
  have "yields decode_error (admitted l) (DecodeJSON w l)" for w
    by (rule yields_mono [OF DecodeJSON_yields]) auto
  then show ?thesis
    by (auto simp: DecodeJSONBatch_def Let_def split: option.splits
        intro!: yields_and_then [OF inspectJSON_yields] yields_map_result)
qed

lemma exceedsJSONEncodedStringLimit_iff:
  "exceedsJSONEncodedStringLimit rawValue limit \<longleftrightarrow> limit \<le> 0 \<or> int (length rawValue) > 6 * limit + 2"
proof -
  have "int (length rawValue) = 6 * int (length rawValue div 6) + int (length rawValue mod 6)"
    by (metis of_nat_add of_nat_mult of_nat_numeral mult_div_mod_eq)
  moreover have "length rawValue mod 6 < 6" by simp
  ultimately show ?thesis by (auto simp: exceedsJSONEncodedStringLimit_def Let_def)
qed

section \<open>Contracts\<close>

interpretation json_encoder: strict_encoder EncodeJSONWithReport EncodeJSON
  by unfold_locales (auto simp: EncodeJSON_def EncodeJSONWithReport_def jsonConversionReport_def canonical_sorted)

interpretation json_batch_encoder: strict_encoder EncodeJSONBatchWithReport EncodeJSONBatch
  by unfold_locales (auto simp: EncodeJSONBatch_def EncodeJSONBatchWithReport_def canonical_sorted)

interpretation json_decoder: event_decoder "\<lambda>l v. DecodeJSON v l" "\<lambda>e. [e]" decode_error
  by unfold_locales (rule yields_mono [OF DecodeJSON_yields]; simp)

interpretation json_batch_decoder: event_decoder "\<lambda>l v. DecodeJSONBatch v l" "\<lambda>es. es" decode_error
  by unfold_locales (rule DecodeJSONBatch_yields)

section \<open>Properties\<close>

text \<open>
  C2. \<open>DecodeJSON\<close> is total and safe: on any bytes and any limits it returns an event that satisfies the
  event invariant, passes \<open>Validate\<close> and lies within the limits, its content type included, or it fails with
  an error that is \<open>ErrInvalidEvent\<close>, \<open>ErrInvalidData\<close> or \<open>ErrLimitExceeded\<close> for \<open>errors.Is\<close>. It never panics.
\<close>

theorem DecodeJSON_safe:
  "case DecodeJSON v l of
     Inl err \<Rightarrow> decode_error err \<and> err \<noteq> panicked
   | Inr e \<Rightarrow> valid_event e \<and> Event_Validate e = Inr () \<and> within_limits l e
       \<and> int (length (ev_dataContentType e)) \<le> MaxAttributeValueBytes l"
  using DecodeJSON_yields [of l v]
  by (auto simp: admitted_def decode_error_def panicked_def split: sum.split)

text \<open>
  C12. \<open>DecodeJSONBatch\<close> has the same guarantee for every event of a batch, and the batch has no more events
  than the limit.
\<close>

theorem DecodeJSONBatch_safe:
  "case DecodeJSONBatch v l of
     Inl err \<Rightarrow> decode_error err \<and> err \<noteq> panicked
   | Inr es \<Rightarrow> list_all (\<lambda>e. valid_event e \<and> within_limits l e) es \<and> int (length es) \<le> MaxBatchEvents l"
proof (cases "DecodeJSONBatch v l")
  case (Inl err)
  then show ?thesis using json_batch_decoder.failure_documented [OF Inl]
    by (auto simp: decode_error_def panicked_def)
next
  case (Inr es)
  have "int (length es) \<le> MaxBatchEvents l"
    using Inr by (auto simp: DecodeJSONBatch_def Let_def dest: map_result_Inr_length split: if_splits option.splits)
  then show ?thesis using json_batch_decoder.decoded_admitted [OF Inr] Inr
    by (auto simp: list_all_iff admitted_def)
qed

text \<open>
  The admission check of an encoded string compares against a scaled limit without computing the
  product: it refuses exactly the texts longer than six bytes for each admitted byte and the two quotes.
\<close>

theorem exceedsJSONEncodedStringLimit_exact:
  "exceedsJSONEncodedStringLimit rawValue limit \<longleftrightarrow> limit \<le> 0 \<or> int (length rawValue) > 6 * limit + 2"
  by (rule exceedsJSONEncodedStringLimit_iff)

end
