(* ===== verification/CE_Json_Roundtrip.thy ===== *)
theory CE_Json_Roundtrip
  imports CE_Json_Decode
begin

text \<open>
  The JSON event format read back: what \<open>encodeJSON\<close> writes for an event whose conversion report is empty
  is parsed, inspected and decoded by \<open>DecodeJSON\<close> to the same event, with its extensions in the order of
  their names.
\<close>

section \<open>Written objects\<close>

definition comma_items :: "bytes list \<Rightarrow> bytes" where
  "comma_items xs = concat (map (\<lambda>x. '','' @ x) xs)"

lemma writeItems_comma: "writeItems (Suc i) xs = comma_items xs"
  by (induction xs arbitrary: i) (simp_all add: comma_items_def)

lemma writeItems_Cons: "writeItems 0 (x # xs) = x @ comma_items xs"
  by (simp add: writeItems_comma)

lemma comma_items_Cons: "comma_items (x # xs) = CHR '','' # x @ comma_items xs"
  by (simp add: comma_items_def)

abbreviation member_texts :: "(bytes \<times> jtree) list \<Rightarrow> bytes list" where
  "member_texts ms \<equiv> map memberText (map (\<lambda>(n, t). (n, raw t)) ms)"

lemma parse_written_members:
  assumes "\<forall>(n, t)\<in>set (m # ms). valid_utf8 n \<and> json_value t \<and> depth t \<le> d"
    and "2 * length (writeItems 0 (member_texts (m # ms))) \<le> f"
  shows "parse_members f d (writeItems 0 (member_texts (m # ms)) @ CHR ''}'' # r) = Some (m # ms, r)"
  using assms
proof (induction ms arbitrary: m f)
  case Nil
  obtain n t where m: "m = (n, t)" by fastforce
  obtain g where f: "f = Suc g" using Nil.prems(2) m by (cases f) (auto simp: memberText_def json_marshal_string_def)
  have p: "parse_value g d (raw t @ CHR ''}'' # r) = Some (t, CHR ''}'' # r)"
    using Nil.prems m f by (intro json_value_parse) (auto simp: delim_def memberText_def)
  have s: "scan_string (marshal_body n @ quote # x) = Some x" for x
    using scan_marshal [of n "quote # x"] by (simp add: scan_string.simps(2))
  show ?case
    using p s Nil.prems m f json_value_skip_ws [of t "CHR ''}'' # r"]
    by (simp add: writeItems_Cons comma_items_def memberText_def json_marshal_string_def parse_members.simps(2)
        skip_ws_punct string_body_marshal)
next
  case (Cons m' ms)
  obtain n t where m: "m = (n, t)" by fastforce
  let ?rest = "comma_items (member_texts (m' # ms)) @ CHR ''}'' # r"
  obtain g where f: "f = Suc g" using Cons.prems(2) m by (cases f) (auto simp: memberText_def json_marshal_string_def)
  have r: "?rest = CHR '','' # writeItems 0 (member_texts (m' # ms)) @ CHR ''}'' # r"
    unfolding list.map writeItems_Cons comma_items_Cons by simp
  have p: "parse_value g d (raw t @ ?rest) = Some (t, ?rest)"
    using Cons.prems m f unfolding r by (intro json_value_parse) (auto simp: delim_def memberText_def writeItems_Cons)
  have s: "scan_string (marshal_body n @ quote # x) = Some x" for x
    using scan_marshal [of n "quote # x"] by (simp add: scan_string.simps(2))
  have "skip_ws (writeItems 0 (member_texts (m' # ms)) @ CHR ''}'' # r) = writeItems 0 (member_texts (m' # ms)) @ CHR ''}'' # r"
    by (simp add: writeItems_Cons memberText_def json_marshal_string_def skip_ws_punct)
  moreover have "2 * length (writeItems 0 (member_texts (m' # ms))) \<le> g"
    using Cons.prems(2)
    unfolding f list.map m prod.case writeItems_Cons comma_items_Cons length_append length_Cons by simp
  ultimately have next_member:
    "parse_members g d (skip_ws (writeItems 0 (member_texts (m' # ms)) @ CHR ''}'' # r)) = Some (m' # ms, r)"
    using Cons.IH [of m' g] Cons.prems(1) by (simp only: list.set) simp
  have "parse_members f d (quote # marshal_body n @ quote # CHR '':'' # raw t @ ?rest) = Some (m # m' # ms, r)"
    using p s next_member Cons.prems(1) m json_value_skip_ws [of t ?rest]
    unfolding f parse_members.simps(2) list.case r
    by (simp add: skip_ws_punct string_body_marshal)
  moreover have "memberText (n, raw t) = quote # marshal_body n @ quote # CHR '':'' # raw t"
    by (simp add: memberText_def json_marshal_string_def)
  ultimately show ?case by (simp only: list.map m prod.case writeItems_Cons append.simps append_assoc)
qed

lemma parse_written_object:
  assumes "\<forall>(n, t)\<in>set ms. valid_utf8 n \<and> json_value t \<and> Suc (depth t) \<le> max_nesting" and "ms \<noteq> []"
  defines "text \<equiv> ''{'' @ writeItems 0 (member_texts ms) @ ''}''"
  shows "parse_json text = Some (JObject text ms)"
proof -
  let ?items = "writeItems 0 (member_texts ms)"
  obtain m ms' where ms: "ms = m # ms'" using assms(2) by (cases ms) auto
  obtain n t where m: "m = (n, t)" by fastforce
  define f where "f = 2 * length ?items + 3"
  have "2 * length text = Suc f" by (simp add: text_def f_def)
  moreover have p: "parse_members f (max_nesting - 1) (?items @ ''}'') = Some (ms, [])"
    using assms(1) unfolding ms by (intro parse_written_members) (auto simp: f_def ms)
  moreover obtain u where u: "?items @ ''}'' = quote # u"
    by (simp add: ms m writeItems_Cons memberText_def json_marshal_string_def)
  moreover have "skip_ws text = text" by (simp add: text_def json_space_def)
  moreover have "parse_value (Suc f) max_nesting text = Some (JObject text ms, [])"
    using p u skip_ws_punct [of quote u]
    by (simp add: text_def parse_value.simps(2) max_nesting_def upto_rest_def quote_def)
  ultimately show ?thesis by (simp add: parse_json_def)
qed

definition tree_of :: "bytes \<Rightarrow> jtree" where
  "tree_of w = the (parse_json w)"

definition good_text :: "nat \<Rightarrow> bytes \<Rightarrow> bool" where
  "good_text d w \<longleftrightarrow> (\<exists>t. json_value t \<and> raw t = w \<and> depth t \<le> d)"

lemma good_textD:
  assumes "good_text d w" "d \<le> max_nesting"
  shows "json_value (tree_of w)" "raw (tree_of w) = w" "depth (tree_of w) \<le> d"
proof -
  from assms obtain t where t: "json_value t" "raw t = w" "depth t \<le> d" by (auto simp: good_text_def)
  then have "parse_json w = Some t" using parse_json_raw [of t] assms(2) by simp
  then show "json_value (tree_of w)" "raw (tree_of w) = w" "depth (tree_of w) \<le> d"
    using t by (simp_all add: tree_of_def)
qed

lemma good_text_scalar: "json_value (JScalar w) \<Longrightarrow> good_text d w"
  unfolding good_text_def by (intro exI [of _ "JScalar w"]) simp

lemma encoded_object:
  assumes "\<forall>(n, w)\<in>set ms. valid_utf8 n \<and> good_text d w" and "ms \<noteq> []" and "d < max_nesting"
    and "distinct (map fst ms)"
  defines "text \<equiv> ''{'' @ writeItems 0 (map memberText ms) @ ''}''"
  shows "unmarshal_map text = Some ms" and "0 < mx \<Longrightarrow> int (Suc d) \<le> mx \<Longrightarrow> inspectJSON text mx = Inr ()"
    and "good_text (Suc d) text"
proof -
  let ?ts = "map (\<lambda>(n, w). (n, tree_of w)) ms"
  have t: "json_value (tree_of w)" "raw (tree_of w) = w" "depth (tree_of w) \<le> d" "valid_utf8 n" if "(n, w) \<in> set ms" for n w
    using good_textD [of d w] assms(1,3) that by auto
  have reverse: "map (\<lambda>(n, t). (n, raw t)) ?ts = ms" using t(2) by (auto intro!: map_idI)
  have names: "map fst ?ts = map fst ms" by auto
  have uniq: "distinct (map fst ?ts)" using assms(4) unfolding names .
  have "parse_json (''{'' @ writeItems 0 (member_texts ?ts) @ ''}'')
      = Some (JObject (''{'' @ writeItems 0 (member_texts ?ts) @ ''}'') ?ts)"
    using t assms(2,3) by (intro parse_written_object) (fastforce simp: Suc_le_eq)+
  then have p: "parse_json text = Some (JObject text ?ts)" unfolding reverse text_def .
  show "unmarshal_map text = Some ms"
    using members_map_distinct [OF uniq] unfolding reverse by (simp only: unmarshal_map_def p option.case jtree.case)
  have dep: "depth (JObject text ?ts) \<le> Suc d" unfolding depth_le_JObject using t(3) by auto
  moreover have "raw (JObject text ?ts) = text" by simp
  ultimately show "good_text (Suc d) text" using parse_json_json_value(1) [OF p] unfolding good_text_def by blast
  have "distinct (tree_keys (JObject text ?ts))" using uniq by (simp only: tree_keys.simps)
  with dep show "inspectJSON text mx = Inr ()" if "0 < mx" "int (Suc d) \<le> mx"
    using that inspectJSON_parsed [OF p, of mx] check_tree_None [of 0 mx True "JObject text ?ts"] by simp
qed

section \<open>Members of an event\<close>

definition json_lossless :: "Event \<Rightarrow> bool" where
  "json_lossless e \<longleftrightarrow> valid_event e \<and> jsonConversionReport e = []
     \<and> (ev_hasTime e \<longrightarrow> in_year_range (ev_time e))
     \<and> valid_utf8 (ev_dataContentType e) \<and> valid_utf8 (ev_dataSchema e)"

definition data_depth :: "Event \<Rightarrow> nat" where
  "data_depth e = (if data_kind (ev_data e) = DataJSON then depth (tree_of (data_bytes (ev_data e))) else 0)"

definition json_within :: "Limits \<Rightarrow> Event \<Rightarrow> bool" where
  "json_within l e \<longleftrightarrow>
     int (length (encodeJSON e)) \<le> MaxEventBytes l \<and> int (Suc (data_depth e)) \<le> MaxDepth l
     \<and> data_depth e < max_nesting
     \<and> int (countJSONAttributes (jsonMembers e)) \<le> MaxAttributes l
     \<and> 0 < MaxAttributeNameBytes l \<and> 0 < MaxAttributeValueBytes l
     \<and> list_all (\<lambda>v. int (length v) \<le> MaxAttributeValueBytes l)
         [specVersion, ev_id e, ev_source e, ev_type e, ev_dataContentType e, ev_dataSchema e, ev_subject e]
     \<and> (ev_hasTime e \<longrightarrow> int (length (time_format (time_utc (ev_time e)))) \<le> MaxAttributeValueBytes l)
     \<and> list_all (\<lambda>(n, a). int (length n) \<le> MaxAttributeNameBytes l
         \<and> int (length (attr_text a)) \<le> MaxAttributeValueBytes l) (ev_extensions e)
     \<and> (data_present (ev_data e) \<longrightarrow>
         0 < MaxDataBytes l \<and> int (length (data_bytes (ev_data e))) \<le> MaxDataBytes l)"

definition ext_text :: "bytes \<times> Attribute \<Rightarrow> jsonMember" where
  "ext_text p = (fst p, if attr_kind (snd p) = AttributeString then json_marshal_string (attr_text (snd p))
     else attr_text (snd p))"

definition json_kind :: "Attribute \<Rightarrow> bool" where
  "json_kind a \<longleftrightarrow> attr_kind a \<in> {AttributeString, AttributeBoolean, AttributeInteger}"

lemma json_losslessD:
  assumes "json_lossless e"
  shows "valid_event e" "ev_hasTime e \<longrightarrow> in_year_range (ev_time e)"
    "\<forall>p\<in>set (ev_extensions e). json_kind (snd p) \<and> validAttribute (snd p) \<and> plain_bytes (snd p)
      \<and> validAttributeName (fst p) \<and> \<not> isReservedAttributeName (fst p)"
proof -
  show v: "valid_event e" and "ev_hasTime e \<longrightarrow> in_year_range (ev_time e)"
    using assms by (simp_all add: json_lossless_def)
  have k: "\<forall>p\<in>set (ev_extensions e). json_kind (snd p)"
    using assms by (simp add: json_lossless_def jsonConversionReport_Nil json_kind_def)
  show "\<forall>p\<in>set (ev_extensions e). json_kind (snd p) \<and> validAttribute (snd p) \<and> plain_bytes (snd p)
      \<and> validAttributeName (fst p) \<and> \<not> isReservedAttributeName (fst p)"
    using k valid_eventD(7,8) [OF v] by (fastforce simp: list_all_iff valid_extension_def plain_map_def)
qed

lemma extension_members:
  assumes "json_lossless e"
  shows "concat (map extensionMember (ev_extensions e)) = map ext_text (ev_extensions e)"
proof -
  have "extensionMember p = [ext_text p]" if "p \<in> set (ev_extensions e)" for p
    using json_losslessD(3) [OF assms] that
    by (cases p) (auto simp: extensionMember_def ext_text_def json_kind_def stringMemberText_def)
  then have "map extensionMember (ev_extensions e) = map (\<lambda>p. [ext_text p]) (ev_extensions e)" by simp
  then show ?thesis by (simp only: concat_map_singleton)
qed

lemma integer_text:
  assumes "validAttribute a" "attr_kind a = AttributeInteger"
  obtains i where "attr_text a = format_int i" "parse_int 32 (attr_text a) = Some i"
  using assms by (simp add: validAttribute_def split: option.splits) metis

lemma boolean_text:
  assumes "validAttribute a" "attr_kind a = AttributeBoolean"
  obtains b where "attr_text a = format_bool b"
  using assms by (auto simp: validAttribute_def format_bool_def) metis+

lemma json_value_bool: "json_value (JScalar (format_bool b))"
  by (cases b) (auto simp: format_bool_def scan_scalar_def quote_def is_digit_def scan_literal_def has_prefix_def intro!: json_scalar)

lemma ext_text_good:
  assumes "json_kind a" "validAttribute a"
  shows "good_text d (snd (ext_text (n, a)))"
  using assms json_value_string json_value_int json_value_bool
  by (auto simp: json_kind_def ext_text_def intro!: good_text_scalar elim: integer_text boolean_text)

lemma standardMembers_keys: "n \<in> set (keys (standardMembers e)) \<Longrightarrow>
    isReservedAttributeName n \<and> n \<noteq> ''data'' \<and> n \<noteq> ''data_base64'' \<and> is_ascii n"
  by (auto simp: standardMembers_def stringMemberText_def split: if_splits)

lemma standardMembers_distinct: "distinct (keys (standardMembers e))"
  by (auto simp: standardMembers_def stringMemberText_def)

lemma dataMember_keys: "n \<in> set (keys (dataMember d)) \<Longrightarrow> n = ''data'' \<or> n = ''data_base64''"
  by (auto simp: dataMember_def stringMemberText_def split: if_splits DataKind.splits)

lemma dataMember_single: "distinct (keys (dataMember d))"
  by (simp add: dataMember_def split: DataKind.split)

lemma jsonMembers_split:
  "json_lossless e \<Longrightarrow> jsonMembers e = standardMembers e @ map ext_text (ev_extensions e) @ dataMember (ev_data e)"
  by (simp add: jsonMembers_def extension_members)

lemma keys_ext_text: "keys (map ext_text xs) = keys xs"
  by (simp add: ext_text_def comp_def)

section \<open>Order of the extension map\<close>

lemma keys_extensionMembers:
  "\<forall>p\<in>set xs. attr_kind (snd p) \<noteq> AttributeUnassigned \<Longrightarrow> keys (concat (map extensionMember xs)) = keys xs"
  by (induction xs) (auto simp: extensionMember_def stringMemberText_def split: AttributeKind.splits)

lemma jsonMembers_distinct_valid:
  assumes "valid_event e"
  shows "distinct (keys (jsonMembers e))"
proof -
  let ?x = "ev_extensions e"
  have x: "\<forall>n\<in>set (keys ?x). \<not> isReservedAttributeName n" "\<forall>p\<in>set ?x. validAttribute (snd p)"
    using valid_eventD(7) [OF assms] by (auto simp: list_all_iff valid_extension_def)
  have "attr_kind (snd p) \<noteq> AttributeUnassigned" if "p \<in> set ?x" for p
    using x(2) that by (fastforce simp: validAttribute_def)
  then have k: "keys (concat (map extensionMember ?x)) = keys ?x" by (intro keys_extensionMembers) blast
  have "distinct (keys ?x)" using valid_eventD(5) [OF assms] by (simp add: wf_map_def)
  moreover have "set (keys ?x) \<inter> set (keys (dataMember (ev_data e))) = {}"
    using x(1) dataMember_keys reserved_names(1,2) by blast
  moreover have "set (keys (standardMembers e)) \<inter> set (keys ?x) = {}" using x(1) standardMembers_keys by blast
  moreover have "set (keys (standardMembers e)) \<inter> set (keys (dataMember (ev_data e))) = {}"
    using dataMember_keys standardMembers_keys by blast
  ultimately show ?thesis
    unfolding jsonMembers_def map_append k distinct_append set_append
    using standardMembers_distinct dataMember_single by blast
qed

lemma encodeJSON_perm:
  assumes "valid_event e" and "mset xs = mset (ev_extensions e)"
  shows "encodeJSON (e\<lparr>ev_extensions := xs\<rparr>) = encodeJSON e"
proof -
  have "standardMembers (e\<lparr>ev_extensions := xs\<rparr>) = standardMembers e"
    by (simp add: standardMembers_def Event_SpecVersion_def)
  then have "mset (jsonMembers (e\<lparr>ev_extensions := xs\<rparr>)) = mset (jsonMembers e)"
    using mset_concat_map [OF assms(2), of extensionMember] by (simp add: jsonMembers_def)
  then have "sort_key fst (jsonMembers e) = sort_key fst (jsonMembers (e\<lparr>ev_extensions := xs\<rparr>))"
    using jsonMembers_distinct_valid [OF assms(1)] by (intro sort_key_mset_cong) (simp_all add: distinct_map)
  then show ?thesis by (simp add: encodeJSON_def)
qed

lemmas jsonMembers_distinct = jsonMembers_distinct_valid [OF json_losslessD(1)]

lemma ext_text_lookup:
  assumes "json_lossless e" "isReservedAttributeName n"
  shows "map_of (map ext_text (ev_extensions e)) n = None"
  unfolding map_of_None_iff keys_ext_text using json_losslessD(3) [OF assms(1)] assms(2) by auto

lemma jsonMembers_lookup:
  assumes "json_lossless e"
  shows "map_of (jsonMembers e) ''specversion'' = Some (json_marshal_string specVersion)"
    "map_of (jsonMembers e) ''id'' = Some (json_marshal_string (ev_id e))"
    "map_of (jsonMembers e) ''source'' = Some (json_marshal_string (ev_source e))"
    "map_of (jsonMembers e) ''type'' = Some (json_marshal_string (ev_type e))"
    "map_of (jsonMembers e) ''datacontenttype'' =
      (if ev_dataContentType e = '''' then None else Some (json_marshal_string (ev_dataContentType e)))"
    "map_of (jsonMembers e) ''dataschema'' =
      (if ev_dataSchema e = '''' then None else Some (json_marshal_string (ev_dataSchema e)))"
    "map_of (jsonMembers e) ''subject'' =
      (if ev_subject e = '''' then None else Some (json_marshal_string (ev_subject e)))"
    "map_of (jsonMembers e) ''time'' =
      (if ev_hasTime e then Some (json_marshal_string (time_format (time_utc (ev_time e)))) else None)"
    "map_of (jsonMembers e) ''data'' = map_of (dataMember (ev_data e)) ''data''"
    "map_of (jsonMembers e) ''data_base64'' = map_of (dataMember (ev_data e)) ''data_base64''"
proof -
  have d: "map_of (dataMember (ev_data e)) n = None" if "n \<noteq> ''data''" "n \<noteq> ''data_base64''" for n
    unfolding map_of_None_iff using dataMember_keys that by blast
  have t: "data_present (ev_data e) \<Longrightarrow> data_kind (ev_data e) = DataText \<Longrightarrow> ev_dataContentType e \<noteq> ''''"
    using assms by (simp add: json_lossless_def jsonConversionReport_Nil)
  note simps = jsonMembers_split [OF assms] map_of_append map_add_def ext_text_lookup [OF assms] d
    standardMembers_def stringMemberText_def Event_SpecVersion_def
  show "map_of (jsonMembers e) ''specversion'' = Some (json_marshal_string specVersion)"
    "map_of (jsonMembers e) ''id'' = Some (json_marshal_string (ev_id e))"
    "map_of (jsonMembers e) ''source'' = Some (json_marshal_string (ev_source e))"
    "map_of (jsonMembers e) ''type'' = Some (json_marshal_string (ev_type e))"
    by (simp_all add: simps)
  show "map_of (jsonMembers e) ''datacontenttype'' =
      (if ev_dataContentType e = '''' then None else Some (json_marshal_string (ev_dataContentType e)))"
    using t by (auto simp: simps)
  show "map_of (jsonMembers e) ''dataschema'' =
      (if ev_dataSchema e = '''' then None else Some (json_marshal_string (ev_dataSchema e)))"
    "map_of (jsonMembers e) ''subject'' =
      (if ev_subject e = '''' then None else Some (json_marshal_string (ev_subject e)))"
    "map_of (jsonMembers e) ''time'' =
      (if ev_hasTime e then Some (json_marshal_string (time_format (time_utc (ev_time e)))) else None)"
    "map_of (jsonMembers e) ''data'' = map_of (dataMember (ev_data e)) ''data''"
    "map_of (jsonMembers e) ''data_base64'' = map_of (dataMember (ev_data e)) ''data_base64''"
    by (simp_all add: simps split: option.split)
qed

lemma json_data_text:
  assumes "json_lossless e" "data_present (ev_data e)" "data_kind (ev_data e) = DataJSON"
  shows "good_text (data_depth e) (data_bytes (ev_data e))"
proof -
  have "json_valid (data_bytes (ev_data e))"
    using valid_eventD(6) [OF json_losslessD(1) [OF assms(1)]] assms(3) by (simp add: data_ok_def)
  then obtain t where t: "parse_json (data_bytes (ev_data e)) = Some t" by (auto simp: json_valid_def)
  have "trim_space (data_bytes (ev_data e)) = data_bytes (ev_data e)"
    using assms by (simp add: json_lossless_def jsonConversionReport_Nil)
  from untrimmed_json [OF t this] have "raw t = data_bytes (ev_data e)" by simp
  then show ?thesis
    using parse_json_json_value(1) [OF t] t assms(3) unfolding good_text_def
    by (intro exI [of _ t]) (simp add: data_depth_def tree_of_def)
qed

lemma jsonMembers_good:
  assumes "json_lossless e" and "(n, w) \<in> set (jsonMembers e)"
  shows "valid_utf8 n \<and> good_text (data_depth e) w"
proof -
  consider "(n, w) \<in> set (standardMembers e)" | "(n, w) \<in> set (map ext_text (ev_extensions e))"
    | "(n, w) \<in> set (dataMember (ev_data e))"
    using assms(2) unfolding jsonMembers_split [OF assms(1)] by auto
  then show ?thesis
  proof cases
    case 1
    then have "valid_utf8 n" using standardMembers_keys [of n e] valid_utf8_is_ascii by force
    moreover from 1 obtain v where "w = json_marshal_string v"
      by (auto simp: standardMembers_def stringMemberText_def split: if_splits)
    ultimately show ?thesis by (simp add: good_text_scalar json_value_string)
  next
    case 2
    then obtain a where a: "(n, a) \<in> set (ev_extensions e)" "w = snd (ext_text (n, a))"
      by (auto simp: ext_text_def)
    have "validAttributeName n" "json_kind a" "validAttribute a"
      using json_losslessD(3) [OF assms(1)] a(1) by auto
    then show ?thesis
      using a(2) ext_text_good [of a] lower_alnum_ascii valid_utf8_is_ascii by (auto simp: validAttributeName_iff)
  next
    case 3
    then have "valid_utf8 n" using dataMember_keys [of n] valid_utf8_is_ascii [of n] by force
    then show ?thesis
      using 3 json_data_text [OF assms(1)] good_text_scalar [OF json_value_string]
      by (auto simp: dataMember_def stringMemberText_def split: if_splits DataKind.splits)
  qed
qed

lemma marshalled_head: "\<exists>u. trim_space (json_marshal_string v) = quote # u"
  unfolding json_marshal_string_def by (simp add: quote_def unicode_space_def trim_space_head)

lemma marshalled_not_null [simp]: "\<not> is_null (json_marshal_string v)"
  using marshalled_head [of v] by (auto simp: is_null_def quote_def)

lemma marshalled_within:
  "0 < m \<Longrightarrow> int (length v) \<le> m \<Longrightarrow> \<not> exceedsJSONEncodedStringLimit (json_marshal_string v) m"
  using length_marshal [of v] by (simp add: exceedsJSONEncodedStringLimit_iff)

lemma stringMember_marshalled:
  assumes "map_of members n = Some (json_marshal_string v)" "valid_utf8 v"
    and "0 < MaxAttributeValueBytes l" "int (length v) \<le> MaxAttributeValueBytes l"
  shows "stringMember members l n required = Inr (v, True)"
  using assms marshalled_within [OF assms(3,4)] by (simp add: stringMember_def unmarshal_marshalled)

lemma stringMember_optional:
  assumes "map_of members n = (if v = '''' then None else Some (json_marshal_string v))" "valid_utf8 v"
    and "0 < MaxAttributeValueBytes l" "int (length v) \<le> MaxAttributeValueBytes l"
  shows "stringMember members l n False = Inr (v, v \<noteq> '''')"
proof (cases "v = ''''")
  case True
  then show ?thesis using assms(1) by (simp add: stringMember_def)
next
  case False
  then show ?thesis using stringMember_marshalled [of members n v l False] assms by simp
qed

lemma decodeJSONAttribute_text:
  assumes "json_kind a" "validAttribute a" "plain_bytes a"
  shows "decodeJSONAttribute (snd (ext_text (n, a))) = Inr a"
proof -
  have b: "attr_bytes a = []" using assms(1,3) by (auto simp: json_kind_def plain_bytes_def split: if_splits)
  consider "attr_kind a = AttributeString" | "attr_kind a = AttributeBoolean" | "attr_kind a = AttributeInteger"
    using assms(1) by (auto simp: json_kind_def)
  then show ?thesis
  proof cases
    case 1
    then have "validCloudString (attr_text a)" using assms(2) by (simp add: validAttribute_def)
    then show ?thesis using 1 b validCloudString_utf8
      by (auto simp: ext_text_def decodeJSONAttribute_def unmarshal_marshalled NewStringAttribute_def)
  next
    case 2
    obtain v where "attr_text a = format_bool v" using boolean_text [OF assms(2) 2] .
    moreover have "scalar_token (format_bool v) = TokenBool v"
      by (cases v) (simp_all add: scalar_token_def format_bool_def is_string_text_def quote_def)
    ultimately show ?thesis using 2 b
      by (simp add: ext_text_def decodeJSONAttribute_def decode_any_scalar [OF json_value_bool] NewBooleanAttribute_def)
  next
    case 3
    obtain i where i: "attr_text a = format_int i" "parse_int 32 (attr_text a) = Some i"
      using integer_text [OF assms(2) 3] .
    moreover have "scalar_token (format_int i) = TokenNumber (format_int i)"
      using format_int_head [of i] by (auto simp: scalar_token_def is_string_text_def quote_def is_digit_def)
    ultimately show ?thesis using 3 b parse_int_range [of "attr_text a" i]
      by (simp add: ext_text_def decodeJSONAttribute_def decode_any_scalar [OF json_value_int] NewIntegerAttribute_def)
  qed
qed

lemma ext_text_head:
  assumes "json_kind a" "validAttribute a"
  obtains c u where "snd (ext_text (n, a)) = c # u" "byte c < 128" "\<not> unicode_space (byte c)" "c \<noteq> CHR ''n''"
    "c = quote \<longleftrightarrow> attr_kind a = AttributeString"
proof -
  consider "attr_kind a = AttributeString" | "attr_kind a = AttributeBoolean" | "attr_kind a = AttributeInteger"
    using assms(1) by (auto simp: json_kind_def)
  then show thesis
  proof cases
    case 1
    then show thesis by (intro that) (auto simp: ext_text_def json_marshal_string_def quote_def unicode_space_def)
  next
    case 2
    obtain v where "attr_text a = format_bool v" using boolean_text [OF assms(2) 2] .
    then show thesis using 2 by (cases v; intro that) (auto simp: ext_text_def format_bool_def quote_def unicode_space_def)
  next
    case 3
    obtain i where "attr_text a = format_int i" using integer_text [OF assms(2) 3] .
    then show thesis using 3 format_int_head [of i]
      by (auto intro!: that simp: ext_text_def quote_def unicode_space_def is_digit_def)
  qed
qed

lemma decodeJSONExtension_text:
  assumes "json_kind a" "validAttribute a" "plain_bytes a" "\<not> isReservedAttributeName n"
    and "0 < MaxAttributeNameBytes l" "int (length n) \<le> MaxAttributeNameBytes l"
    and "0 < MaxAttributeValueBytes l" "int (length (attr_text a)) \<le> MaxAttributeValueBytes l"
  shows "decodeJSONExtension l m (ext_text (n, a)) = Inr (AList.update n a m)"
proof -
  define w where "w = snd (ext_text (n, a))"
  have x: "ext_text (n, a) = (n, w)" by (simp add: w_def ext_text_def)
  obtain c u where c: "w = c # u" "byte c < 128" "\<not> unicode_space (byte c)" "c \<noteq> CHR ''n''"
    "c = quote \<longleftrightarrow> attr_kind a = AttributeString"
    using ext_text_head [OF assms(1,2)] unfolding w_def by metis
  obtain v where v: "trim_space w = c # v" using trim_space_head [OF c(2,3)] c(1) by blast
  have len: "length (c # v) \<le> length w" using length_trim_space [of w] v by simp
  have lim: "\<not> (if c = quote then exceedsJSONEncodedStringLimit (c # v) (MaxAttributeValueBytes l)
      else MaxAttributeValueBytes l < int (length (c # v)))"
    using len c(5) length_marshal [of "attr_text a"] assms(7,8)
    by (auto simp: w_def ext_text_def exceedsJSONEncodedStringLimit_iff)
  have "\<not> is_null w" using v c(4) by (simp add: is_null_def)
  then show ?thesis
    using decodeJSONAttribute_text [OF assms(1-3), of n] lim v assms(4-8)
    unfolding x by (auto simp: decodeJSONExtension_def w_def [symmetric] Attribute_String_def split: if_splits)
qed

lemma standard_or_data_reserved:
  "p \<in> set (standardMembers e) \<Longrightarrow> isReservedAttributeName (fst p)"
  "p \<in> set (dataMember d) \<Longrightarrow> isReservedAttributeName (fst p)"
  using standardMembers_keys [of "fst p" e] dataMember_keys [of "fst p" d] reserved_names(1,2) by force+

lemma free_members:
  assumes "json_lossless e"
  shows "filter (\<lambda>p. \<not> isReservedAttributeName (fst p)) (sort_key fst (jsonMembers e))
    = map ext_text (sort_key fst (ev_extensions e))"
proof -
  let ?P = "\<lambda>p. \<not> isReservedAttributeName (fst p)"
  have "filter ?P (standardMembers e) = []" "filter ?P (dataMember (ev_data e)) = []"
    using standard_or_data_reserved by (auto simp: filter_empty_conv)
  moreover have "filter ?P (map ext_text (ev_extensions e)) = map ext_text (ev_extensions e)"
    using json_losslessD(3) [OF assms] by (auto simp: ext_text_def filter_id_conv)
  ultimately have "filter ?P (jsonMembers e) = map ext_text (ev_extensions e)"
    by (simp add: jsonMembers_split [OF assms])
  then show ?thesis by (simp add: filter_sort sort_key_map ext_text_def)
qed

lemma fold_decodeJSONExtension:
  assumes e: "json_lossless e" and l: "json_within l e"
  shows "fold_result (decodeJSONExtension l) [] (sort_key fst (jsonMembers e)) = Inr (sort_key fst (ev_extensions e))"
proof -
  let ?xs = "sort_key fst (ev_extensions e)"
  have "decodeJSONExtension l m (ext_text x) = Inr (case x of (n, a) \<Rightarrow> AList.update n a m)" if "x \<in> set ?xs" for m x
  proof -
    obtain n a where x: "x = (n, a)" by fastforce
    have "(n, a) \<in> set (ev_extensions e)" using that x by simp
    then show ?thesis
      using json_losslessD(3) [OF e] l unfolding x prod.case
      by (intro decodeJSONExtension_text) (auto simp: json_within_def list_all_iff)
  qed
  then have "fold_result (decodeJSONExtension l) [] (map ext_text ?xs)
      = Inr (foldl (\<lambda>m (n, a). AList.update n a m) [] ?xs)"
    unfolding fold_result_map by (subst fold_result_total) (auto simp: case_prod_beta)
  moreover have "wf_map ?xs"
    using wf_map_mset [of "ev_extensions e" ?xs] valid_eventD(5) [OF json_losslessD(1) [OF e]] by simp
  ultimately show ?thesis
    by (subst fold_result_filter [where P = "\<lambda>p. \<not> isReservedAttributeName (fst p)"])
      (auto simp: free_members [OF e] decodeJSONExtension_def foldl_update_fresh)
qed

lemma decodeJSONData_member:
  assumes e: "json_lossless e" and l: "json_within l e" and m: "map_of ms = map_of (jsonMembers e)"
  shows "decodeJSONData ms (ev_dataContentType e) l = Inr (ev_data e)"
proof -
  let ?d = "ev_data e"
  have ok: "data_ok ?d" by (rule valid_eventD(6) [OF json_losslessD(1) [OF e]])
  note look = jsonMembers_lookup(9,10) [OF e]
  have r: "data_present ?d \<longrightarrow> (data_kind ?d = DataJSON \<longrightarrow> isJSONMediaType (ev_dataContentType e))
      \<and> (data_kind ?d = DataText \<longrightarrow> \<not> isJSONMediaType (ev_dataContentType e))"
    using e by (simp add: json_lossless_def jsonConversionReport_Nil)
  have w: "data_present ?d \<longrightarrow> 0 < MaxDataBytes l \<and> int (length (data_bytes ?d)) \<le> MaxDataBytes l"
    using l by (simp add: json_within_def)
  show ?thesis
  proof (cases "data_kind ?d")
    case DataAbsent
    then show ?thesis using ok absent_data [OF ok]
      by (simp add: decodeJSONData_def m look dataMember_def data_ok_def)
  next
    case DataJSON
    then have "data_present ?d" "json_valid (data_bytes ?d)" using ok by (simp_all add: data_ok_def)
    then show ?thesis using DataJSON r w
      by (simp add: decodeJSONData_def m look dataMember_def NewJSONData_def)
  next
    case DataText
    then have p: "data_present ?d" "valid_utf8 (data_bytes ?d)" using ok by (simp_all add: data_ok_def)
    then show ?thesis using DataText r w marshalled_within [of "MaxDataBytes l" "data_bytes ?d"]
      by (simp add: decodeJSONData_def m look dataMember_def NewTextData_def stringMemberText_def unmarshal_marshalled)
  next
    case DataBinary
    then have p: "data_present ?d" using ok by (simp_all add: data_ok_def)
    have u: "valid_utf8 (b64_encode (data_bytes ?d))" by (rule valid_utf8_is_ascii [OF b64_encode_ascii])
    have "\<not> list_ex line_break (b64_encode (data_bytes ?d))"
      using b64_encode_line_break [of "data_bytes ?d"] by (auto simp: list_all_iff list_ex_iff)
    then show ?thesis using DataBinary p w
      by (simp add: decodeJSONData_def m look dataMember_def NewBinaryData_def stringMemberText_def decodeJSONBase64_def
          newBinaryString_def NewBinaryAttribute_def Attribute_String_def unmarshal_marshalled [OF u]
          base64DecodedLength_encode b64_decode_encode)
  qed
qed

lemma countJSONAttributes_mset: "mset ms = mset ns \<Longrightarrow> countJSONAttributes ms = countJSONAttributes ns"
  unfolding countJSONAttributes_filter by (rule mset_eq_length) simp

lemma decodeJSONMembers_encoded:
  assumes e: "json_lossless e" and l: "json_within l e"
  shows "decodeJSONMembers (sort_key fst (jsonMembers e)) l = Inr (sorted_event e)"
proof -
  let ?ms = "sort_key fst (jsonMembers e)"
  note v = json_losslessD(1) [OF e]
  have m: "map_of ?ms = map_of (jsonMembers e)"
    using jsonMembers_distinct [OF e] by (intro perm_map_of) (simp_all add: wf_map_def)
  note look = jsonMembers_lookup [OF e, folded m]
  have u: "valid_utf8 (ev_id e)" "valid_utf8 (ev_source e)" "valid_utf8 (ev_type e)" "valid_utf8 (ev_subject e)"
    "valid_utf8 (ev_dataContentType e)" "valid_utf8 (ev_dataSchema e)" "valid_utf8 specVersion"
    using valid_eventD(1-4) [OF v, THEN validCloudString_utf8] e
    by (simp_all add: json_lossless_def specVersion_def valid_utf8_is_ascii)
  have w: "0 < MaxAttributeValueBytes l"
    "int (length specVersion) \<le> MaxAttributeValueBytes l" "int (length (ev_id e)) \<le> MaxAttributeValueBytes l"
    "int (length (ev_source e)) \<le> MaxAttributeValueBytes l" "int (length (ev_type e)) \<le> MaxAttributeValueBytes l"
    "int (length (ev_dataContentType e)) \<le> MaxAttributeValueBytes l"
    "int (length (ev_dataSchema e)) \<le> MaxAttributeValueBytes l"
    "int (length (ev_subject e)) \<le> MaxAttributeValueBytes l"
    using l by (simp_all add: json_within_def)
  note req = stringMember_marshalled [of ?ms _ _ l]
  note opt = stringMember_optional [of ?ms _ _ l]
  have time: "\<exists>tv. stringMember ?ms l ''time'' False = Inr (tv, ev_hasTime e)
      \<and> decodeTimeText tv (ev_hasTime e) = Inr (if ev_hasTime e then Some (ev_time e) else None)"
  proof (cases "ev_hasTime e")
    case True
    then have n: "nsec (ev_time e) < 10 ^ 9 \<and> time_utc (ev_time e) = ev_time e"
      using v by (simp add: valid_event_def event_wf_def)
    have "stringMember ?ms l ''time'' False = Inr (time_format (time_utc (ev_time e)), True)"
      using True l look(8) w(1) valid_utf8_is_ascii [OF time_format_ascii [of "ev_time e"]]
      by (intro stringMember_marshalled) (simp_all add: json_within_def)
    then show ?thesis
      using True n time_parse_format_utc [of "ev_time e"] json_losslessD(2) [OF e] by (simp add: decodeTimeText_def)
  next
    case False
    then show ?thesis using look(8) by (simp add: stringMember_def decodeTimeText_def)
  qed
  then obtain tv where t: "stringMember ?ms l ''time'' False = Inr (tv, ev_hasTime e)"
    "decodeTimeText tv (ev_hasTime e) = Inr (if ev_hasTime e then Some (ev_time e) else None)" by blast
  have "NewEvent (event_attributes (sorted_event e)) (ev_data (sorted_event e)) = Inr (sorted_event e)"
    by (rule NewEvent_event_attributes [OF same_sorted_event(2) [OF v]])
  then show ?thesis
    unfolding decodeJSONMembers_def t fold_decodeJSONExtension [OF e l] decodeJSONData_member [OF e l m]
      req [OF look(1) u(7) w(1,2)] req [OF look(2) u(1) w(1,3)] req [OF look(3) u(2) w(1,4)] req [OF look(4) u(3) w(1,5)]
      opt [OF look(5) u(5) w(1,6)] opt [OF look(6) u(6) w(1,7)] opt [OF look(7) u(4) w(1,8)]
    using t(2) decodeJSONData_member [OF e l m]
    by (cases "ev_hasTime e") (simp_all add: event_attributes_def sorted_event_def)
qed

lemma countJSONAttributes_pos: "0 < countJSONAttributes (jsonMembers e)"
  by (simp add: countJSONAttributes_filter jsonMembers_def standardMembers_def stringMemberText_def)

lemma encodeJSON_object:
  assumes e: "json_lossless e" and d: "data_depth e < max_nesting"
  shows "unmarshal_map (encodeJSON e) = Some (sort_key fst (jsonMembers e))"
    and "int (Suc (data_depth e)) \<le> mx \<Longrightarrow> inspectJSON (encodeJSON e) mx = Inr ()"
    and "good_text (Suc (data_depth e)) (encodeJSON e)"
proof -
  let ?ms = "sort_key fst (jsonMembers e)"
  have g: "\<forall>(n, w)\<in>set ?ms. valid_utf8 n \<and> good_text (data_depth e) w"
    using jsonMembers_good [OF e] by auto
  have "jsonMembers e \<noteq> []" by (simp add: jsonMembers_def standardMembers_def)
  then have ne: "?ms \<noteq> []" by (simp flip: length_greater_0_conv)
  have "distinct (keys ?ms)"
    using jsonMembers_distinct [OF e] wf_map_mset [of "jsonMembers e" ?ms] by (simp add: wf_map_def)
  note o = encoded_object [OF g ne d this, folded encodeJSON_def]
  show "unmarshal_map (encodeJSON e) = Some ?ms" "good_text (Suc (data_depth e)) (encodeJSON e)" using o by blast+
  show "inspectJSON (encodeJSON e) mx = Inr ()" if "int (Suc (data_depth e)) \<le> mx" using o(2) [of mx] that by simp
qed

lemma DecodeJSON_encodeJSON:
  assumes e: "json_lossless e" and l: "json_within l e"
  shows "DecodeJSON (encodeJSON e) l = Inr (sorted_event e)"
proof -
  let ?ms = "sort_key fst (jsonMembers e)"
  have k: "data_depth e < max_nesting" "int (Suc (data_depth e)) \<le> MaxDepth l"
    "int (countJSONAttributes (jsonMembers e)) \<le> MaxAttributes l"
    "int (length (encodeJSON e)) \<le> MaxEventBytes l"
    using l unfolding json_within_def by blast+
  have c: "countJSONAttributes ?ms = countJSONAttributes (jsonMembers e)" by (rule countJSONAttributes_mset) simp
  have "0 < length (encodeJSON e)" by (simp add: encodeJSON_def)
  then have "0 < MaxEventBytes l" "0 < MaxAttributes l" using k countJSONAttributes_pos [of e] by linarith+
  then show ?thesis
    using encodeJSON_object(1) [OF e k(1)] encodeJSON_object(2) [OF e k(1,2)] k(3,4) decodeJSONMembers_encoded [OF e l]
    by (simp add: DecodeJSON_def c)
qed

section \<open>Written arrays and batches\<close>

lemma good_text_mono: "good_text d w \<Longrightarrow> d \<le> d' \<Longrightarrow> good_text d' w"
  unfolding good_text_def using le_trans by blast

lemma parse_written_elements:
  assumes "\<forall>t\<in>set (t # ts). json_value t \<and> depth t \<le> d"
    and "2 * length (writeItems 0 (map raw (t # ts))) \<le> f"
  shows "parse_elements (Suc f) d (writeItems 0 (map raw (t # ts)) @ CHR '']'' # r) = Some (t # ts, r)"
  using assms
proof (induction ts arbitrary: t f)
  case Nil
  have "parse_value f d (raw t @ CHR '']'' # r) = Some (t, CHR '']'' # r)"
    using Nil.prems by (intro json_value_parse) (auto simp: delim_def)
  then show ?case by (simp add: parse_elements.simps(2) skip_ws_Cons json_space_def)
next
  case (Cons t' ts)
  let ?rest = "comma_items (map raw (t' # ts)) @ CHR '']'' # r"
  let ?more = "writeItems 0 (map raw (t' # ts)) @ CHR '']'' # r"
  have r: "?rest = CHR '','' # ?more"
    unfolding list.map writeItems_Cons comma_items_Cons by simp
  have p: "parse_value f d (raw t @ ?rest) = Some (t, ?rest)"
    using Cons.prems unfolding r by (intro json_value_parse) (auto simp: delim_def writeItems_Cons)
  have s: "skip_ws ?more = ?more"
    using json_value_skip_ws [of t' "comma_items (map raw ts) @ CHR '']'' # r"] Cons.prems(1)
    by (simp only: list.map writeItems_Cons append_assoc) simp
  obtain g where g: "f = Suc g" using Cons.prems(2) by (cases f) (auto simp: writeItems_Cons comma_items_Cons)
  have "2 * length (writeItems 0 (map raw (t' # ts))) \<le> g"
    using Cons.prems(2) unfolding g list.map writeItems_Cons comma_items_Cons length_append length_Cons by simp
  then have "parse_elements (Suc g) d ?more = Some (t' # ts, r)"
    using Cons.IH [of t' g] Cons.prems(1) by (simp only: list.set) simp
  then have "parse_elements (Suc f) d (raw t @ ?rest) = Some (t # t' # ts, r)"
    using p unfolding r g parse_elements.simps(2) [of "Suc g"] using s by (simp add: skip_ws_punct del: writeItems.simps)
  then show ?case by (simp only: list.map writeItems_Cons append_assoc)
qed

lemma parse_elements_bracket: "parse_elements f d (CHR '']'' # u) = None"
proof -
  have "parse_value g d (CHR '']'' # u) = None" for g
    by (cases g) (simp_all add: parse_value.simps(2) scan_scalar_def quote_def is_digit_def)
  then show ?thesis by (cases f) (simp_all add: parse_elements.simps(2))
qed

lemma encoded_array:
  assumes "\<forall>w\<in>set ws. good_text d w" and "d < max_nesting"
  defines "text \<equiv> ''['' @ writeItems 0 ws @ '']''"
  shows "unmarshal_slice text = Some ws" and "int (Suc d) \<le> mx \<Longrightarrow> inspectJSON text mx = Inr ()"
proof -
  let ?ts = "map tree_of ws"
  have t: "json_value (tree_of w)" "raw (tree_of w) = w" "depth (tree_of w) \<le> d" if "w \<in> set ws" for w
    using good_textD [of d w] assms(1,2) that by auto
  have back_raw: "map raw ?ts = ws" using t(2) by (auto intro!: map_idI)
  have "skip_ws text = text" by (simp add: text_def json_space_def)
  moreover have "parse_value (2 * length text) max_nesting text = Some (JArray text ?ts, [])"
  proof (cases ws)
    case Nil
    then show ?thesis by (simp add: text_def eval_nat_numeral parse_value.simps(2) max_nesting_def upto_rest_def skip_ws_Cons json_space_def)
  next
    case (Cons w ws')
    define f where "f = 2 * length (writeItems 0 ws) + 2"
    have l: "2 * length text = Suc (Suc f)" by (simp add: text_def f_def)
    have "\<forall>x\<in>set ?ts. json_value x \<and> depth x \<le> max_nesting - 1" using t(1,3) assms(2) by fastforce
    then have "parse_elements (Suc f) (max_nesting - 1) (writeItems 0 (map raw ?ts) @ '']'') = Some (?ts, [])"
      using parse_written_elements [of "tree_of w" "map tree_of ws'" "max_nesting - 1" f "[]"] back_raw
      by (simp add: f_def Cons del: writeItems.simps)
    then have p: "parse_elements (Suc f) (max_nesting - 1) (writeItems 0 ws @ '']'') = Some (?ts, [])"
      unfolding back_raw .
    have "json_value (tree_of w)" "raw (tree_of w) = w" using t Cons by auto
    then have s: "skip_ws (writeItems 0 ws @ '']'') = writeItems 0 ws @ '']''"
      using json_value_skip_ws [of "tree_of w"] by (simp add: Cons writeItems_Cons)
    obtain c u where c: "writeItems 0 ws @ '']'' = c # u" by (metis append_is_Nil_conv list.exhaust not_Cons_self2)
    moreover have "c \<noteq> CHR '']''" using p c by (auto simp: parse_elements_bracket)
    ultimately
    show ?thesis
      using p s c unfolding l by (simp add: text_def parse_value.simps(2) max_nesting_def upto_rest_def)
  qed
  ultimately have p: "parse_json text = Some (JArray text ?ts)" by (simp add: parse_json_def)
  then show "unmarshal_slice text = Some ws" using back_raw by (simp add: unmarshal_slice_def)
  have "depth (JArray text ?ts) \<le> Suc d" unfolding depth_le_JArray using t(3) by auto
  then show "inspectJSON text mx = Inr ()" if "int (Suc d) \<le> mx"
    using that inspectJSON_parsed [OF p, of mx] check_tree_None [of 0 mx True "JArray text ?ts"] by simp
qed

lemma encodeBatchLoop_lossless:
  assumes "\<forall>e\<in>set es. json_lossless e"
  shows "encodeBatchLoop i out losses es = Inr (out @ writeItems i (map encodeJSON es), losses)"
  using assms
  by (induction es arbitrary: i out losses)
    (auto simp: EncodeJSONWithReport_def json_lossless_def prefixConversionReport_def canonicalConversionReport_def)

lemma EncodeJSONBatch_lossless:
  "\<forall>e\<in>set es. json_lossless e \<Longrightarrow> EncodeJSONBatch es = Inr (''['' @ writeItems 0 (map encodeJSON es) @ '']'')"
  by (simp add: EncodeJSONBatch_def EncodeJSONBatchWithReport_def encodeBatchLoop_lossless canonicalConversionReport_def
      rejectConversionLoss_def)

definition json_batch_within :: "Limits \<Rightarrow> Event list \<Rightarrow> bool" where
  "json_batch_within l es \<longleftrightarrow> list_all (json_within l) es
     \<and> list_all (\<lambda>e. Suc (data_depth e) < max_nesting) es
     \<and> 0 < MaxDepth l \<and> MaxDepth l \<noteq> maxInt64
     \<and> 0 < MaxBatchEvents l \<and> int (length es) \<le> MaxBatchEvents l
     \<and> int (length (''['' @ writeItems 0 (map encodeJSON es) @ '']'')) \<le> MaxEventBytes l"

lemma DecodeJSONBatch_encoded:
  assumes e: "\<forall>e\<in>set es. json_lossless e" and l: "json_batch_within l es"
  shows "DecodeJSONBatch (''['' @ writeItems 0 (map encodeJSON es) @ '']'') l = Inr (map sorted_event es)"
proof -
  let ?text = "''['' @ writeItems 0 (map encodeJSON es) @ '']''"
  define d where "d = nat (min (MaxDepth l) (int max_nesting - 1))"
  have k: "0 < MaxDepth l" "MaxDepth l \<noteq> maxInt64" "0 < MaxBatchEvents l" "int (length es) \<le> MaxBatchEvents l"
    "int (length ?text) \<le> MaxEventBytes l"
    using l unfolding json_batch_within_def by blast+
  have w: "json_within l x" "Suc (data_depth x) < max_nesting" if "x \<in> set es" for x
    using l that by (auto simp: json_batch_within_def list_all_iff)
  have d: "d < max_nesting" "int (Suc d) \<le> MaxDepth l + 1" using k(1) by (auto simp: d_def max_nesting_def)
  have "good_text d (encodeJSON x)" if "x \<in> set es" for x
  proof (rule good_text_mono)
    show "good_text (Suc (data_depth x)) (encodeJSON x)"
      using encodeJSON_object(3) [of x] e w(2) [OF that] that by simp
    show "Suc (data_depth x) \<le> d"
      using w [OF that] by (auto simp: d_def json_within_def)
  qed
  then have "\<forall>x\<in>set (map encodeJSON es). good_text d x" by simp
  note a = encoded_array [OF this d(1)]
  obtain u where "trim_space ?text = CHR ''['' # u"
    using trim_space_head [of "CHR ''[''" "writeItems 0 (map encodeJSON es) @ '']''"] by (auto simp: unicode_space_def)
  moreover have "map_result (\<lambda>rawEvent. DecodeJSON rawEvent l) (map encodeJSON es) = Inr (map sorted_event es)"
    using DecodeJSON_encodeJSON e w(1) by (induction es) auto
  moreover have "0 < MaxEventBytes l" using k(5) by simp
  ultimately show ?thesis
    using a(1) a(2) [OF d(2)] k unfolding DecodeJSONBatch_def Let_def by simp
qed

end
