(* ===== verification/CE_Binding.thy ===== *)
theory CE_Binding
  imports CE_Json_Decode
begin

text \<open>
  What the Kafka and the HTTP binding have in common: the content modes, the context metadata a structured
  message may repeat in its headers, and the construction of an event from decoded binary-mode
  attributes. The two bindings write this code out twice, with \<open>ce_\<close> and \<open>ce-\<close> in their diagnostics; the
  shared definitions take that prefix as an argument.
\<close>

text \<open>
  \<open>ContentMode\<close> is a \<open>uint8\<close> with three named values; \<open>ModeUnset\<close> stands for every other value, zero included, since
  the code only compares a mode with the named ones.
\<close>

datatype ContentMode = ModeUnset | BinaryMode | StructuredMode | BatchMode

definition optional_entry :: "bool \<Rightarrow> bytes \<Rightarrow> bytes \<Rightarrow> (bytes \<times> bytes) list" where
  "optional_entry present name value = (if present then [(name, value)] else [])"

text \<open>The attributes every binding writes, in the order of the code, without the content type.\<close>

definition contextEntries :: "Event \<Rightarrow> (bytes \<times> bytes) list" where
  "contextEntries e =
     [(''specversion'', Event_SpecVersion e), (''id'', ev_id e), (''source'', ev_source e),
      (''type'', ev_type e)] @
     optional_entry (ev_dataSchema e \<noteq> '''') ''dataschema'' (ev_dataSchema e) @
     optional_entry (ev_subject e \<noteq> '''') ''subject'' (ev_subject e) @
     optional_entry (ev_hasTime e) ''time'' (time_format (time_utc (ev_time e))) @
     map (\<lambda>(name, attribute). (name, Attribute_String attribute)) (ev_extensions e)"

definition expectedMetadata :: "Event \<Rightarrow> (bytes, bytes) gomap" where
  "expectedMetadata e =
     foldl (\<lambda>m (name, attribute). AList.update name (Attribute_String attribute) m)
       ([(''specversion'', Event_SpecVersion e), (''id'', ev_id e), (''source'', ev_source e),
         (''type'', ev_type e)] @
        optional_entry (ev_dataContentType e \<noteq> '''') ''datacontenttype'' (ev_dataContentType e) @
        optional_entry (ev_dataSchema e \<noteq> '''') ''dataschema'' (ev_dataSchema e) @
        optional_entry (ev_subject e \<noteq> '''') ''subject'' (ev_subject e) @
        optional_entry (ev_hasTime e) ''time'' (time_format (time_utc (ev_time e))))
       (ev_extensions e)"

text \<open>Reading a Go map of strings: a missing entry is the empty string.\<close>

definition lookup :: "(bytes, bytes) gomap \<Rightarrow> bytes \<Rightarrow> bytes" where
  "lookup m name = (case map_of m name of None \<Rightarrow> '''' | Some v \<Rightarrow> v)"

definition decodeBinaryTime :: "(bytes, bytes) gomap \<Rightarrow> gotime option result" where
  "decodeBinaryTime decoded =
     (case map_of decoded ''time'' of
        None \<Rightarrow> Inr None
      | Some timeValue \<Rightarrow>
          (case time_parse timeValue of
             None \<Rightarrow> Inl (Errorf ErrInvalidEvent ''time'')
           | Some parsed \<Rightarrow> Inr (Some parsed)))"

definition decodeBinaryExtension ::
    "bytes \<Rightarrow> (bytes, Attribute) gomap \<Rightarrow> bytes \<times> bytes \<Rightarrow> (bytes, Attribute) gomap result" where
  "decodeBinaryExtension pre extensions entry =
     (case entry of (name, value) \<Rightarrow>
        if isReservedAttributeName name then Inr extensions
        else (case NewStringAttribute value of
                Inl _ \<Rightarrow> Inl (Errorf ErrInvalidEvent (pre @ name))
              | Inr attribute \<Rightarrow> Inr (AList.update name attribute extensions)))"

definition decodeBinaryData :: "bytes \<Rightarrow> bytes \<Rightarrow> Data result" where
  "decodeBinaryData contentType value =
     (if isJSONMediaType contentType then NewJSONData value
      else if isTextMediaType contentType then NewTextData value
      else Inr (NewBinaryData value))"

definition decodeBinaryEvent ::
    "bytes \<Rightarrow> (bytes, bytes) gomap \<Rightarrow> bytes \<Rightarrow> Data result \<Rightarrow> Event result" where
  "decodeBinaryEvent pre decoded contentType data_result =
     (if lookup decoded ''specversion'' \<noteq> specVersion then Inl (Errorf ErrInvalidEvent ''specversion'')
      else and_then (decodeBinaryTime decoded) (\<lambda>occurredAt.
        and_then (fold_result (decodeBinaryExtension pre) [] decoded) (\<lambda>extensions.
        and_then data_result (\<lambda>data.
        NewEvent \<lparr>a_ID = lookup decoded ''id'', a_Source = lookup decoded ''source'',
          a_Type = lookup decoded ''type'', a_DataContentType = contentType,
          a_DataSchema = lookup decoded ''dataschema'', a_Subject = lookup decoded ''subject'',
          a_Time = occurredAt, a_Extensions = extensions\<rparr> data))))"

section \<open>Decoded events are admitted\<close>

lemma binary_mode: "m \<noteq> ModeUnset \<Longrightarrow> m \<noteq> StructuredMode \<Longrightarrow> m \<noteq> BatchMode \<Longrightarrow> m = BinaryMode"
  by (cases m) simp_all

lemma decodeBinaryTime_yields:
  "yields decode_error (pred_option (\<lambda>t. nsec t < 10 ^ 9)) (decodeBinaryTime decoded)"
  using time_parse_nsec by (auto simp: decodeBinaryTime_def split: option.splits)

definition values_within :: "Limits \<Rightarrow> (bytes, bytes) gomap \<Rightarrow> bool" where
  "values_within l m \<longleftrightarrow> list_all (\<lambda>(name, v). name_within l name
     \<and> int (length v) \<le> MaxAttributeValueBytes l) m"

lemma values_within_Nil [simp]: "values_within l []"
  by (simp add: values_within_def)

lemma values_within_update:
  "values_within l m \<Longrightarrow> name_within l name
     \<Longrightarrow> int (length v) \<le> MaxAttributeValueBytes l \<Longrightarrow> values_within l (AList.update name v m)"
  by (induction m) (auto simp: values_within_def)

lemma lookup_within: "values_within l m \<Longrightarrow> 0 \<le> MaxAttributeValueBytes l
    \<Longrightarrow> int (length (lookup m name)) \<le> MaxAttributeValueBytes l"
  by (auto simp: lookup_def values_within_def list_all_iff dest!: map_of_SomeD split: option.split)

lemma decodeBinaryExtension_yields:
  assumes "name_within l (fst p)" and "int (length (snd p)) \<le> MaxAttributeValueBytes l"
    and "plain_map m \<and> extensions_within l m"
  shows "yields decode_error (\<lambda>m. plain_map m \<and> extensions_within l m) (decodeBinaryExtension pre m p)"
  using assms
  by (auto simp: decodeBinaryExtension_def NewStringAttribute_Inr plain_bytes_def intro!: plain_map_update extensions_within_update
      split: prod.split sum.split)

lemma decodeBinaryExtension_keys:
  assumes "decodeBinaryExtension pre m p = Inr m'"
  shows "set (keys m') \<subseteq> insert (fst p) (set (keys m))"
proof -
  have "m' = m \<or> (\<exists>a. m' = AList.update (fst p) a m)"
    using assms by (auto simp: decodeBinaryExtension_def split: prod.splits if_splits sum.splits)
  then show ?thesis using keys_update [of "fst p" _ m] by fastforce
qed

lemma decodeBinaryExtensions_count:
  assumes "fold_result (decodeBinaryExtension pre) [] decoded = Inr m" and "wf_map m"
  shows "length m \<le> length decoded"
proof -
  have "set (keys m) \<subseteq> set (keys decoded)"
  proof (rule fold_result_invariant [OF assms(1)])
    fix s t p
    assume p: "p \<in> set decoded" "decodeBinaryExtension pre s p = Inr t" and s: "set (keys s) \<subseteq> set (keys decoded)"
    have "insert (fst p) (set (keys s)) \<subseteq> set (keys decoded)" using p(1) s by simp
    then show "set (keys t) \<subseteq> set (keys decoded)" by (rule subset_trans [OF decodeBinaryExtension_keys [OF p(2)]])
  qed simp
  then have "card (set (keys m)) \<le> card (set (keys decoded))" by (intro card_mono) simp_all
  also have "\<dots> \<le> length decoded" by (metis card_length length_map)
  finally show ?thesis using assms(2) by (metis distinct_card length_map wf_map_def)
qed

lemma decodeBinaryData_yields:
  "int (length v) \<le> MaxDataBytes l \<Longrightarrow> yields decode_error (data_within l) (decodeBinaryData ct v)"
  by (auto simp: decodeBinaryData_def New_data_yields)

lemma decodeBinaryEvent_yields:
  assumes "values_within l decoded" and c: "decoded \<noteq> [] \<Longrightarrow> int (length decoded) \<le> MaxAttributes l"
    and d: "yields decode_error (data_within l) data_result"
  shows "yields decode_error (admitted l) (decodeBinaryEvent pre decoded ct data_result)"
proof (cases "lookup decoded ''specversion'' = specVersion")
  case True
  then have ne: "decoded \<noteq> []" by (auto simp: lookup_def specVersion_def)
  then obtain n v where "(n, v) \<in> set decoded" by (cases decoded) auto
  then have pos: "0 \<le> MaxAttributeValueBytes l" using assms(1) by (fastforce simp: values_within_def list_all_iff)
  have x: "yields decode_error (\<lambda>m. plain_map m \<and> extensions_within l m)
      (fold_result (decodeBinaryExtension pre) [] decoded)"
    by (rule yields_fold_result)
      (use assms(1) in \<open>auto simp: values_within_def list_all_iff intro!: decodeBinaryExtension_yields\<close>)
  have n: "yields decode_error (admitted l) (NewEvent a d)"
    if "attributes_wf a" "data_within l d" "context_within l a" for a d
    by (rule yields_mono [OF NewEvent_yields [OF that]]) auto
  have count: "int (length m) \<le> MaxAttributes l"
    if "fold_result (decodeBinaryExtension pre) [] decoded = Inr m" "plain_map m" for m
    using decodeBinaryExtensions_count [OF that(1)] that(2) c [OF ne] by simp
  show ?thesis
    unfolding decodeBinaryEvent_def using True
    by (auto intro!: yields_and_then [OF decodeBinaryTime_yields] yields_and_then [OF x] yields_and_then [OF d] n
        lookup_within [OF assms(1) pos] simp: attributes_wf_def context_within_def count)
qed (simp add: decodeBinaryEvent_def)

section \<open>An event is rebuilt from its context entries\<close>

definition string_extensions :: "Event \<Rightarrow> bool" where
  "string_extensions e \<longleftrightarrow> (\<forall>p\<in>set (ev_extensions e). attr_kind (snd p) = AttributeString)"

definition standardEntries :: "Event \<Rightarrow> (bytes \<times> bytes) list" where
  "standardEntries e =
     [(''specversion'', Event_SpecVersion e), (''id'', ev_id e), (''source'', ev_source e),
      (''type'', ev_type e)] @
     optional_entry (ev_dataSchema e \<noteq> '''') ''dataschema'' (ev_dataSchema e) @
     optional_entry (ev_subject e \<noteq> '''') ''subject'' (ev_subject e) @
     optional_entry (ev_hasTime e) ''time'' (time_format (time_utc (ev_time e)))"

abbreviation extensionEntries :: "Event \<Rightarrow> (bytes \<times> bytes) list" where
  "extensionEntries e \<equiv> map (\<lambda>(name, attribute). (name, Attribute_String attribute)) (ev_extensions e)"

lemma contextEntries_split: "contextEntries e = standardEntries e @ extensionEntries e"
  by (simp add: contextEntries_def standardEntries_def)

lemma standardEntries_reserved: "p \<in> set (standardEntries e) \<Longrightarrow> isReservedAttributeName (fst p)"
  by (auto simp: standardEntries_def optional_entry_def split: if_splits)

lemma standardEntries_distinct: "distinct (keys (standardEntries e))"
  by (simp add: standardEntries_def optional_entry_def)

lemma extensionEntries_free:
  "valid_event e \<Longrightarrow> p \<in> set (extensionEntries e) \<Longrightarrow> \<not> isReservedAttributeName (fst p)"
  by (drule valid_eventD(7)) (auto simp: list_all_iff valid_extension_def)

lemma keys_extensionEntries: "keys (extensionEntries e) = keys (ev_extensions e)"
  by (simp add: comp_def case_prod_beta)

lemma reserved_not_extension:
  assumes "valid_event e" "isReservedAttributeName n"
  shows "n \<notin> set (keys (extensionEntries e))"
  using assms(2) valid_eventD(7) [OF assms(1)] unfolding keys_extensionEntries
  by (fastforce simp: list_all_iff valid_extension_def)

lemma contextEntries_wf:
  assumes "valid_event e"
  shows "wf_map (contextEntries e)"
proof -
  have "set (keys (standardEntries e)) \<inter> set (keys (extensionEntries e)) = {}"
    using standardEntries_reserved extensionEntries_free [OF assms] by fastforce
  then show ?thesis
    using valid_eventD(5) [OF assms] standardEntries_distinct [of e]
    unfolding wf_map_def contextEntries_split map_append distinct_append keys_extensionEntries by simp
qed

lemma filter_contextEntries:
  "valid_event e \<Longrightarrow> filter (\<lambda>p. \<not> isReservedAttributeName (fst p)) (contextEntries e) = extensionEntries e"
  unfolding contextEntries_split filter_append
  using standardEntries_reserved extensionEntries_free
  by (metis (no_types, lifting) append_Nil filter_False filter_True)

lemma contextEntries_lookup:
  "lookup (contextEntries e) ''specversion'' = specVersion"
  "lookup (contextEntries e) ''id'' = ev_id e"
  "lookup (contextEntries e) ''source'' = ev_source e"
  "lookup (contextEntries e) ''type'' = ev_type e"
  by (simp_all add: lookup_def contextEntries_def Event_SpecVersion_def)

lemma contextEntries_optional:
  assumes "valid_event e"
  shows "lookup (contextEntries e) ''dataschema'' = ev_dataSchema e"
    "lookup (contextEntries e) ''subject'' = ev_subject e"
    "map_of (contextEntries e) ''time'' = (if ev_hasTime e then Some (time_format (time_utc (ev_time e))) else None)"
proof -
  have "map_of (extensionEntries e) n = None" if "isReservedAttributeName n" for n
    using reserved_not_extension [OF assms that] by (simp only: map_of_None_iff not_False_eq_True)
  then show "lookup (contextEntries e) ''dataschema'' = ev_dataSchema e"
    "lookup (contextEntries e) ''subject'' = ev_subject e"
    "map_of (contextEntries e) ''time'' = (if ev_hasTime e then Some (time_format (time_utc (ev_time e))) else None)"
    by (simp_all add: contextEntries_def lookup_def optional_entry_def map_add_def)
qed

lemma contextEntries_no_content_type:
  assumes "valid_event e"
  shows "''datacontenttype'' \<notin> set (keys (contextEntries e))"
proof -
  have "''datacontenttype'' \<notin> set (keys (extensionEntries e))"
    by (rule reserved_not_extension [OF assms]) simp
  then show ?thesis
    unfolding contextEntries_split map_append set_append Un_iff
    by (auto simp: standardEntries_def optional_entry_def)
qed

lemma contextEntries_lower:
  assumes "valid_event e" and "p \<in> set (contextEntries e)"
  shows "list_all lower_alnum (fst p)"
proof (cases "p \<in> set (standardEntries e)")
  case True
  then show ?thesis
    by (auto simp: standardEntries_def optional_entry_def lower_alnum_def is_lower_def split: if_splits)
next
  case False
  then have "validAttributeName (fst p)"
    using assms(2) valid_eventD(7) [OF assms(1)] by (auto simp: contextEntries_split list_all_iff valid_extension_def)
  then show ?thesis by (simp add: validAttributeName_iff)
qed

lemma fold_decodeBinaryExtension:
  assumes "list_all (\<lambda>p. isReservedAttributeName (fst p) \<or> validCloudString (snd p)) ps"
  shows "fold_result (decodeBinaryExtension pre) m ps = Inr (foldl (\<lambda>m (n, v). AList.update n v m) m
    (map (\<lambda>(n, v). (n, text_attribute v)) (filter (\<lambda>p. \<not> isReservedAttributeName (fst p)) ps)))"
  using assms
  by (induction ps arbitrary: m)
    (auto simp: decodeBinaryExtension_def NewStringAttribute_def text_attribute_def)

text \<open>
  An event is rebuilt from its own context entries, in whatever order they come.
\<close>

lemma string_attr:
  assumes "valid_event e" "string_extensions e" "(n, a) \<in> set (ev_extensions e)"
  shows "a = text_attribute (attr_text a)" "validCloudString (attr_text a)"
proof -
  have k: "attr_kind a = AttributeString" using assms(2,3) by (auto simp: string_extensions_def)
  have "plain_bytes a" using valid_eventD(8) [OF assms(1)] assms(3) by (auto simp: plain_map_def list_all_iff)
  then show "a = text_attribute (attr_text a)" using k by (simp add: plain_bytes_def text_attribute_def)
  have "validAttribute a" using valid_eventD(7) [OF assms(1)] assms(3) by (auto simp: valid_extension_def list_all_iff)
  then show "validCloudString (attr_text a)" using k by (simp add: validAttribute_def)
qed

lemma text_extensionEntries:
  assumes "valid_event e" "string_extensions e"
  shows "map (\<lambda>(n, v). (n, text_attribute v)) (extensionEntries e) = ev_extensions e"
  using string_attr(1) [OF assms] by (auto simp: Attribute_String_def comp_def intro!: map_idI)

lemma decodeBinaryEvent_rebuilds:
  assumes v: "valid_event e" and x: "string_extensions e" and t: "ev_hasTime e \<longrightarrow> in_year_range (ev_time e)"
    and p: "mset decoded = mset (contextEntries e)"
  shows "\<exists>e'. decodeBinaryEvent pre decoded (ev_dataContentType e) (Inr (ev_data e)) = Inr e' \<and> same_event e e'"
proof -
  note w = contextEntries_wf [OF v]
  have m: "map_of decoded = map_of (contextEntries e)" using perm_map_of [OF w p] .
  then have l: "lookup decoded n = lookup (contextEntries e) n" for n by (simp add: lookup_def)
  let ?f = "filter (\<lambda>p. \<not> isReservedAttributeName (fst p))"
  define xs where "xs = map (\<lambda>(n, v). (n, text_attribute v)) (?f decoded)"
  have perm: "mset xs = mset (ev_extensions e)"
  proof -
    have "mset (?f decoded) = mset (?f (contextEntries e))" by (simp add: p)
    then have "mset xs = mset (map (\<lambda>(n, v). (n, text_attribute v)) (extensionEntries e))"
      unfolding xs_def filter_contextEntries [OF v] mset_map by simp
    then show ?thesis unfolding text_extensionEntries [OF v x] .
  qed
  have wx: "wf_map xs" using wf_map_mset [OF _ perm [symmetric]] valid_eventD(5) [OF v] by blast
  have "isReservedAttributeName (fst q) \<or> validCloudString (snd q)" if "q \<in> set decoded" for q
  proof -
    have "q \<in> set (contextEntries e)" using that p by (metis set_mset_mset)
    then show ?thesis
      using standardEntries_reserved string_attr(2) [OF v x]
      unfolding contextEntries_split by (fastforce simp: Attribute_String_def)
  qed
  then have ex: "fold_result (decodeBinaryExtension pre) [] decoded = Inr xs"
    using wx by (simp add: fold_decodeBinaryExtension xs_def [symmetric] foldl_update_fresh list_all_iff)
  have n: "nsec (ev_time e) < 10 ^ 9 \<and> time_utc (ev_time e) = ev_time e" if "ev_hasTime e"
    using v that by (simp add: valid_event_def event_wf_def)
  have tm: "decodeBinaryTime decoded = Inr (if ev_hasTime e then Some (ev_time e) else None)"
    using t n time_parse_format_utc [of "ev_time e"]
    by (auto simp: decodeBinaryTime_def m contextEntries_optional [OF v])
  let ?e = "e\<lparr>ev_extensions := xs\<rparr>"
  have "NewEvent (event_attributes ?e) (ev_data ?e) = Inr ?e"
    by (rule NewEvent_event_attributes) (rule valid_event_perm [OF v perm])
  then have "decodeBinaryEvent pre decoded (ev_dataContentType e) (Inr (ev_data e)) = Inr ?e"
    unfolding decodeBinaryEvent_def ex tm l contextEntries_optional [OF v] contextEntries_lookup
    by (cases "ev_hasTime e") (simp_all add: event_attributes_def)
  moreover have "same_event e ?e"
    using same_map_mset_eq [OF _ wx] perm valid_eventD(5) [OF v] by (auto simp: same_event_def)
  ultimately show ?thesis by blast
qed

text \<open>What a binary mode carries without loss, and what fits the limits on attributes and data.\<close>

definition binary_lossless :: "Event \<Rightarrow> bool" where
  "binary_lossless e \<longleftrightarrow> valid_event e \<and> binaryConversionReport e = []
     \<and> (ev_hasTime e \<longrightarrow> in_year_range (ev_time e))
     \<and> valid_utf8 (ev_dataContentType e) \<and> valid_utf8 (ev_dataSchema e)
     \<and> \<not> has_prefix (to_lower (fst (parse_media_type (ev_dataContentType e)))) ''application/cloudevents''
     \<and> \<not> (data_kind (ev_data e) = DataText \<and> isJSONMediaType (ev_dataContentType e))"

definition binary_within :: "Limits \<Rightarrow> Event \<Rightarrow> bool" where
  "binary_within l e \<longleftrightarrow>
     list_all (\<lambda>(n, v). int (length n) \<le> MaxAttributeNameBytes l \<and> int (length v) \<le> MaxAttributeValueBytes l)
       (contextEntries e)
     \<and> int (length (contextEntries e)) \<le> MaxAttributes l
     \<and> int (length (data_bytes (ev_data e))) \<le> MaxDataBytes l"

lemma binary_losslessD:
  assumes "binary_lossless e"
  shows "valid_event e" "string_extensions e" "ev_hasTime e \<longrightarrow> in_year_range (ev_time e)"
    "data_present (ev_data e) \<Longrightarrow> ev_dataContentType e \<noteq> ''''"
  using assms by (auto simp: binary_lossless_def string_extensions_def binaryConversionReport_Nil)

lemma binary_within_pos:
  assumes "binary_within l e"
  shows "0 < MaxAttributeNameBytes l" "0 < MaxAttributeValueBytes l"
  using assms by (auto simp: binary_within_def contextEntries_def Event_SpecVersion_def specVersion_def)

lemma decodeBinaryData_rebuilds:
  assumes "binary_lossless e" and "data_present (ev_data e)"
  shows "decodeBinaryData (ev_dataContentType e) (data_bytes (ev_data e)) = Inr (ev_data e)"
proof -
  have d: "data_ok (ev_data e)" using valid_eventD(6) binary_losslessD(1) [OF assms(1)] by blast
  have k: "dataKindMatchesContentType (data_kind (ev_data e)) (ev_dataContentType e)"
    "\<not> (data_kind (ev_data e) = DataText \<and> isJSONMediaType (ev_dataContentType e))"
    using assms by (auto simp: binary_lossless_def binaryConversionReport_Nil)
  then show ?thesis
    using d assms(2)
    by (cases "data_kind (ev_data e)")
      (auto simp: decodeBinaryData_def dataKindMatchesContentType_def data_ok_def NewJSONData_def NewTextData_def
        NewBinaryData_def split: if_splits)
qed

lemma contextEntries_utf8:
  assumes "binary_lossless e" and "p \<in> set (contextEntries e)"
  shows "valid_utf8 (snd p)" "is_ascii (fst p)"
proof -
  note v = binary_losslessD(1) [OF assms(1)]
  have u: "valid_utf8 (ev_dataSchema e)" using assms(1) by (simp add: binary_lossless_def)
  show "valid_utf8 (snd p)"
  proof (cases "p \<in> set (standardEntries e)")
    case True
    then show ?thesis using u valid_eventD(1-4) [OF v, THEN validCloudString_utf8]
      valid_utf8_is_ascii [OF time_format_ascii [of "ev_time e"]]
      by (auto simp: standardEntries_def optional_entry_def Event_SpecVersion_def specVersion_def valid_utf8_is_ascii split: if_splits)
  next
    case False
    then obtain n a where "(n, a) \<in> set (ev_extensions e)" "p = (n, attr_text a)"
      using assms(2) by (auto simp: contextEntries_split Attribute_String_def)
    then show ?thesis using string_attr(2) [OF v binary_losslessD(2) [OF assms(1)]] validCloudString_utf8 by auto
  qed
  show "is_ascii (fst p)"
  proof (cases "p \<in> set (standardEntries e)")
    case True
    then show ?thesis by (auto simp: standardEntries_def optional_entry_def split: if_splits)
  next
    case False
    then have "validAttributeName (fst p)"
      using assms(2) valid_eventD(7) [OF v] by (auto simp: contextEntries_split list_all_iff valid_extension_def)
    then show ?thesis by (simp add: validAttributeName_iff lower_alnum_ascii)
  qed
qed

section \<open>What the metadata of a structured message may say\<close>

text \<open>
  The attributes of an event and their canonical texts, read off its fields: the specification that the metadata of a
  structured message is compared with.
\<close>

inductive carries :: "Event \<Rightarrow> bytes \<Rightarrow> bytes \<Rightarrow> bool" for e where
  specversion: "carries e ''specversion'' ''1.0''"
| id: "carries e ''id'' (ev_id e)"
| source: "carries e ''source'' (ev_source e)"
| type: "carries e ''type'' (ev_type e)"
| datacontenttype: "ev_dataContentType e \<noteq> '''' \<Longrightarrow> carries e ''datacontenttype'' (ev_dataContentType e)"
| dataschema: "ev_dataSchema e \<noteq> '''' \<Longrightarrow> carries e ''dataschema'' (ev_dataSchema e)"
| subject: "ev_subject e \<noteq> '''' \<Longrightarrow> carries e ''subject'' (ev_subject e)"
| time: "ev_hasTime e \<Longrightarrow> carries e ''time'' (time_format (time_utc (ev_time e)))"
| extension: "map_of (ev_extensions e) name = Some attribute \<Longrightarrow> carries e name (Attribute_String attribute)"

lemma set_optional_entry: "p \<in> set (optional_entry c k x) \<longleftrightarrow> c \<and> p = (k, x)"
  by (auto simp: optional_entry_def)

lemma map_of_standard_metadata:
  "map_of ([(''specversion'', sv), (''id'', i), (''source'', s), (''type'', t)] @
      optional_entry c ''datacontenttype'' ct @ optional_entry d ''dataschema'' ds @ optional_entry b ''subject'' su @
      optional_entry h ''time'' ti) n = Some v \<longleftrightarrow>
    n = ''specversion'' \<and> v = sv \<or> n = ''id'' \<and> v = i \<or> n = ''source'' \<and> v = s \<or> n = ''type'' \<and> v = t
    \<or> c \<and> n = ''datacontenttype'' \<and> v = ct \<or> d \<and> n = ''dataschema'' \<and> v = ds
    \<or> b \<and> n = ''subject'' \<and> v = su \<or> h \<and> n = ''time'' \<and> v = ti"
  (is "map_of ?m n = Some v \<longleftrightarrow> _")
proof -
  have "distinct (keys ?m)" by (simp add: optional_entry_def)
  then show ?thesis
    by (simp only: map_of_eq_Some_iff set_append Un_iff set_optional_entry set_simps insert_iff empty_iff prod.inject
        disj_assoc simp_thms)
qed

lemma expectedMetadata_iff:
  assumes "valid_event e"
  shows "map_of (expectedMetadata e) n = Some v \<longleftrightarrow> carries e n v"
proof -
  note m = map_of_foldl_update [OF valid_eventD(5) [OF assms]]
  have r: "map_of (ev_extensions e) k = None" if "isReservedAttributeName k" for k
    using reserved_not_extension [OF assms that] unfolding keys_extensionEntries by (simp add: map_of_eq_None_iff)
  show ?thesis
  proof
    assume l: "map_of (expectedMetadata e) n = Some v"
    show "carries e n v"
    proof (cases "map_of (ev_extensions e) n")
      case None
      from l show ?thesis
        unfolding expectedMetadata_def m None option.case map_of_standard_metadata Event_SpecVersion_def specVersion_def
        by - (elim disjE conjE; hypsubst; rule carries.intros; assumption)
    next
      case (Some a)
      with l have "v = Attribute_String a" unfolding expectedMetadata_def m by simp
      then show ?thesis using carries.extension [OF Some] by simp
    qed
  next
    assume "carries e n v"
    then show "map_of (expectedMetadata e) n = Some v"
      unfolding expectedMetadata_def m
      by cases (simp_all add: r optional_entry_def Event_SpecVersion_def specVersion_def)
  qed
qed

end
