(* ===== verification/CE_Kafka.thy ===== *)
theory CE_Kafka
  imports CE_Binding
begin

text \<open>
  \<open>kafka.go\<close>: the Kafka protocol binding. A nil key or value is \<open>None\<close>, since the binding distinguishes a
  tombstone from an empty payload. The Go map from attribute names to header values is an association list
  in the order of first occurrence.
\<close>

record KafkaHeader =
  kh_Key :: bytes
  kh_Value :: "bytes option"

record KafkaRecord =
  kr_Key :: "bytes option"
  kr_Value :: "bytes option"
  kr_Headers :: "KafkaHeader list"

record KafkaMessage =
  km_Mode :: ContentMode
  km_Event :: Event
  km_Key :: "bytes option"
  km_TransportHeaders :: "KafkaHeader list"

definition kafka_header :: "bytes \<Rightarrow> bytes \<Rightarrow> KafkaHeader" where
  "kafka_header key value = \<lparr>kh_Key = key, kh_Value = Some value\<rparr>"

section \<open>Encoding\<close>

definition cloneBytesPreservingEmpty :: "bytes option \<Rightarrow> bytes" where
  "cloneBytesPreservingEmpty value = slice_bytes value"

definition cloneBytesPreservingNil :: "bytes option \<Rightarrow> bytes option" where
  "cloneBytesPreservingNil value =
     (case value of None \<Rightarrow> None | Some _ \<Rightarrow> Some (cloneBytesPreservingEmpty value))"

definition encodeKafkaBinaryHeaders :: "Event \<Rightarrow> KafkaHeader list" where
  "encodeKafkaBinaryHeaders e =
     sort_key kh_Key
       (map (\<lambda>(name, value). kafka_header (''ce_'' @ name) value) (contextEntries e) @
        (if ev_dataContentType e \<noteq> '''' then [kafka_header ''content-type'' (ev_dataContentType e)]
         else if data_present (ev_data e)
         then [kafka_header ''content-type'' (implicitDataContentType (data_kind (ev_data e)))]
         else []))"

definition EncodeKafkaWithReport ::
    "Event \<Rightarrow> ContentMode \<Rightarrow> bytes option \<Rightarrow> (KafkaRecord \<times> report) result" where
  "EncodeKafkaWithReport e mode key =
     (case mode of
        BinaryMode \<Rightarrow>
          and_then (Event_Validate e) (\<lambda>_.
            Inr (\<lparr>kr_Key = cloneBytesPreservingNil key,
                  kr_Value = (if data_present (ev_data e)
                    then Some (cloneBytesPreservingEmpty (Some (data_bytes (ev_data e)))) else None),
                  kr_Headers = encodeKafkaBinaryHeaders e\<rparr>, binaryConversionReport e))
      | StructuredMode \<Rightarrow>
          and_then (EncodeJSONWithReport e) (\<lambda>(value, report).
            Inr (\<lparr>kr_Key = cloneBytesPreservingNil key, kr_Value = Some value,
                  kr_Headers = [kafka_header ''content-type'' JSONMediaType]\<rparr>, report))
      | _ \<Rightarrow> Inl (Sentinel ErrUnsupportedMode))"

definition EncodeKafka :: "Event \<Rightarrow> ContentMode \<Rightarrow> bytes option \<Rightarrow> KafkaRecord result" where
  "EncodeKafka e mode key =
     and_then (EncodeKafkaWithReport e mode key) (\<lambda>(rec, report).
       and_then (rejectConversionLoss report) (\<lambda>_. Inr rec))"

definition KafkaPartitionKey :: "Event \<Rightarrow> bytes option" where
  "KafkaPartitionKey e =
     (case map_of (ev_extensions e) ''partitionkey'' of
        None \<Rightarrow> None
      | Some attribute \<Rightarrow>
          if attr_kind attribute \<noteq> AttributeString \<or> attr_text attribute = '''' then None
          else Some (attr_text attribute))"

section \<open>Decoding\<close>

type_synonym header_map = "(bytes, bytes option list) gomap"

text \<open>The state of the loop over the headers: content types, owned headers, transport headers.\<close>

record kafka_scan =
  ks_contentTypes :: "bytes option list"
  ks_cloudEventHeaders :: header_map
  ks_transportHeaders :: "KafkaHeader list"

definition kafka_scan_start :: kafka_scan where
  "kafka_scan_start = \<lparr>ks_contentTypes = [], ks_cloudEventHeaders = [], ks_transportHeaders = []\<rparr>"

definition append_value :: "bytes \<Rightarrow> bytes option \<Rightarrow> header_map \<Rightarrow> header_map" where
  "append_value name value m =
     AList.update name ((case map_of m name of None \<Rightarrow> [] | Some vs \<Rightarrow> vs) @ [value]) m"

definition scanKafkaHeader :: "Limits \<Rightarrow> kafka_scan \<Rightarrow> KafkaHeader \<Rightarrow> kafka_scan result" where
  "scanKafkaHeader limits s header =
     (if int (length (kh_Key header)) > MaxKafkaHeaderNameBytes limits
         \<or> int (length (slice_bytes (kh_Value header))) > MaxKafkaHeaderValueBytes limits
      then Inl (Sentinel ErrLimitExceeded)
      else if \<not> valid_utf8 (kh_Key header) then Inl (Errorf ErrInvalidEvent ''kafka header name'')
      else if kh_Key header = ''content-type''
      then Inr (s\<lparr>ks_contentTypes := ks_contentTypes s @ [kh_Value header]\<rparr>)
      else if has_prefix (kh_Key header) ''ce_''
      then Inr (s\<lparr>ks_cloudEventHeaders :=
             append_value (trim_prefix (kh_Key header) ''ce_'') (kh_Value header) (ks_cloudEventHeaders s)\<rparr>)
      else Inr (s\<lparr>ks_transportHeaders := ks_transportHeaders s @
             [\<lparr>kh_Key = kh_Key header, kh_Value = cloneBytesPreservingNil (kh_Value header)\<rparr>]\<rparr>))"

definition detectKafkaMode :: "bytes option list \<Rightarrow> (ContentMode \<times> bytes) result" where
  "detectKafkaMode contentTypes =
     (if length contentTypes > 1 then Inl (Errorf ErrInvalidEvent ''duplicate content-type'')
      else case contentTypes of
          [] \<Rightarrow> Inr (BinaryMode, '''')
        | value # _ \<Rightarrow>
            if \<not> valid_utf8 (slice_bytes value) then Inl (Errorf ErrInvalidEvent ''content-type'')
            else let (mediaType, ok) = parse_media_type (slice_bytes value) in
              if \<not> ok then Inl (Errorf ErrInvalidEvent ''content-type'')
              else if to_lower mediaType = JSONMediaType then Inr (StructuredMode, slice_bytes value)
              else if has_prefix (to_lower mediaType) ''application/cloudevents''
              then Inl (Sentinel ErrUnsupportedMode)
              else Inr (BinaryMode, slice_bytes value))"

text \<open>The checks of one owned header that the two modes share.\<close>

definition kafkaHeaderValue :: "Limits \<Rightarrow> bytes \<Rightarrow> bytes option list \<Rightarrow> bytes result" where
  "kafkaHeaderValue limits name values =
     (if MaxAttributeNameBytes limits \<le> 0 \<or> int (length name) > MaxAttributeNameBytes limits
      then Inl (Sentinel ErrLimitExceeded)
      else if length values \<noteq> 1 then Inl (Errorf ErrInvalidEvent (''duplicate ce_'' @ name))
      else if MaxAttributeValueBytes limits \<le> 0
           \<or> int (length (slice_bytes (hd values))) > MaxAttributeValueBytes limits
      then Inl (Sentinel ErrLimitExceeded)
      else if \<not> valid_utf8 (slice_bytes (hd values)) then Inl (Errorf ErrInvalidEvent (''ce_'' @ name))
      else Inr (slice_bytes (hd values)))"

definition checkStructuredKafkaHeader ::
    "Limits \<Rightarrow> (bytes, bytes) gomap \<Rightarrow> unit \<Rightarrow> bytes \<times> bytes option list \<Rightarrow> unit result" where
  "checkStructuredKafkaHeader limits expected u entry =
     (case entry of (name, values) \<Rightarrow>
        and_then (kafkaHeaderValue limits name values) (\<lambda>value.
          case map_of expected name of
            None \<Rightarrow> Inl (Errorf ErrInvalidEvent (''conflicting ce_'' @ name))
          | Some want \<Rightarrow>
              if value \<noteq> want then Inl (Errorf ErrInvalidEvent (''conflicting ce_'' @ name)) else Inr ()))"

definition validateStructuredKafkaMetadata :: "header_map \<Rightarrow> Event \<Rightarrow> Limits \<Rightarrow> unit result" where
  "validateStructuredKafkaMetadata headers e limits =
     (if int (length headers) > MaxAttributes limits then Inl (Sentinel ErrLimitExceeded)
      else fold_result (checkStructuredKafkaHeader limits (expectedMetadata e)) () headers)"

definition decodeKafkaHeader ::
    "Limits \<Rightarrow> (bytes, bytes) gomap \<Rightarrow> bytes \<times> bytes option list \<Rightarrow> (bytes, bytes) gomap result" where
  "decodeKafkaHeader limits decoded entry =
     (case entry of (name, values) \<Rightarrow>
        and_then (kafkaHeaderValue limits name values) (\<lambda>value. Inr (AList.update name value decoded)))"

definition decodeKafkaData :: "bytes option \<Rightarrow> bytes \<Rightarrow> Limits \<Rightarrow> Data result" where
  "decodeKafkaData value contentType limits =
     (case value of
        None \<Rightarrow> Inr zero_data
      | Some v \<Rightarrow>
          if int (length v) > MaxDataBytes limits then Inl (Sentinel ErrLimitExceeded)
          else decodeBinaryData contentType v)"

definition decodeKafkaBinary :: "bytes option \<Rightarrow> bytes \<Rightarrow> header_map \<Rightarrow> Limits \<Rightarrow> Event result" where
  "decodeKafkaBinary value contentType headers limits =
     (if map_of headers ''datacontenttype'' \<noteq> None then Inl (Errorf ErrInvalidEvent ''ce_datacontenttype'')
      else if int (length headers) > MaxAttributes limits then Inl (Sentinel ErrLimitExceeded)
      else and_then (fold_result (decodeKafkaHeader limits) [] headers) (\<lambda>decoded.
        decodeBinaryEvent ''ce_'' decoded contentType (decodeKafkaData value contentType limits)))"

definition decodeKafkaStructured :: "bytes option \<Rightarrow> header_map \<Rightarrow> Limits \<Rightarrow> Event result" where
  "decodeKafkaStructured value headers limits =
     (case value of
        None \<Rightarrow> Inl (Errorf ErrInvalidEvent ''structured value'')
      | Some v \<Rightarrow>
          if int (length v) > MaxEventBytes limits then Inl (Sentinel ErrLimitExceeded)
          else and_then (DecodeJSON v limits) (\<lambda>e.
            and_then (validateStructuredKafkaMetadata headers e limits) (\<lambda>_. Inr e)))"

definition kafkaAdmission :: "KafkaRecord \<Rightarrow> Limits \<Rightarrow> bool" where
  "kafkaAdmission rec limits \<longleftrightarrow>
     \<not> (MaxEventBytes limits \<le> 0 \<or> MaxDataBytes limits \<le> 0 \<or> MaxKafkaKeyBytes limits \<le> 0
        \<or> int (length (slice_bytes (kr_Key rec))) > MaxKafkaKeyBytes limits
        \<or> MaxKafkaHeaders limits \<le> 0 \<or> int (length (kr_Headers rec)) > MaxKafkaHeaders limits
        \<or> MaxKafkaHeaderNameBytes limits \<le> 0 \<or> MaxKafkaHeaderValueBytes limits \<le> 0)"

definition DecodeKafka :: "KafkaRecord \<Rightarrow> Limits \<Rightarrow> KafkaMessage result" where
  "DecodeKafka rec limits =
     (if \<not> kafkaAdmission rec limits then Inl (Sentinel ErrLimitExceeded)
      else and_then (fold_result (scanKafkaHeader limits) kafka_scan_start (kr_Headers rec)) (\<lambda>s.
        and_then (detectKafkaMode (ks_contentTypes s)) (\<lambda>(mode, contentType).
        and_then (if mode = StructuredMode
                  then decodeKafkaStructured (kr_Value rec) (ks_cloudEventHeaders s) limits
                  else decodeKafkaBinary (kr_Value rec) contentType (ks_cloudEventHeaders s) limits) (\<lambda>e.
        Inr \<lparr>km_Mode = mode, km_Event = e, km_Key = cloneBytesPreservingNil (kr_Key rec),
             km_TransportHeaders = ks_transportHeaders s\<rparr>))))"

lemmas kafka_eval [eval_defs] =
  kafka_header_def cloneBytesPreservingEmpty_def cloneBytesPreservingNil_def encodeKafkaBinaryHeaders_def
  EncodeKafkaWithReport_def EncodeKafka_def KafkaPartitionKey_def kafka_scan_start_def append_value_def
  scanKafkaHeader_def detectKafkaMode_def kafkaHeaderValue_def checkStructuredKafkaHeader_def
  validateStructuredKafkaMetadata_def decodeKafkaHeader_def decodeKafkaData_def decodeKafkaBinary_def
  decodeKafkaStructured_def kafkaAdmission_def DecodeKafka_def contextEntries_def optional_entry_def
  expectedMetadata_def lookup_def decodeBinaryTime_def decodeBinaryExtension_def decodeBinaryData_def
  decodeBinaryEvent_def

section \<open>Decoded records are admitted\<close>

lemma kafkaHeaderValue_yields:
  "yields decode_error (\<lambda>v. int (length name) \<le> MaxAttributeNameBytes l \<and> int (length v) \<le> MaxAttributeValueBytes l)
     (kafkaHeaderValue l name vs)"
  by (auto simp: kafkaHeaderValue_def)

lemma decodeKafkaHeader_yields:
  assumes "values_within l m"
  shows "yields decode_error (values_within l) (decodeKafkaHeader l m p)"
  using assms unfolding decodeKafkaHeader_def
  by (auto intro!: yields_and_then [OF kafkaHeaderValue_yields] values_within_update split: prod.split)

lemma decodeKafkaHeader_length:
  "decodeKafkaHeader l m p = Inr m' \<Longrightarrow> length m' \<le> Suc (length m)"
  by (auto simp: decodeKafkaHeader_def length_update split: prod.splits)

lemma decodeKafkaHeaders_length:
  "fold_result (decodeKafkaHeader l) m headers = Inr m' \<Longrightarrow> length m' \<le> length m + length headers"
  by (induction headers arbitrary: m) (auto dest: decodeKafkaHeader_length, fastforce dest: decodeKafkaHeader_length)

lemma decodeKafkaBinary_yields: "yields decode_error (admitted l) (decodeKafkaBinary value ct headers l)"
proof -
  have h: "yields decode_error (values_within l) (fold_result (decodeKafkaHeader l) [] headers)"
    by (rule yields_fold_result) (auto intro: decodeKafkaHeader_yields)
  have d: "yields decode_error (data_within l) (decodeKafkaData value ct l)"
    by (auto simp: decodeKafkaData_def data_within_def zero_data_def data_ok_def intro!: decodeBinaryData_yields split: option.split)
  show ?thesis
    unfolding decodeKafkaBinary_def
    by (auto intro!: yields_and_then [OF h] decodeBinaryEvent_yields d dest: decodeKafkaHeaders_length)
qed

lemma scanKafkaHeader_yields: "yields binding_error (\<lambda>_. True) (scanKafkaHeader l s h)"
  by (simp add: scanKafkaHeader_def)

lemma detectKafkaMode_yields: "yields binding_error (\<lambda>_. True) (detectKafkaMode cts)"
  by (auto simp: detectKafkaMode_def split: list.split prod.split)

lemma validateStructuredKafkaMetadata_yields:
  "yields decode_error (\<lambda>_. True) (validateStructuredKafkaMetadata headers e l)"
  unfolding validateStructuredKafkaMetadata_def checkStructuredKafkaHeader_def
  by (auto intro!: fold_unit_yields yields_and_then [OF kafkaHeaderValue_yields] split: prod.split option.split)

lemma decodeKafkaStructured_yields: "yields decode_error (admitted l) (decodeKafkaStructured v headers l)"
proof -
  have j: "yields decode_error (admitted l) (DecodeJSON w l)" for w
    by (rule yields_mono [OF DecodeJSON_yields]) auto
  show ?thesis
    unfolding decodeKafkaStructured_def
    by (auto intro!: yields_and_then [OF j] yields_and_then [OF validateStructuredKafkaMetadata_yields] split: option.split)
qed

lemma DecodeKafka_yields: "yields binding_error (\<lambda>m. admitted l (km_Event m)) (DecodeKafka rec l)"
proof -
  have s: "yields binding_error (\<lambda>_. True) (fold_result (scanKafkaHeader l) kafka_scan_start (kr_Headers rec))"
    by (rule fold_unit_yields) (rule scanKafkaHeader_yields)
  have e: "yields binding_error (admitted l) (if b then decodeKafkaStructured v hs l else decodeKafkaBinary v ct hs l)" for b v hs ct
    by (simp add: yields_binding decodeKafkaStructured_yields decodeKafkaBinary_yields)
  show ?thesis
    unfolding DecodeKafka_def
    by (auto intro!: yields_and_then [OF s] yields_and_then [OF detectKafkaMode_yields] yields_and_then [OF e])
qed

section \<open>Binary records round trip\<close>

definition header_admitted :: "Limits \<Rightarrow> KafkaHeader \<Rightarrow> bool" where
  "header_admitted l h \<longleftrightarrow> int (length (kh_Key h)) \<le> MaxKafkaHeaderNameBytes l
     \<and> int (length (slice_bytes (kh_Value h))) \<le> MaxKafkaHeaderValueBytes l \<and> valid_utf8 (kh_Key h)"

abbreviation content_type_header :: "KafkaHeader \<Rightarrow> bool" where
  "content_type_header h \<equiv> kh_Key h = ''content-type''"

definition ce_header :: "KafkaHeader \<Rightarrow> bool" where
  "ce_header h \<longleftrightarrow> has_prefix (kh_Key h) ''ce_''"

abbreviation transport_header :: "KafkaHeader \<Rightarrow> bool" where
  "transport_header h \<equiv> \<not> content_type_header h \<and> \<not> ce_header h"

definition ce_entry :: "KafkaHeader \<Rightarrow> bytes \<times> bytes option" where
  "ce_entry h = (trim_prefix (kh_Key h) ''ce_'', kh_Value h)"

definition group_values :: "header_map \<Rightarrow> (bytes \<times> bytes option) list \<Rightarrow> header_map" where
  "group_values m ps = foldl (\<lambda>m (n, v). append_value n v m) m ps"

lemma clone_id [simp]: "cloneBytesPreservingNil v = v"
  by (simp add: cloneBytesPreservingNil_def cloneBytesPreservingEmpty_def slice_bytes_def split: option.split)

lemma content_type_not_ce: "content_type_header h \<Longrightarrow> \<not> ce_header h"
  by (simp add: ce_header_def has_prefix_def)

lemma scan_headers:
  "list_all (header_admitted l) hs \<Longrightarrow> fold_result (scanKafkaHeader l) s hs = Inr
     \<lparr>ks_contentTypes = ks_contentTypes s @ map kh_Value (filter content_type_header hs),
      ks_cloudEventHeaders = group_values (ks_cloudEventHeaders s) (map ce_entry (filter ce_header hs)),
      ks_transportHeaders = ks_transportHeaders s @ filter transport_header hs\<rparr>"
proof (induction hs arbitrary: s)
  case (Cons h hs)
  have "scanKafkaHeader l s h = Inr
     \<lparr>ks_contentTypes = ks_contentTypes s @ map kh_Value (filter content_type_header [h]),
      ks_cloudEventHeaders = group_values (ks_cloudEventHeaders s) (map ce_entry (filter ce_header [h])),
      ks_transportHeaders = ks_transportHeaders s @ filter transport_header [h]\<rparr>"
    using Cons.prems content_type_not_ce [of h]
    by (auto simp: scanKafkaHeader_def header_admitted_def ce_header_def ce_entry_def group_values_def)
  then show ?case using Cons by (simp add: group_values_def content_type_not_ce)
qed (simp add: group_values_def)

lemma group_values_fresh:
  assumes "wf_map m" "distinct (map fst ps)" "set (map fst ps) \<inter> set (keys m) = {}"
  shows "group_values m ps = m @ map (\<lambda>(n, v). (n, [v])) ps"
  using assms
proof (induction ps arbitrary: m)
  case (Cons p ps)
  obtain n v where p: "p = (n, v)" by fastforce
  have f: "n \<notin> set (keys m)" using Cons.prems(3) p by simp
  then have "append_value n v m = m @ [(n, [v])]"
    by (simp add: append_value_def update_fresh map_of_None_iff [THEN iffD2])
  moreover have "wf_map (m @ [(n, [v])])" using Cons.prems(1) f by (simp add: wf_map_def)
  ultimately show ?case using Cons.IH [of "m @ [(n, [v])]"] Cons.prems p
    by (simp add: group_values_def)
qed (simp add: group_values_def)

lemma kafka_header_key: "kh_Key (kafka_header k v) = k" "kh_Value (kafka_header k v) = Some v"
  by (simp_all add: kafka_header_def)

definition ce_headers :: "(bytes \<times> bytes) list \<Rightarrow> KafkaHeader list" where
  "ce_headers ps = map (\<lambda>(name, value). kafka_header (''ce_'' @ name) value) ps"

lemma sort_ce_headers: "sort_key kh_Key (ce_headers ps) = ce_headers (sort_key fst ps)"
proof -
  have "sort_key (\<lambda>p. kh_Key (case p of (name, value) \<Rightarrow> kafka_header (''ce_'' @ name) value)) ps = sort_key fst ps"
    by (rule sort_key_mono_cong) (simp add: case_prod_beta kafka_header_key append_le_iff del: append_Cons)
  then show ?thesis by (simp add: ce_headers_def sort_key_map)
qed

lemma ce_headers_props:
  "h \<in> set (ce_headers ps) \<Longrightarrow> ce_header h \<and> \<not> content_type_header h"
  "map ce_entry (ce_headers ps) = map (\<lambda>(n, v). (n, Some v)) ps"
  by (auto simp: ce_headers_def ce_header_def kafka_header_key has_prefix_def ce_entry_def trim_prefix_def)

definition ct_headers :: "bytes option \<Rightarrow> KafkaHeader list" where
  "ct_headers ct = (case ct of None \<Rightarrow> [] | Some v \<Rightarrow> [kafka_header ''content-type'' v])"

lemma ct_headers_props: "h \<in> set (ct_headers ct) \<Longrightarrow> content_type_header h \<and> \<not> ce_header h"
  by (auto simp: ct_headers_def ce_header_def kafka_header_key has_prefix_def split: option.splits)

lemma sorted_headers_parts:
  fixes ps ct
  defines "hs \<equiv> sort_key kh_Key (ce_headers ps @ ct_headers ct)"
  shows "map kh_Value (filter content_type_header hs) = (case ct of None \<Rightarrow> [] | Some v \<Rightarrow> [Some v])"
    "map ce_entry (filter ce_header hs) = map (\<lambda>(n, v). (n, Some v)) (sort_key fst ps)"
    "filter transport_header hs = []"
proof -
  have c: "filter content_type_header (ce_headers ps @ ct_headers ct) = ct_headers ct"
    "filter ce_header (ce_headers ps @ ct_headers ct) = ce_headers ps"
    "filter transport_header (ce_headers ps @ ct_headers ct) = []"
    using ce_headers_props(1) [of _ ps] ct_headers_props [of _ ct]
    by (auto simp: filter_empty_conv intro!: filter_True)
  show "map kh_Value (filter content_type_header hs) = (case ct of None \<Rightarrow> [] | Some v \<Rightarrow> [Some v])"
    unfolding hs_def filter_sort c(1) by (simp add: ct_headers_def kafka_header_key split: option.split)
  show "map ce_entry (filter ce_header hs) = map (\<lambda>(n, v). (n, Some v)) (sort_key fst ps)"
    unfolding hs_def filter_sort c(2) sort_ce_headers ce_headers_props(2) ..
  show "filter transport_header hs = []"
    unfolding hs_def filter_sort c(3) by simp
qed

lemma decode_header_values:
  assumes "distinct (map fst ps)" "set (map fst ps) \<inter> set (keys m) = {}"
    and "0 < MaxAttributeNameBytes l" "0 < MaxAttributeValueBytes l"
    and "list_all (\<lambda>(n, v). int (length n) \<le> MaxAttributeNameBytes l \<and> int (length v) \<le> MaxAttributeValueBytes l
       \<and> valid_utf8 v) ps"
  shows "fold_result (decodeKafkaHeader l) m (map (\<lambda>(n, v). (n, [Some v])) ps) = Inr (m @ ps)"
  using assms
proof (induction ps arbitrary: m)
  case (Cons p ps)
  obtain n v where p: "p = (n, v)" by fastforce
  have "decodeKafkaHeader l m (n, [Some v]) = Inr (m @ [(n, v)])"
    using Cons.prems p by (simp add: decodeKafkaHeader_def kafkaHeaderValue_def slice_bytes_def update_fresh)
  then show ?case using Cons.IH [of "m @ [(n, v)]"] Cons.prems p by simp
qed simp

lemma encodeKafkaBinaryHeaders_split:
  assumes "binary_lossless e"
  shows "encodeKafkaBinaryHeaders e = sort_key kh_Key (ce_headers (contextEntries e)
    @ ct_headers (if ev_dataContentType e = '''' then None else Some (ev_dataContentType e)))"
  using binary_losslessD(4) [OF assms]
  by (auto simp: encodeKafkaBinaryHeaders_def ce_headers_def ct_headers_def)

lemma detectKafkaMode_binary:
  assumes "binary_lossless e"
  shows "detectKafkaMode (case (if ev_dataContentType e = '''' then None else Some (ev_dataContentType e)) of
      None \<Rightarrow> [] | Some v \<Rightarrow> [Some v]) = Inr (BinaryMode, ev_dataContentType e)"
proof -
  have ok: "ev_dataContentType e \<noteq> '''' \<Longrightarrow> snd (parse_media_type (ev_dataContentType e))"
    using binary_losslessD(1) [OF assms] by (simp add: valid_event_def valid_context_def event_attributes_def)
  have n: "\<not> has_prefix (to_lower (fst (parse_media_type (ev_dataContentType e)))) ''application/cloudevents''"
    and u: "valid_utf8 (ev_dataContentType e)"
    using assms by (simp_all add: binary_lossless_def)
  have "has_prefix JSONMediaType ''application/cloudevents''" by (simp add: JSONMediaType_def has_prefix_def)
  then have "to_lower (fst (parse_media_type (ev_dataContentType e))) \<noteq> JSONMediaType" using n by auto
  then show ?thesis
    using ok n u
    by (cases "ev_dataContentType e = ''''") (auto simp: detectKafkaMode_def slice_bytes_def split: prod.split)
qed

lemma decodeKafkaBinary_rebuilds:
  assumes b: "binary_lossless e" and w: "binary_within l e" and p: "mset ps = mset (contextEntries e)"
  shows "decodeKafkaBinary (if data_present (ev_data e) then Some (data_bytes (ev_data e)) else None)
      (ev_dataContentType e) (map (\<lambda>(n, v). (n, [Some v])) ps) l
    = decodeBinaryEvent ''ce_'' ps (ev_dataContentType e) (Inr (ev_data e))"
proof -
  note v = binary_losslessD(1) [OF b]
  have s: "set ps = set (contextEntries e)" "length ps = length (contextEntries e)"
    using p by (metis set_mset_mset, metis size_mset)
  have d: "distinct (map fst ps)"
    using contextEntries_wf [OF v] wf_map_mset [of "contextEntries e" ps] p by (simp add: wf_map_def)
  have "''datacontenttype'' \<notin> set (map fst ps)"
    using contextEntries_no_content_type [OF v] s(1) by simp
  then have c: "map_of (map (\<lambda>(n, v). (n, [Some v])) ps) ''datacontenttype'' = None"
    unfolding map_of_None_iff by (simp add: comp_def case_prod_beta)
  have h: "fold_result (decodeKafkaHeader l) [] (map (\<lambda>(n, v). (n, [Some v])) ps) = Inr ps"
    using decode_header_values [OF d, of "[]" l] binary_within_pos [OF w] w contextEntries_utf8(1) [OF b] s(1)
    by (fastforce simp: binary_within_def list_all_iff)
  have "decodeKafkaData (if data_present (ev_data e) then Some (data_bytes (ev_data e)) else None)
      (ev_dataContentType e) l = Inr (ev_data e)"
    using w decodeBinaryData_rebuilds [OF b] absent_data [OF valid_eventD(6) [OF v]]
    by (auto simp: decodeKafkaData_def binary_within_def)
  then show ?thesis using c h w s(2) by (simp add: decodeKafkaBinary_def binary_within_def)
qed

definition kafka_fits :: "Limits \<Rightarrow> bytes option \<Rightarrow> Event \<Rightarrow> bool" where
  "kafka_fits l key e \<longleftrightarrow> binary_lossless e \<and> binary_within l e
     \<and> list_all (header_admitted l) (encodeKafkaBinaryHeaders e)
     \<and> 0 < MaxEventBytes l \<and> 0 < MaxDataBytes l \<and> 0 < MaxKafkaKeyBytes l
     \<and> int (length (slice_bytes key)) \<le> MaxKafkaKeyBytes l
     \<and> 0 < MaxKafkaHeaders l \<and> int (length (encodeKafkaBinaryHeaders e)) \<le> MaxKafkaHeaders l
     \<and> 0 < MaxKafkaHeaderNameBytes l \<and> 0 < MaxKafkaHeaderValueBytes l"

lemma kafka_binary_roundtrip:
  assumes "kafka_fits l key e"
  obtains rec e' where "EncodeKafka e BinaryMode key = Inr rec"
    "DecodeKafka rec l = Inr \<lparr>km_Mode = BinaryMode, km_Event = e', km_Key = key, km_TransportHeaders = []\<rparr>"
    "same_event e e'"
proof -
  have b: "binary_lossless e" and w: "binary_within l e" using assms by (simp_all add: kafka_fits_def)
  note v = binary_losslessD(1) [OF b] and pos = binary_within_pos [OF w]
  let ?payload = "if data_present (ev_data e) then Some (data_bytes (ev_data e)) else None"
  let ?rec = "\<lparr>kr_Key = key, kr_Value = ?payload, kr_Headers = encodeKafkaBinaryHeaders e\<rparr>"
  let ?ps = "sort_key fst (contextEntries e)"
  have enc: "EncodeKafka e BinaryMode key = Inr ?rec"
    using v b by (auto simp: EncodeKafka_def EncodeKafkaWithReport_def binary_lossless_def cloneBytesPreservingEmpty_def slice_bytes_def)
  have d: "distinct (map fst ?ps)"
    using contextEntries_wf [OF v] wf_map_mset [of "contextEntries e" ?ps] by (simp add: wf_map_def)
  have scan: "fold_result (scanKafkaHeader l) kafka_scan_start (encodeKafkaBinaryHeaders e) = Inr
      \<lparr>ks_contentTypes = (case (if ev_dataContentType e = '''' then None else Some (ev_dataContentType e)) of
         None \<Rightarrow> [] | Some v \<Rightarrow> [Some v]),
       ks_cloudEventHeaders = map (\<lambda>(n, v). (n, [Some v])) ?ps, ks_transportHeaders = []\<rparr>"
  proof -
    have "list_all (header_admitted l) (encodeKafkaBinaryHeaders e)" using assms by (simp add: kafka_fits_def)
    from scan_headers [OF this, of kafka_scan_start] show ?thesis
      unfolding encodeKafkaBinaryHeaders_split [OF b] sorted_headers_parts
      using group_values_fresh [of "[]" "map (\<lambda>(n, v). (n, Some v)) ?ps"] d
      by (simp add: kafka_scan_start_def comp_def case_prod_beta)
  qed
  have dec: "decodeKafkaBinary ?payload (ev_dataContentType e) (map (\<lambda>(n, v). (n, [Some v])) ?ps) l
      = decodeBinaryEvent ''ce_'' ?ps (ev_dataContentType e) (Inr (ev_data e))"
    by (rule decodeKafkaBinary_rebuilds [OF b w]) simp
  obtain e' where e': "decodeBinaryEvent ''ce_'' ?ps (ev_dataContentType e) (Inr (ev_data e)) = Inr e'" "same_event e e'"
    using decodeBinaryEvent_rebuilds [OF v binary_losslessD(2,3) [OF b], of ?ps] by auto
  have "DecodeKafka ?rec l = Inr \<lparr>km_Mode = BinaryMode, km_Event = e', km_Key = key, km_TransportHeaders = []\<rparr>"
    using assms scan dec e'(1) detectKafkaMode_binary [OF b]
    by (simp add: DecodeKafka_def kafkaAdmission_def kafka_fits_def)
  then show ?thesis using that enc e'(2) by blast
qed

section \<open>Headers of a decoded record\<close>

lemma cloneBytesPreservingNil_id [simp]: "cloneBytesPreservingNil v = v"
  by (cases v) (simp_all add: cloneBytesPreservingNil_def cloneBytesPreservingEmpty_def slice_bytes_def)

lemma map_of_group_values:
  "map_of (group_values m ps) n =
     (let vs = map snd (filter (\<lambda>p. fst p = n) ps) in
      case map_of m n of Some us \<Rightarrow> Some (us @ vs) | None \<Rightarrow> if vs = [] then None else Some vs)"
  unfolding group_values_def
  by (induction ps arbitrary: m) (auto simp: append_value_def Let_def split: option.splits if_splits)

lemma scanned_headers:
  assumes "fold_result (scanKafkaHeader l) s hs = Inr s'"
  shows "list_all (header_admitted l) hs"
proof -
  have "header_admitted l h" if "h \<in> set hs" for h
    using fold_result_step [OF assms that]
    by (auto simp: scanKafkaHeader_def header_admitted_def split: if_splits)
  then show ?thesis by (simp add: list_all_iff)
qed

lemma DecodeKafka_Inr:
  assumes "DecodeKafka rec l = Inr m"
  defines "headers \<equiv> group_values [] (map ce_entry (filter ce_header (kr_Headers rec)))"
  shows "km_Key m = kr_Key rec" "km_TransportHeaders m = filter transport_header (kr_Headers rec)"
    "km_Mode m = StructuredMode \<Longrightarrow> decodeKafkaStructured (kr_Value rec) headers l = Inr (km_Event m)"
proof -
  from assms(1) obtain s where s: "fold_result (scanKafkaHeader l) kafka_scan_start (kr_Headers rec) = Inr s"
    by (auto simp: DecodeKafka_def split: if_splits)
  note h = scan_headers [OF scanned_headers [OF s], of kafka_scan_start]
  show "km_Key m = kr_Key rec" "km_TransportHeaders m = filter transport_header (kr_Headers rec)"
    using assms(1) h by (auto simp: DecodeKafka_def kafka_scan_start_def split: if_splits)
  show "decodeKafkaStructured (kr_Value rec) headers l = Inr (km_Event m)" if "km_Mode m = StructuredMode"
    using assms(1) h that unfolding headers_def by (auto simp: DecodeKafka_def kafka_scan_start_def split: if_splits)
qed

lemma group_entries:
  "map snd (filter (\<lambda>p. fst p = n) (map ce_entry (filter ce_header hs)))
    = map kh_Value (filter (\<lambda>g. ce_header g \<and> trim_prefix (kh_Key g) ''ce_'' = n) hs)"
  by (induction hs) (auto simp: ce_entry_def)

lemma structured_header_agrees:
  assumes "DecodeKafka rec l = Inr m" "km_Mode m = StructuredMode" "h \<in> set (kr_Headers rec)" "ce_header h"
  shows "carries (km_Event m) (trim_prefix (kh_Key h) ''ce_'') (slice_bytes (kh_Value h))
    \<and> filter (\<lambda>g. ce_header g \<and> trim_prefix (kh_Key g) ''ce_'' = trim_prefix (kh_Key h) ''ce_'') (kr_Headers rec) = [h]"
proof -
  let ?n = "trim_prefix (kh_Key h) ''ce_''"
  let ?g = "filter (\<lambda>g. ce_header g \<and> trim_prefix (kh_Key g) ''ce_'' = ?n) (kr_Headers rec)"
  let ?hs = "group_values [] (map ce_entry (filter ce_header (kr_Headers rec)))"
  have g: "h \<in> set ?g" using assms(3,4) by simp
  have "map snd (filter (\<lambda>p. fst p = ?n) (map ce_entry (filter ce_header (kr_Headers rec)))) = map kh_Value ?g"
    by (rule group_entries)
  then have look: "map_of ?hs ?n = Some (map kh_Value ?g)"
    using g by (auto simp: map_of_group_values Let_def filter_empty_conv)
  then have "(?n, map kh_Value ?g) \<in> set ?hs" by (rule map_of_SomeD)
  moreover from DecodeKafka_Inr(3) [OF assms(1,2)] obtain u where
    "fold_result (checkStructuredKafkaHeader l (expectedMetadata (km_Event m))) () ?hs = Inr u"
    by (auto simp: decodeKafkaStructured_def validateStructuredKafkaMetadata_def split: option.splits if_splits)
  ultimately have "\<exists>u. checkStructuredKafkaHeader l (expectedMetadata (km_Event m)) () (?n, map kh_Value ?g) = Inr u"
    using fold_result_step by fastforce
  then have k: "length ?g = 1" "map_of (expectedMetadata (km_Event m)) ?n = Some (slice_bytes (hd (map kh_Value ?g)))"
    by (auto simp: checkStructuredKafkaHeader_def kafkaHeaderValue_def split: if_splits option.splits)
  then have "?g = [h]" using g by (cases ?g) auto
  moreover have "valid_event (km_Event m)"
    using DecodeKafka_yields [of l rec] assms(1) by (simp add: admitted_def)
  ultimately show ?thesis using k(2) expectedMetadata_iff by simp
qed

lemma encodeKafkaBinaryHeaders_perm:
  assumes "valid_event e" and "mset xs = mset (ev_extensions e)"
  shows "encodeKafkaBinaryHeaders (e\<lparr>ev_extensions := xs\<rparr>) = encodeKafkaBinaryHeaders e"
proof -
  let ?ct = "if ev_dataContentType e \<noteq> '''' then Some (ev_dataContentType e)
    else if data_present (ev_data e) then Some (implicitDataContentType (data_kind (ev_data e))) else None"
  have h: "encodeKafkaBinaryHeaders (e\<lparr>ev_extensions := ys\<rparr>)
      = sort_key kh_Key (ce_headers (contextEntries (e\<lparr>ev_extensions := ys\<rparr>)) @ ct_headers ?ct)" for ys
    by (auto simp: encodeKafkaBinaryHeaders_def ce_headers_def ct_headers_def)
  have "distinct (map kh_Key (ce_headers (contextEntries e) @ ct_headers ?ct))"
  proof -
    have "map kh_Key (ce_headers (contextEntries e)) = map ((@) ''ce_'') (keys (contextEntries e))"
      by (simp add: ce_headers_def kafka_header_key case_prod_beta)
    moreover have "distinct (map ((@) ''ce_'') (keys (contextEntries e)))"
      using contextEntries_wf [OF assms(1)] by (simp add: wf_map_def distinct_map inj_on_def)
    moreover have "distinct (map kh_Key (ct_headers ?ct))" by (simp add: ct_headers_def)
    moreover have "set (map kh_Key (ce_headers (contextEntries e))) \<inter> set (map kh_Key (ct_headers ?ct)) = {}"
      using ce_headers_props(1) ct_headers_props by fastforce
    ultimately show ?thesis by (simp only: map_append distinct_append)
  qed
  then have i: "inj_on kh_Key (set (ce_headers (contextEntries e) @ ct_headers ?ct))" by (simp only: distinct_map)
  have "mset (contextEntries (e\<lparr>ev_extensions := xs\<rparr>)) = mset (contextEntries e)"
    using assms(2) by (simp add: contextEntries_split standardEntries_def Event_SpecVersion_def)
  then have "mset (ce_headers (contextEntries e) @ ct_headers ?ct)
      = mset (ce_headers (contextEntries (e\<lparr>ev_extensions := xs\<rparr>)) @ ct_headers ?ct)"
    by (simp add: ce_headers_def)
  from sort_key_mset_cong [OF this i] show ?thesis using h [of xs] h [of "ev_extensions e"] by simp
qed

section \<open>Contracts\<close>

interpretation kafka_encoder: strict_encoder "\<lambda>(e, mode, key). EncodeKafkaWithReport e mode key"
    "\<lambda>(e, mode, key). EncodeKafka e mode key"
  by unfold_locales
    (auto simp: EncodeKafka_def EncodeKafkaWithReport_def EncodeJSONWithReport_def jsonConversionReport_def
      binaryConversionReport_def canonical_sorted split: ContentMode.splits)

interpretation kafka_decoder: event_decoder "\<lambda>l rec. DecodeKafka rec l" "\<lambda>m. [km_Event m]" binding_error
  by unfold_locales (rule yields_mono [OF DecodeKafka_yields]; simp)

section \<open>Properties\<close>

text \<open>
  C8. \<open>DecodeKafka\<close> is total and safe: from any record and limits it returns a message whose event is valid and
  within the limits, or it fails with a documented error.
\<close>

theorem DecodeKafka_safe:
  "case DecodeKafka rec l of
     Inl err \<Rightarrow> binding_error err \<and> err \<noteq> panicked
   | Inr m \<Rightarrow> valid_event (km_Event m) \<and> Event_Validate (km_Event m) = Inr () \<and> within_limits l (km_Event m)"
  using DecodeKafka_yields [of l rec]
  by (auto simp: admitted_def binding_error_def decode_error_def panicked_def split: sum.split)

end
