(* ===== verification/CE_Http.thy ===== *)
theory CE_Http
  imports CE_Binding
begin

text \<open>
  \<open>http.go\<close>: the HTTP protocol binding. An \<open>http.Header\<close> is a Go map from names to lists of values;
  \<open>Header.Set\<close> writes under the canonical form of the name, a decoder ranges over whatever names the map
  has. A body is an \<open>io.Reader\<close>, given by the sequence of reads it answers: the bytes of each read and
  the error, other than the end of the file, that comes with the last of them.
\<close>

record HTTPMessage =
  hm_Mode :: ContentMode
  hm_Events :: "Event list"

type_synonym http_header = "(bytes, bytes list) gomap"

type_synonym reader = "(bytes \<times> go_error option) list"

section \<open>Headers of package \<open>net/textproto\<close>\<close>

definition header_field_byte :: "char \<Rightarrow> bool" where
  "header_field_byte c \<longleftrightarrow> is_digit c \<or> is_lower c \<or> is_upper c
     \<or> byte c \<in> set [33, 35, 36, 37, 38, 39, 42, 43, 45, 46, 94, 95, 96, 124, 126]"

fun canonical_case :: "bool \<Rightarrow> bytes \<Rightarrow> bytes" where
  "canonical_case upper [] = []"
| "canonical_case upper (c # cs) =
     (if upper then upper_byte c else lower_byte c) # canonical_case (c = CHR ''-'') cs"

definition canonical_mime_key :: "bytes \<Rightarrow> bytes" where
  "canonical_mime_key s = (if list_all header_field_byte s then canonical_case True s else s)"

definition header_set :: "bytes \<Rightarrow> bytes \<Rightarrow> http_header \<Rightarrow> http_header" where
  "header_set name value header = AList.update (canonical_mime_key name) [value] header"

section \<open>Attribute values\<close>

definition plain_http_byte :: "char \<Rightarrow> bool" where
  "plain_http_byte c \<longleftrightarrow> 0x21 \<le> byte c \<and> byte c \<le> 0x7e \<and> byte c \<noteq> 34 \<and> c \<noteq> CHR ''%''"

definition encodeHTTPAttribute :: "bytes \<Rightarrow> bytes" where
  "encodeHTTPAttribute value =
     concat (map (\<lambda>c. if plain_http_byte c then [c]
       else [CHR ''%'', upper_hex (byte c div 16), upper_hex (byte c mod 16)]) value)"

fun unquoteLoop :: "bool \<Rightarrow> bytes \<Rightarrow> bytes \<Rightarrow> bytes result" where
  "unquoteLoop escaped out [] =
     (if escaped then Inl (Sentinel ErrInvalidAttribute) else Inr out)"
| "unquoteLoop escaped out (c # cs) =
     (if \<not> escaped \<and> byte c = 92 then unquoteLoop True out cs
      else if \<not> escaped \<and> byte c = 34 then Inl (Sentinel ErrInvalidAttribute)
      else if byte c < 0x20 \<or> byte c = 0x7f then Inl (Sentinel ErrInvalidAttribute)
      else unquoteLoop False (out @ [c]) cs)"

definition unquoteHTTPAttribute :: "bytes \<Rightarrow> bytes result" where
  "unquoteHTTPAttribute value =
     (if value = [] \<or> byte (hd value) \<noteq> 34 then Inr value
      else if length value < 2 \<or> byte (last value) \<noteq> 34 then Inl (Sentinel ErrInvalidAttribute)
      else unquoteLoop False [] (butlast (tl value)))"

definition decodeHTTPAttribute :: "bytes \<Rightarrow> bytes result" where
  "decodeHTTPAttribute value =
     and_then (unquoteHTTPAttribute value) (\<lambda>text.
       case path_unescape text of
         None \<Rightarrow> Inl (Sentinel ErrInvalidAttribute)
       | Some decoded \<Rightarrow>
           if \<not> valid_utf8 decoded then Inl (Sentinel ErrInvalidAttribute) else Inr decoded)"

text \<open>\<open>bits.Mul\<close> on 64-bit words: the high and the low half of the product.\<close>

definition bits_Mul :: "64 word \<Rightarrow> 64 word \<Rightarrow> 64 word \<times> 64 word" where
  "bits_Mul x y =
     (let product = (ucast x :: 128 word) * ucast y in (ucast (drop_bit 64 product), ucast product))"

definition exceedsHTTPEncodedAttributeLimit :: "bytes \<Rightarrow> int \<Rightarrow> bool" where
  "exceedsHTTPEncodedAttributeLimit value limit \<longleftrightarrow>
     (if limit \<le> 0 then True
      else let (high, maximum) = bits_Mul (word_of_int limit) 3 in
        high = 0 \<and> (word_of_int (int (length value)) :: 64 word) > maximum)"

section \<open>Encoding\<close>

definition encodeHTTPBinary :: "Event \<Rightarrow> (http_header \<times> bytes option) result" where
  "encodeHTTPBinary e =
     (let attributes = foldl (\<lambda>header (name, value).
            header_set (''Ce-'' @ name) (encodeHTTPAttribute value) header) [] (contextEntries e);
          header = (if ev_dataContentType e \<noteq> ''''
            then header_set ''Content-Type'' (ev_dataContentType e) attributes
            else if data_present (ev_data e)
            then header_set ''Content-Type'' (implicitDataContentType (data_kind (ev_data e))) attributes
            else attributes)
      in if \<not> data_present (ev_data e) then Inr (header, None)
         else Inr (header, Data_Bytes (ev_data e)))"

definition EncodeHTTPWithReport ::
    "Event list \<Rightarrow> ContentMode \<Rightarrow> (http_header \<times> bytes option \<times> report) result" where
  "EncodeHTTPWithReport events mode =
     (case mode of
        BinaryMode \<Rightarrow>
          if length events \<noteq> 1 then Inl (Errorf ErrUnsupportedMode ''binary event count'')
          else and_then (Event_Validate (events ! 0)) (\<lambda>_.
            and_then (encodeHTTPBinary (events ! 0)) (\<lambda>(header, body).
              Inr (header, body, httpBinaryConversionReport (events ! 0))))
      | StructuredMode \<Rightarrow>
          if length events \<noteq> 1 then Inl (Errorf ErrUnsupportedMode ''structured event count'')
          else and_then (EncodeJSONWithReport (events ! 0)) (\<lambda>(body, report).
            Inr (header_set ''Content-Type'' JSONMediaType [], Some body, report))
      | BatchMode \<Rightarrow>
          and_then (EncodeJSONBatchWithReport events) (\<lambda>(body, report).
            Inr (header_set ''Content-Type'' JSONBatchMediaType [], Some body, report))
      | _ \<Rightarrow> Inl (Sentinel ErrUnsupportedMode))"

definition EncodeHTTP :: "Event list \<Rightarrow> ContentMode \<Rightarrow> (http_header \<times> bytes option) result" where
  "EncodeHTTP events mode =
     and_then (EncodeHTTPWithReport events mode) (\<lambda>(header, body, report).
       and_then (rejectConversionLoss report) (\<lambda>_. Inr (header, body)))"

section \<open>Mode detection\<close>

definition cloudEventsHTTPAttributeName :: "bytes \<Rightarrow> bytes option" where
  "cloudEventsHTTPAttributeName name =
     (if length name < length ''ce-'' \<or> \<not> equal_fold (take (length ''ce-'') name) ''ce-'' then None
      else Some (drop (length ''ce-'') name))"

definition hasCloudEventsHTTPHeader :: "http_header \<Rightarrow> bool" where
  "hasCloudEventsHTTPHeader header \<longleftrightarrow>
     list_ex (\<lambda>(name, _). cloudEventsHTTPAttributeName name \<noteq> None) header"

text \<open>The loop of \<open>singleHeaderValue\<close>, which returns early on the second value.\<close>

definition countHeaderValue ::
    "bytes \<times> nat \<Rightarrow> bytes \<Rightarrow> (bytes \<times> nat) + (bytes \<times> nat)" where
  "countHeaderValue s candidateValue =
     (case s of (value, n) \<Rightarrow>
        if n + 1 = 1 then Inr (candidateValue, n + 1) else Inl ('''', n + 1))"

definition singleHeaderValue :: "http_header \<Rightarrow> bytes \<Rightarrow> bytes \<times> nat" where
  "singleHeaderValue header name =
     (case fold_result countHeaderValue ('''', 0)
             (concat (map snd (filter (\<lambda>(candidate, _). equal_fold candidate name) header))) of
        Inl returned \<Rightarrow> returned
      | Inr final \<Rightarrow> final)"

definition detectHTTPMode :: "http_header \<Rightarrow> Limits \<Rightarrow> (ContentMode \<times> bytes) result" where
  "detectHTTPMode header limits =
     (let (contentType, n) = singleHeaderValue header ''Content-Type'' in
      if n > 1 then Inl (Errorf ErrInvalidEvent ''duplicate content-type'')
      else if n = 0 \<or> contentType = '''' then Inr (BinaryMode, '''')
      else if int (length contentType) > MaxAttributeValueBytes limits then Inl (Sentinel ErrLimitExceeded)
      else let (mediaType, ok) = parse_media_type contentType in
        if \<not> ok then Inl (Errorf ErrInvalidEvent ''content-type'')
        else if to_lower mediaType = JSONMediaType then Inr (StructuredMode, contentType)
        else if to_lower mediaType = JSONBatchMediaType then Inr (BatchMode, contentType)
        else if has_prefix (to_lower mediaType) ''application/cloudevents''
        then Inl (Sentinel ErrUnsupportedMode)
        else Inr (BinaryMode, contentType))"

section \<open>The bounded read\<close>

text \<open>\<open>io.ReadAll\<close> of an \<open>io.LimitedReader\<close> with \<open>n\<close> bytes left.\<close>

fun read_limited :: "nat \<Rightarrow> reader \<Rightarrow> bytes result" where
  "read_limited n [] = Inr []"
| "read_limited n ((chunk, failure) # rest) =
     (if n = 0 then Inr []
      else if n < length chunk then Inr (take n chunk)
      else case failure of
          Some e \<Rightarrow> Inl e
        | None \<Rightarrow> and_then (read_limited (n - length chunk) rest) (\<lambda>value. Inr (chunk @ value)))"

definition readHTTPBody :: "go_context \<Rightarrow> reader option \<Rightarrow> int \<Rightarrow> bytes result" where
  "readHTTPBody ctx body limit =
     (if limit \<le> 0 \<or> limit = maxInt64 then Inl (Sentinel ErrLimitExceeded)
      else case body of
          None \<Rightarrow> Inr []
        | Some reads \<Rightarrow>
            and_then (read_limited (nat (limit + 1)) reads) (\<lambda>value.
              case ctx_after ctx of
                Some e \<Rightarrow> Inl e
              | None \<Rightarrow>
                  if int (length value) > limit then Inl (Sentinel ErrLimitExceeded) else Inr value))"

section \<open>Decoding\<close>

definition validateStructuredHTTPHeader ::
    "bytes \<Rightarrow> bytes list \<Rightarrow> bytes list \<Rightarrow> (bytes, bytes) gomap \<Rightarrow> Limits \<Rightarrow> bytes list result" where
  "validateStructuredHTTPHeader name values seen expected limits =
     (if name \<in> set seen \<or> length values \<noteq> 1 then Inl (Errorf ErrInvalidEvent (''duplicate ce-'' @ name))
      else if exceedsHTTPEncodedAttributeLimit (values ! 0) (MaxAttributeValueBytes limits)
      then Inl (Sentinel ErrLimitExceeded)
      else case decodeHTTPAttribute (values ! 0) of
          Inl _ \<Rightarrow> Inl (Errorf ErrInvalidEvent (''ce-'' @ name))
        | Inr decoded \<Rightarrow>
            if map_of expected name \<noteq> Some decoded
            then Inl (Errorf ErrInvalidEvent (''conflicting ce-'' @ name)) else Inr (name # seen))"

definition checkStructuredHTTPHeader ::
    "Limits \<Rightarrow> (bytes, bytes) gomap \<Rightarrow> bytes list \<Rightarrow> bytes \<times> bytes list \<Rightarrow> bytes list result" where
  "checkStructuredHTTPHeader limits expected seen entry =
     (case entry of (headerName, values) \<Rightarrow>
        case cloudEventsHTTPAttributeName headerName of
          None \<Rightarrow> Inr seen
        | Some rawName \<Rightarrow>
            if MaxAttributeNameBytes limits \<le> 0 \<or> int (length rawName) > MaxAttributeNameBytes limits
            then Inl (Sentinel ErrLimitExceeded)
            else validateStructuredHTTPHeader (to_lower rawName) values seen expected limits)"

definition validateStructuredHTTPMetadata :: "http_header \<Rightarrow> Event \<Rightarrow> Limits \<Rightarrow> unit result" where
  "validateStructuredHTTPMetadata header e limits =
     and_then (fold_result (checkStructuredHTTPHeader limits (expectedMetadata e)) [] header)
       (\<lambda>_. Inr ())"

definition decodeHTTPHeader ::
    "Limits \<Rightarrow> (bytes, bytes) gomap \<Rightarrow> bytes \<times> bytes list \<Rightarrow> (bytes, bytes) gomap result" where
  "decodeHTTPHeader limits decodedAttributes entry =
     (case entry of (name, values) \<Rightarrow>
        case cloudEventsHTTPAttributeName name of
          None \<Rightarrow> Inr decodedAttributes
        | Some rawAttributeName \<Rightarrow>
            if MaxAttributeNameBytes limits \<le> 0
               \<or> int (length rawAttributeName) > MaxAttributeNameBytes limits
            then Inl (Sentinel ErrLimitExceeded)
            else let attributeName = to_lower rawAttributeName in
              if length values \<noteq> 1 then Inl (Errorf ErrInvalidEvent (''duplicate ce-'' @ attributeName))
              else if map_of decodedAttributes attributeName \<noteq> None
              then Inl (Errorf ErrInvalidEvent (''duplicate ce-'' @ attributeName))
              else if int (length decodedAttributes) \<ge> MaxAttributes limits
              then Inl (Sentinel ErrLimitExceeded)
              else if attributeName = ''datacontenttype''
              then Inl (Errorf ErrInvalidEvent ''ce-datacontenttype'')
              else if exceedsHTTPEncodedAttributeLimit (values ! 0) (MaxAttributeValueBytes limits)
              then Inl (Sentinel ErrLimitExceeded)
              else (case decodeHTTPAttribute (values ! 0) of
                      Inl _ \<Rightarrow> Inl (Errorf ErrInvalidEvent (''ce-'' @ attributeName))
                    | Inr decoded \<Rightarrow>
                        if int (length decoded) > MaxAttributeValueBytes limits
                        then Inl (Sentinel ErrLimitExceeded)
                        else Inr (AList.update attributeName decoded decodedAttributes)))"

definition decodeHTTPData :: "bytes \<Rightarrow> bytes \<Rightarrow> Data result" where
  "decodeHTTPData contentType body =
     (if length body > 0 \<or> contentType \<noteq> '''' then decodeBinaryData contentType body
      else Inr zero_data)"

definition decodeHTTPBinary :: "http_header \<Rightarrow> bytes \<Rightarrow> bytes \<Rightarrow> Limits \<Rightarrow> Event result" where
  "decodeHTTPBinary header contentType body limits =
     and_then (fold_result (decodeHTTPHeader limits) [] header) (\<lambda>decodedAttributes.
       decodeBinaryEvent ''ce-'' decodedAttributes contentType (decodeHTTPData contentType body))"

definition DecodeHTTP ::
    "go_context option \<Rightarrow> http_header \<Rightarrow> reader option \<Rightarrow> Limits \<Rightarrow> HTTPMessage result" where
  "DecodeHTTP ctx header body limits =
     (case ctx of
        None \<Rightarrow> Inl (Errorf ErrInvalidEvent ''nil context'')
      | Some c \<Rightarrow>
          (case ctx_before c of
             Some e \<Rightarrow> Inl e
           | None \<Rightarrow>
               and_then (detectHTTPMode header limits) (\<lambda>(mode, contentType).
               and_then (readHTTPBody c body
                   (if mode = BinaryMode then MaxDataBytes limits else MaxEventBytes limits)) (\<lambda>value.
               if mode = StructuredMode then
                 and_then (DecodeJSON value limits) (\<lambda>e.
                 and_then (validateStructuredHTTPMetadata header e limits) (\<lambda>_.
                   Inr \<lparr>hm_Mode = mode, hm_Events = [e]\<rparr>))
               else if mode = BatchMode then
                 (if hasCloudEventsHTTPHeader header
                  then Inl (Errorf ErrInvalidEvent ''batch metadata headers'')
                  else and_then (DecodeJSONBatch value limits) (\<lambda>events.
                    Inr \<lparr>hm_Mode = mode, hm_Events = events\<rparr>))
               else
                 and_then (decodeHTTPBinary header contentType value limits) (\<lambda>e.
                   Inr \<lparr>hm_Mode = mode, hm_Events = [e]\<rparr>)))))"

lemmas http_eval [eval_defs] =
  header_field_byte_def canonical_mime_key_def header_set_def plain_http_byte_def
  encodeHTTPAttribute_def unquoteHTTPAttribute_def decodeHTTPAttribute_def bits_Mul_def
  exceedsHTTPEncodedAttributeLimit_def encodeHTTPBinary_def EncodeHTTPWithReport_def EncodeHTTP_def
  cloudEventsHTTPAttributeName_def hasCloudEventsHTTPHeader_def countHeaderValue_def
  singleHeaderValue_def detectHTTPMode_def readHTTPBody_def validateStructuredHTTPHeader_def
  checkStructuredHTTPHeader_def validateStructuredHTTPMetadata_def decodeHTTPHeader_def
  decodeHTTPData_def decodeHTTPBinary_def DecodeHTTP_def

section \<open>Attribute values, the encoded limit and the bounded read\<close>

lemma hex_plain: "n < 16 \<Longrightarrow> plain_http_byte (upper_hex n)"
  by (auto simp: plain_http_byte_def upper_hex_def dest!: arg_cong [where f = byte])

lemma hd_encodeHTTPAttribute: "v \<noteq> [] \<Longrightarrow> byte (hd (encodeHTTPAttribute v)) \<noteq> 34"
  by (cases v) (auto simp: encodeHTTPAttribute_def plain_http_byte_def)

lemma encodeHTTPAttribute_Nil_iff [simp]: "encodeHTTPAttribute v = [] \<longleftrightarrow> v = []"
  by (cases v) (auto simp: encodeHTTPAttribute_def)

lemma unescape_encodeHTTPAttribute:
  "unescape EncodePathSegment (encodeHTTPAttribute v) = Some v"
proof (induction v)
  case (Cons c cs)
  show ?case
  proof (cases "plain_http_byte c")
    case True
    then show ?thesis using Cons by (simp add: encodeHTTPAttribute_def plain_http_byte_def)
  next
    case False
    then show ?thesis using Cons unescape_hex [of EncodePathSegment c "encodeHTTPAttribute cs"]
      by (simp add: encodeHTTPAttribute_def del: unescape.simps(2))
  qed
qed (simp add: encodeHTTPAttribute_def)

lemma decode_encodeHTTPAttribute:
  "decodeHTTPAttribute (encodeHTTPAttribute v) =
     (if valid_utf8 v then Inr v else Inl (Sentinel ErrInvalidAttribute))"
proof -
  have "unquoteHTTPAttribute (encodeHTTPAttribute v) = Inr (encodeHTTPAttribute v)"
    using hd_encodeHTTPAttribute [of v] by (auto simp: unquoteHTTPAttribute_def)
  then show ?thesis
    by (simp add: decodeHTTPAttribute_def path_unescape_def unescape_encodeHTTPAttribute)
qed

lemma encodeHTTPAttribute_header_bytes:
  "list_all (\<lambda>c. 0x21 \<le> byte c \<and> byte c \<le> 0x7e \<and> byte c \<noteq> 34) (encodeHTTPAttribute v)"
proof -
  have "plain_http_byte (upper_hex (byte c div 16)) \<and> plain_http_byte (upper_hex (byte c mod 16))" for c
    using byte_less [of c] by (simp add: hex_plain less_mult_imp_div_less)
  then show ?thesis
    by (induction v) (auto simp: encodeHTTPAttribute_def plain_http_byte_def)
qed

lemma length_encodeHTTPAttribute: "length (encodeHTTPAttribute v) \<le> 3 * length v"
  by (induction v) (auto simp: encodeHTTPAttribute_def)

lemma uint_of_int:
  "0 \<le> k \<Longrightarrow> k < 2 ^ LENGTH('a) \<Longrightarrow> uint (word_of_int k :: 'a::len word) = k"
  by (rule word_of_int_inverse [OF refl])

lemma bits_Mul_uint:
  "bits_Mul x y = (word_of_int (uint x * uint y div 2 ^ 64), word_of_int (uint x * uint y))"
proof -
  have "uint x < 2 ^ 64" "uint y < 2 ^ 64" using uint_lt2p [of x] uint_lt2p [of y] by simp_all
  then have "uint x * uint y < 2 ^ 64 * 2 ^ 64" by (intro mult_strict_mono) auto
  then have b: "uint x * uint y < 2 ^ 128" by simp
  have p: "(ucast x :: 128 word) * ucast y = word_of_int (uint x * uint y)"
    by (simp only: ucast_eq wi_hom_mult)
  have u: "uint (word_of_int (uint x * uint y) :: 128 word) = uint x * uint y"
    by (rule uint_of_int) (use b in simp_all)
  have "uint (2 ^ 64 :: 128 word) = 2 ^ 64" by simp
  then have "uint (drop_bit 64 (word_of_int (uint x * uint y) :: 128 word)) = uint x * uint y div 2 ^ 64"
    by (simp only: drop_bit_eq_div uint_div u)
  then show ?thesis
    unfolding bits_Mul_def p Let_def by (simp only: ucast_eq u)
qed

lemma uint_numeral_3: "uint (3 :: 64 word) = 3"
  by simp

lemma exceedsHTTPEncodedAttributeLimit_iff:
  assumes "limit \<le> maxInt64" and "int (length v) \<le> maxInt64"
  shows "exceedsHTTPEncodedAttributeLimit v limit \<longleftrightarrow> limit \<le> 0 \<or> int (length v) > 3 * limit"
proof (cases "limit \<le> 0")
  case False
  have u: "uint (word_of_int limit :: 64 word) = limit"
    by (rule uint_of_int) (use assms False in \<open>simp_all add: maxInt64_def\<close>)
  have v: "uint (word_of_int (int (length v)) :: 64 word) = int (length v)"
    by (rule uint_of_int) (use assms in \<open>simp_all add: maxInt64_def\<close>)
  show ?thesis
  proof (cases "3 * limit < 2 ^ 64")
    case True
    then have h: "limit * 3 div 2 ^ 64 = 0" using False by simp
    have l: "uint (word_of_int (limit * 3) :: 64 word) = limit * 3"
      by (rule uint_of_int) (use True False in simp_all)
    show ?thesis
      unfolding exceedsHTTPEncodedAttributeLimit_def bits_Mul_uint Let_def prod.case word_less_def
        uint_numeral_3 u v l h
      using False by (simp add: mult.commute)
  next
    case outside: False
    have "limit * 3 div 2 ^ 64 = 1"
      using outside assms(1) by (simp add: maxInt64_def)
    then show ?thesis
      using False outside assms by (simp add: exceedsHTTPEncodedAttributeLimit_def bits_Mul_uint u maxInt64_def)
  qed
qed (simp add: exceedsHTTPEncodedAttributeLimit_def)

fun reader_content :: "reader \<Rightarrow> bytes" where
  "reader_content [] = []"
| "reader_content ((chunk, failure) # rest) = chunk @ (if failure = None then reader_content rest else [])"

fun reader_failure :: "reader \<Rightarrow> go_error option" where
  "reader_failure [] = None"
| "reader_failure ((chunk, failure) # rest) = (if failure = None then reader_failure rest else failure)"

lemma read_limited_ok:
  "reader_failure r = None \<Longrightarrow> read_limited n r = Inr (take n (reader_content r))"
  by (induction n r rule: read_limited.induct) (auto split: if_splits option.splits)

lemma read_limited_failure:
  "reader_failure r = Some e \<Longrightarrow> length (reader_content r) < n \<Longrightarrow> read_limited n r = Inl e"
  by (induction n r rule: read_limited.induct) (auto split: if_splits option.splits)

lemma read_limited_long:
  "n < length (reader_content r) \<Longrightarrow> read_limited n r = Inr (take n (reader_content r))"
  by (induction n r rule: read_limited.induct) (auto split: if_splits option.splits)

lemma read_limited_length: "read_limited n r = Inr v \<Longrightarrow> length v \<le> n"
  by (induction n r arbitrary: v rule: read_limited.induct) (auto split: if_splits option.splits)

section \<open>Decoded messages are admitted\<close>

lemma decodeHTTPHeader_yields:
  assumes "values_within l m" and "m \<noteq> [] \<Longrightarrow> int (length m) \<le> MaxAttributes l"
  shows "yields decode_error (\<lambda>m. values_within l m \<and> (m \<noteq> [] \<longrightarrow> int (length m) \<le> MaxAttributes l))
    (decodeHTTPHeader l m p)"
proof -
  have "int (length (AList.update k v m)) \<le> MaxAttributes l" if "\<not> MaxAttributes l \<le> int (length m)" for k v
    using length_update [of k v m] that by linarith
  then show ?thesis
    using assms unfolding decodeHTTPHeader_def
    by (auto simp: Let_def intro!: values_within_update name_within_to_lower split: prod.split option.split sum.split)
qed

lemma decodeHTTPBinary_yields:
  assumes "int (length body) \<le> MaxDataBytes l"
  shows "yields decode_error (admitted l) (decodeHTTPBinary header ct body l)"
proof -
  have h: "yields decode_error (\<lambda>m. values_within l m \<and> (m \<noteq> [] \<longrightarrow> int (length m) \<le> MaxAttributes l))
      (fold_result (decodeHTTPHeader l) [] header)"
    by (rule yields_fold_result) (auto intro: decodeHTTPHeader_yields)
  have d: "yields decode_error (data_within l) (decodeHTTPData ct body)"
    using assms by (auto simp: decodeHTTPData_def data_within_def zero_data_def data_ok_def intro!: decodeBinaryData_yields)
  show ?thesis
    unfolding decodeHTTPBinary_def by (auto intro!: yields_and_then [OF h] decodeBinaryEvent_yields d)
qed

lemma read_limited_error: "read_limited n r = Inl e \<Longrightarrow> reader_failure r = Some e"
  by (induction n r rule: read_limited.induct) (auto simp: and_then_eq_Inl split: if_splits option.splits)

text \<open>The errors of a request: those of the binding, and those of its context and its body.\<close>

definition http_error :: "go_context option \<Rightarrow> reader option \<Rightarrow> go_error \<Rightarrow> bool" where
  "http_error ctx body e \<longleftrightarrow> binding_error e
     \<or> (\<exists>c. ctx = Some c \<and> (ctx_before c = Some e \<or> ctx_after c = Some e))
     \<or> (\<exists>r. body = Some r \<and> reader_failure r = Some e)"

lemma http_error_binding [simp]: "binding_error e \<Longrightarrow> http_error ctx body e"
  by (simp add: http_error_def)

lemma yields_http: "yields decode_error Q m \<Longrightarrow> yields (http_error ctx body) Q m"
  by (erule yields_mono) simp_all

lemma readHTTPBody_yields:
  "yields (http_error (Some c) body) (\<lambda>v. int (length v) \<le> limit) (readHTTPBody c body limit)"
proof (cases body)
  case (Some r)
  then show ?thesis
    using read_limited_error [of "nat (limit + 1)" r]
    by (cases "read_limited (nat (limit + 1)) r")
      (auto simp: readHTTPBody_def http_error_def split: option.splits)
qed (auto simp: readHTTPBody_def)

lemma detectHTTPMode_yields: "yields binding_error (\<lambda>(mode, _). mode \<noteq> ModeUnset) (detectHTTPMode header l)"
  by (auto simp: detectHTTPMode_def Let_def split: prod.split)

lemma validateStructuredHTTPMetadata_yields:
  "yields decode_error (\<lambda>_. True) (validateStructuredHTTPMetadata header e l)"
proof -
  have "yields decode_error (\<lambda>_. True) (checkStructuredHTTPHeader l expected seen p)" for expected seen p
    by (auto simp: checkStructuredHTTPHeader_def validateStructuredHTTPHeader_def
        split: prod.split option.split sum.split)
  then have "yields decode_error (\<lambda>_. True) (fold_result (checkStructuredHTTPHeader l expected) [] header)" for expected
    by (rule fold_unit_yields)
  then show ?thesis unfolding validateStructuredHTTPMetadata_def by (rule yields_and_then) simp
qed

lemma DecodeHTTP_yields:
  "yields (http_error ctx body) (\<lambda>m. list_all (admitted l) (hm_Events m)) (DecodeHTTP ctx header body l)"
proof (cases ctx)
  case (Some c)
  have m: "yields (http_error (Some c) body) (\<lambda>(mode, _). mode \<noteq> ModeUnset) (detectHTTPMode header l)"
    by (rule yields_mono [OF detectHTTPMode_yields]) simp_all
  have j: "yields (http_error (Some c) body) (admitted l) (DecodeJSON w l)" for w
    by (rule yields_http, rule yields_mono [OF DecodeJSON_yields]) auto
  note b = yields_http [OF DecodeJSONBatch_yields] and v = yields_http [OF validateStructuredHTTPMetadata_yields]
    and n = yields_http [OF decodeHTTPBinary_yields]
  show ?thesis
  proof (cases "ctx_before c")
    case None
    show ?thesis
      unfolding DecodeHTTP_def Some option.case None
      by (rule yields_and_then [OF m], simp only: split_paired_all prod.case,
          rule yields_and_then [OF readHTTPBody_yields])
        (auto intro!: yields_and_then [OF j] yields_and_then [OF v] yields_and_then [OF b]
          yields_and_then [OF n] split: if_splits dest: binary_mode)
  next
    case error: (Some e)
    then show ?thesis using Some by (simp add: DecodeHTTP_def http_error_def)
  qed
qed (simp add: DecodeHTTP_def)

section \<open>Binary messages round trip\<close>

fun capitalize :: "bytes \<Rightarrow> bytes" where
  "capitalize [] = []"
| "capitalize (c # cs) = upper_byte c # cs"

definition ce_name :: "bytes \<Rightarrow> bytes" where
  "ce_name n = ''Ce-'' @ capitalize n"

lemma lower_alnum_not_dash: "lower_alnum c \<Longrightarrow> c \<noteq> CHR ''-'' \<and> lower_byte c = c"
  by (auto simp: lower_byte_def lower_alnum_def is_lower_def is_digit_def)

lemma canonical_case_lower: "list_all lower_alnum s \<Longrightarrow> canonical_case False s = s"
  by (induction s) (auto simp: lower_alnum_not_dash)

lemma canonical_ce_name:
  assumes "list_all lower_alnum n"
  shows "canonical_mime_key (''Ce-'' @ n) = ce_name n"
proof -
  have "list_all header_field_byte (''Ce-'' @ n)"
    using assms by (auto simp: header_field_byte_def lower_alnum_def is_lower_def is_upper_def is_digit_def list_all_iff)
  moreover have "canonical_case True n = capitalize n"
    using assms by (cases n) (auto simp: canonical_case_lower lower_alnum_not_dash)
  ultimately show ?thesis
    by (simp add: canonical_mime_key_def ce_name_def upper_byte_def lower_byte_def)
qed

lemma to_lower_capitalize: "list_all lower_alnum n \<Longrightarrow> to_lower (capitalize n) = n"
proof (cases n)
  case (Cons c cs)
  assume a: "list_all lower_alnum n"
  have c: "lower_byte (upper_byte c) = c" "byte (upper_byte c) < 128"
    using a Cons by (auto simp: lower_alnum_def is_lower_def is_digit_def lower_byte_def upper_byte_def)
  have "map lower_byte cs = cs" using a Cons
    by (auto simp: list_all_iff lower_alnum_def is_lower_def is_digit_def lower_byte_def intro!: map_idI)
  moreover have "is_ascii cs" using a Cons lower_alnum_ascii [of cs] by simp
  ultimately show ?thesis using Cons c by (simp add: to_lower_def)
qed (simp add: to_lower_def)

lemma ce_name_attribute: "cloudEventsHTTPAttributeName (ce_name n) = Some (capitalize n)"
  by (simp add: cloudEventsHTTPAttributeName_def ce_name_def equal_fold_def lower_byte_def char_of_eqI)

lemma ce_name_not_content_type: "\<not> equal_fold (ce_name n) ''Content-Type''"
  by (simp add: equal_fold_def ce_name_def lower_byte_def)

lemma content_type_name [simp]: "canonical_mime_key ''Content-Type'' = ''Content-Type''"
  "cloudEventsHTTPAttributeName ''Content-Type'' = None" "equal_fold ''Content-Type'' ''Content-Type''"
  by (simp_all add: canonical_mime_key_def header_field_byte_def is_digit_def is_lower_def is_upper_def
      upper_byte_def lower_byte_def cloudEventsHTTPAttributeName_def equal_fold_def)

definition ce_fields :: "(bytes \<times> bytes) list \<Rightarrow> http_header" where
  "ce_fields ps = map (\<lambda>(n, v). (ce_name n, [encodeHTTPAttribute v])) ps"

lemma inj_ce_name: "list_all lower_alnum m \<Longrightarrow> list_all lower_alnum n \<Longrightarrow> ce_name m = ce_name n \<Longrightarrow> m = n"
  by (metis append_same_eq ce_name_def same_append_eq to_lower_capitalize)

lemma set_attributes:
  assumes "\<forall>p\<in>set (qs @ ps). list_all lower_alnum (fst p)" "distinct (map fst (qs @ ps))"
  shows "foldl (\<lambda>header (name, v). header_set (''Ce-'' @ name) (encodeHTTPAttribute v) header) (ce_fields qs) ps
    = ce_fields (qs @ ps)"
  using assms
proof (induction ps arbitrary: qs)
  case (Cons p ps)
  obtain n v where p: "p = (n, v)" by fastforce
  have n: "list_all lower_alnum n" "n \<notin> set (map fst qs)" using Cons.prems p by auto
  have "ce_name n \<notin> set (keys (ce_fields qs))"
  proof
    assume "ce_name n \<in> set (keys (ce_fields qs))"
    then obtain q where q: "q \<in> set qs" "ce_name n = ce_name (fst q)" by (auto simp: ce_fields_def)
    have "list_all lower_alnum (fst q)" using Cons.prems(1) q(1) by simp
    from inj_ce_name [OF n(1) this q(2)] have "n = fst q" .
    then show False using n(2) q(1) by auto
  qed
  then have "header_set (''Ce-'' @ n) (encodeHTTPAttribute v) (ce_fields qs) = ce_fields (qs @ [p])"
    unfolding header_set_def canonical_ce_name [OF n(1)] by (simp add: update_fresh p ce_fields_def)
  then show ?case using Cons.IH [of "qs @ [p]"] Cons.prems p by simp
qed simp

lemma decode_fields:
  assumes "\<forall>p\<in>set (qs @ ps). list_all lower_alnum (fst p)" "distinct (map fst (qs @ ps))"
    and "''datacontenttype'' \<notin> set (map fst ps)" and "int (length (qs @ ps)) \<le> MaxAttributes l"
    and "0 < MaxAttributeNameBytes l" "0 < MaxAttributeValueBytes l" "MaxAttributeValueBytes l \<le> maxInt64"
    and "list_all (\<lambda>(n, v). int (length n) \<le> MaxAttributeNameBytes l \<and> int (length v) \<le> MaxAttributeValueBytes l
       \<and> 3 * int (length v) \<le> maxInt64 \<and> valid_utf8 v) ps"
  shows "fold_result (decodeHTTPHeader l) qs (ce_fields ps) = Inr (qs @ ps)"
  using assms
proof (induction ps arbitrary: qs)
  case (Cons p ps)
  obtain n v where p: "p = (n, v)" by fastforce
  have lv: "int (length v) \<le> MaxAttributeValueBytes l" "3 * int (length v) \<le> maxInt64" "valid_utf8 v"
    and ln: "int (length n) \<le> MaxAttributeNameBytes l" "list_all lower_alnum n"
    using Cons.prems p by simp_all
  have "int (length (encodeHTTPAttribute v)) \<le> 3 * int (length v)"
    using length_encodeHTTPAttribute [of v] by linarith
  then have x: "\<not> exceedsHTTPEncodedAttributeLimit (encodeHTTPAttribute v) (MaxAttributeValueBytes l)"
    using lv Cons.prems(6,7) by (subst exceedsHTTPEncodedAttributeLimit_iff) auto
  have "length (capitalize n) = length n" by (cases n) auto
  then have "decodeHTTPHeader l qs (ce_name n, [encodeHTTPAttribute v]) = Inr (qs @ [p])"
    using Cons.prems p lv ln x
    by (auto simp: decodeHTTPHeader_def ce_name_attribute to_lower_capitalize Let_def update_fresh
        decode_encodeHTTPAttribute map_of_None_iff)
  then show ?case using Cons.IH [of "qs @ [p]"] Cons.prems p by (simp add: ce_fields_def)
qed (simp add: ce_fields_def)

definition ct_fields :: "bytes \<Rightarrow> http_header" where
  "ct_fields ct = (if ct = '''' then [] else [(''Content-Type'', [ct])])"

lemma ce_fields_no_content_type: "''Content-Type'' \<notin> set (keys (ce_fields ps))"
  by (auto simp: ce_fields_def ce_name_def)

lemma encodeHTTPBinary_fields:
  assumes b: "binary_lossless e"
  shows "encodeHTTPBinary e = Inr (ce_fields (contextEntries e) @ ct_fields (ev_dataContentType e),
    if data_present (ev_data e) then Some (data_bytes (ev_data e)) else None)"
proof -
  note v = binary_losslessD(1) [OF b]
  have "foldl (\<lambda>header (name, v). header_set (''Ce-'' @ name) (encodeHTTPAttribute v) header) (ce_fields []) (contextEntries e)
      = ce_fields ([] @ contextEntries e)"
    using contextEntries_wf [OF v] contextEntries_lower [OF v] by (intro set_attributes) (auto simp: wf_map_def)
  then show ?thesis
    using binary_losslessD(4) [OF b] ce_fields_no_content_type [of "contextEntries e"]
    by (auto simp: encodeHTTPBinary_def Let_def ce_fields_def [of "[]"] ct_fields_def header_set_def update_fresh Data_Bytes_def)
qed

lemma fold_ct_fields: "fold_result (decodeHTTPHeader l) m (ct_fields ct) = Inr m"
  by (simp add: ct_fields_def decodeHTTPHeader_def)

lemma singleHeaderValue_fields:
  "singleHeaderValue (ce_fields ps @ ct_fields ct) ''Content-Type'' = (ct, if ct = '''' then 0 else 1)"
proof -
  have "filter (\<lambda>(candidate, _). equal_fold candidate ''Content-Type'') (ce_fields ps) = []"
    by (auto simp: ce_fields_def filter_empty_conv ce_name_not_content_type)
  then show ?thesis by (simp add: singleHeaderValue_def ct_fields_def countHeaderValue_def)
qed

definition http_fits :: "Limits \<Rightarrow> Event \<Rightarrow> bool" where
  "http_fits l e \<longleftrightarrow> binary_lossless e \<and> binary_within l e
     \<and> (data_present (ev_data e) \<or> ev_dataContentType e = '''')
     \<and> int (length (ev_dataContentType e)) \<le> MaxAttributeValueBytes l
     \<and> 0 < MaxDataBytes l \<and> MaxDataBytes l < maxInt64 \<and> MaxAttributeValueBytes l \<le> maxInt64
     \<and> list_all (\<lambda>(n, v). 3 * int (length v) \<le> maxInt64) (contextEntries e)"

lemma detectHTTPMode_binary:
  assumes "http_fits l e"
  shows "detectHTTPMode (ce_fields ps @ ct_fields (ev_dataContentType e)) l = Inr (BinaryMode, ev_dataContentType e)"
proof -
  have b: "binary_lossless e" and len: "int (length (ev_dataContentType e)) \<le> MaxAttributeValueBytes l"
    using assms by (simp_all add: http_fits_def)
  have ok: "ev_dataContentType e \<noteq> '''' \<Longrightarrow> snd (parse_media_type (ev_dataContentType e))"
    using binary_losslessD(1) [OF b] by (simp add: valid_event_def valid_context_def event_attributes_def)
  have n: "\<not> has_prefix (to_lower (fst (parse_media_type (ev_dataContentType e)))) ''application/cloudevents''"
    using b by (simp add: binary_lossless_def)
  have "has_prefix JSONMediaType ''application/cloudevents''" "has_prefix JSONBatchMediaType ''application/cloudevents''"
    by (simp_all add: JSONMediaType_def JSONBatchMediaType_def has_prefix_def)
  then have "to_lower (fst (parse_media_type (ev_dataContentType e))) \<noteq> JSONMediaType"
    "to_lower (fst (parse_media_type (ev_dataContentType e))) \<noteq> JSONBatchMediaType" using n by auto
  then show ?thesis
    using ok n len
    by (cases "ev_dataContentType e = ''''") (auto simp: detectHTTPMode_def singleHeaderValue_fields split: prod.split)
qed

lemma decodeHTTPBinary_rebuilds:
  assumes f: "http_fits l e"
  shows "decodeHTTPBinary (ce_fields (contextEntries e) @ ct_fields (ev_dataContentType e)) (ev_dataContentType e)
      (data_bytes (ev_data e)) l
    = decodeBinaryEvent ''ce-'' (contextEntries e) (ev_dataContentType e) (Inr (ev_data e))"
proof -
  have b: "binary_lossless e" and w: "binary_within l e" using f by (simp_all add: http_fits_def)
  note v = binary_losslessD(1) [OF b]
  have "fold_result (decodeHTTPHeader l) [] (ce_fields (contextEntries e)) = Inr ([] @ contextEntries e)"
  proof (rule decode_fields)
    show "list_all (\<lambda>(n, v). int (length n) \<le> MaxAttributeNameBytes l \<and> int (length v) \<le> MaxAttributeValueBytes l
       \<and> 3 * int (length v) \<le> maxInt64 \<and> valid_utf8 v) (contextEntries e)"
      using f w contextEntries_utf8(1) [OF b] by (fastforce simp: http_fits_def binary_within_def list_all_iff)
  qed (use f w contextEntries_wf [OF v] contextEntries_lower [OF v] contextEntries_no_content_type [OF v]
      binary_within_pos [OF w] in \<open>auto simp: wf_map_def http_fits_def binary_within_def\<close>)
  moreover have "decodeHTTPData (ev_dataContentType e) (data_bytes (ev_data e)) = Inr (ev_data e)"
  proof (cases "data_present (ev_data e)")
    case True
    then show ?thesis using decodeBinaryData_rebuilds [OF b] binary_losslessD(4) [OF b] by (simp add: decodeHTTPData_def)
  next
    case False
    then have "ev_data e = zero_data" "ev_dataContentType e = ''''"
      using absent_data [OF valid_eventD(6) [OF v]] f by (auto simp: http_fits_def)
    then show ?thesis by (simp add: decodeHTTPData_def zero_data_def)
  qed
  ultimately show ?thesis by (simp add: decodeHTTPBinary_def fold_result_append fold_ct_fields)
qed

definition live_context :: go_context where
  "live_context = \<lparr>ctx_before = None, ctx_after = None\<rparr>"

definition body_reader :: "bytes option \<Rightarrow> reader option" where
  "body_reader body = map_option (\<lambda>b. [(b, None)]) body"

lemma http_binary_roundtrip:
  assumes f: "http_fits l e"
  obtains header body e' where "EncodeHTTP [e] BinaryMode = Inr (header, body)"
    "DecodeHTTP (Some live_context) header (body_reader body) l = Inr \<lparr>hm_Mode = BinaryMode, hm_Events = [e']\<rparr>"
    "same_event e e'"
proof -
  have b: "binary_lossless e" and w: "binary_within l e" using f by (simp_all add: http_fits_def)
  note v = binary_losslessD(1) [OF b]
  let ?h = "ce_fields (contextEntries e) @ ct_fields (ev_dataContentType e)"
  let ?b = "if data_present (ev_data e) then Some (data_bytes (ev_data e)) else None"
  have enc: "EncodeHTTP [e] BinaryMode = Inr (?h, ?b)"
    using v b by (simp add: EncodeHTTP_def EncodeHTTPWithReport_def encodeHTTPBinary_fields httpBinaryConversionReport_def
        binary_lossless_def)
  have body: "readHTTPBody live_context (body_reader ?b) (MaxDataBytes l) = Inr (data_bytes (ev_data e))"
    using f w absent_data [OF valid_eventD(6) [OF v]]
    by (auto simp: readHTTPBody_def body_reader_def live_context_def http_fits_def binary_within_def zero_data_def)
  obtain e' where e': "decodeBinaryEvent ''ce-'' (contextEntries e) (ev_dataContentType e) (Inr (ev_data e)) = Inr e'"
    "same_event e e'"
    using decodeBinaryEvent_rebuilds [OF v binary_losslessD(2,3) [OF b] refl] by blast
  have "DecodeHTTP (Some live_context) ?h (body_reader ?b) l = Inr \<lparr>hm_Mode = BinaryMode, hm_Events = [e']\<rparr>"
    using detectHTTPMode_binary [OF f] body decodeHTTPBinary_rebuilds [OF f] e'(1)
    by (simp add: DecodeHTTP_def live_context_def)
  then show ?thesis using that enc e'(2) by blast
qed

lemma structured_field_agrees:
  assumes "DecodeHTTP ctx header body l = Inr m" "hm_Mode m = StructuredMode"
    and "(name, vs) \<in> set header" "cloudEventsHTTPAttributeName name = Some rawName"
  shows "\<exists>e w v. hm_Events m = [e] \<and> vs = [w] \<and> decodeHTTPAttribute w = Inr v
    \<and> carries e (to_lower rawName) v"
proof -
  from assms(1,2) obtain e where e: "hm_Events m = [e]" "validateStructuredHTTPMetadata header e l = Inr ()"
    by (auto simp: DecodeHTTP_def split: option.splits if_splits)
  then obtain u where "fold_result (checkStructuredHTTPHeader l (expectedMetadata e)) [] header = Inr u"
    by (auto simp: validateStructuredHTTPMetadata_def)
  from fold_result_step [OF this assms(3)] obtain t t' where
    "checkStructuredHTTPHeader l (expectedMetadata e) t (name, vs) = Inr t'" by blast
  then have "validateStructuredHTTPHeader (to_lower rawName) vs t (expectedMetadata e) l = Inr t'"
    using assms(4) by (auto simp: checkStructuredHTTPHeader_def split: if_splits)
  moreover have "valid_event e"
    using DecodeHTTP_yields [of ctx body l header] assms(1) e(1) by (simp add: admitted_def)
  ultimately show ?thesis using e(1) expectedMetadata_iff [of e]
    by (cases vs) (auto simp: validateStructuredHTTPHeader_def split: if_splits sum.splits)
qed

section \<open>Contracts\<close>

interpretation http_attribute: codec encodeHTTPAttribute
    "\<lambda>w. case decodeHTTPAttribute w of Inl _ \<Rightarrow> None | Inr v \<Rightarrow> Some v" valid_utf8
  by unfold_locales (simp add: decode_encodeHTTPAttribute)

interpretation http_encoder: strict_encoder
    "\<lambda>(es, mode). and_then (EncodeHTTPWithReport es mode) (\<lambda>(header, body, report). Inr ((header, body), report))"
    "\<lambda>(es, mode). EncodeHTTP es mode"
  by unfold_locales
    (auto simp: EncodeHTTP_def EncodeHTTPWithReport_def EncodeJSONWithReport_def EncodeJSONBatchWithReport_def
      jsonConversionReport_def httpBinaryConversionReport_def binaryConversionReport_def canonical_sorted
      and_then_assoc case_prod_beta split: ContentMode.splits if_splits)

interpretation http_decoder: event_decoder "\<lambda>l header. DecodeHTTP ctx header body l" hm_Events "http_error ctx body"
  for ctx body
  by unfold_locales (rule DecodeHTTP_yields)

section \<open>Properties\<close>

text \<open>
  C9. \<open>DecodeHTTP\<close> is total and safe: whatever the context, the headers, the body and the limits, each event of
  the message it returns is valid and within the limits; otherwise it fails with a documented error, with the
  error of the context, or with the error of the body.
\<close>

theorem DecodeHTTP_safe:
  "case DecodeHTTP ctx header body l of
     Inl err \<Rightarrow> http_error ctx body err
   | Inr m \<Rightarrow> list_all (\<lambda>e. valid_event e \<and> within_limits l e) (hm_Events m)"
  using DecodeHTTP_yields [of ctx body l header]
  by (auto simp: admitted_def list_all_iff split: sum.split)

text \<open>
  C36. Percent encoding of attribute values: decoding an encoded value gives the value back exactly when it is
  UTF-8, the encoded text consists of visible ASCII without a double quote, and it is at most three times as long.
\<close>

theorem encodeHTTPAttribute_roundtrip:
  "decodeHTTPAttribute (encodeHTTPAttribute v) =
     (if valid_utf8 v then Inr v else Inl (Sentinel ErrInvalidAttribute))
   \<and> list_all (\<lambda>c. 0x21 \<le> byte c \<and> byte c \<le> 0x7e \<and> byte c \<noteq> 34) (encodeHTTPAttribute v)
   \<and> length (encodeHTTPAttribute v) \<le> 3 * length v"
  using decode_encodeHTTPAttribute encodeHTTPAttribute_header_bytes length_encodeHTTPAttribute by simp

text \<open>
  C37. The overflow check of the encoded attribute limit is exact at machine width: for every limit and length
  that fit a 64-bit integer it refuses exactly the values longer than three times the limit.
\<close>

theorem exceedsHTTPEncodedAttributeLimit_exact:
  assumes "limit \<le> maxInt64" and "int (length v) \<le> maxInt64"
  shows "exceedsHTTPEncodedAttributeLimit v limit \<longleftrightarrow> limit \<le> 0 \<or> int (length v) > 3 * limit"
  using assms by (rule exceedsHTTPEncodedAttributeLimit_iff)

theorem exceedsHTTPEncodedAttributeLimit_exact_witness:
  "exceedsHTTPEncodedAttributeLimit ''abcd'' 1 \<and> \<not> exceedsHTTPEncodedAttributeLimit ''abcd'' maxInt64"
  using exceedsHTTPEncodedAttributeLimit_exact [of 1 "''abcd''"]
    exceedsHTTPEncodedAttributeLimit_exact [of maxInt64 "''abcd''"]
  by (simp add: maxInt64_def)

text \<open>
  C38. The bounded read admits exactly the bodies that fit. With a limit that is positive and below the largest
  64-bit integer, a body that ends without an error and a context that stays live, the read returns the whole
  content when it is at most as long as the limit, and \<open>ErrLimitExceeded\<close> otherwise; it never returns a
  truncated body.
\<close>

theorem readHTTPBody_exact:
  assumes "0 < limit" and "limit < maxInt64" and "reader_failure r = None" and "ctx_after c = None"
  shows "readHTTPBody c (Some r) limit =
    (if int (length (reader_content r)) \<le> limit then Inr (reader_content r)
     else Inl (Sentinel ErrLimitExceeded))"
  using assms read_limited_ok [OF assms(3), of "nat (limit + 1)"]
  by (auto simp: readHTTPBody_def)

theorem readHTTPBody_exact_witness:
  "readHTTPBody \<lparr>ctx_before = None, ctx_after = None\<rparr> (Some [(''ab'', None), (''c'', None)]) 2
     = Inl (Sentinel ErrLimitExceeded)
   \<and> readHTTPBody \<lparr>ctx_before = None, ctx_after = None\<rparr> (Some [(''ab'', None), (''c'', None)]) 3 = Inr ''abc''"
  using readHTTPBody_exact [of 2 "[(''ab'', None), (''c'', None)]" "\<lparr>ctx_before = None, ctx_after = None\<rparr>"]
    readHTTPBody_exact [of 3 "[(''ab'', None), (''c'', None)]" "\<lparr>ctx_before = None, ctx_after = None\<rparr>"]
  by (simp add: maxInt64_def)

end
