(* ===== verification/CE_Roundtrips.thy ===== *)
theory CE_Roundtrips
  imports CE_Json_Roundtrip CE_Kafka CE_Http
begin

text \<open>
  The bindings read back: structured Kafka records, structured and batched HTTP messages, and the contract of a
  lossless binding interpreted for the JSON format and for each mode of Kafka and HTTP. The properties of the
  wire forms follow: round trips, strict encoders, order independence, metadata of structured messages.
\<close>

section \<open>Structured and batched messages\<close>

lemma JSONMediaType_parsed:
  "parse_media_type JSONMediaType = (JSONMediaType, True)" "to_lower JSONMediaType = JSONMediaType"
  "parse_media_type JSONBatchMediaType = (JSONBatchMediaType, True)" "to_lower JSONBatchMediaType = JSONBatchMediaType"
  by (simp_all add: JSONMediaType_def JSONBatchMediaType_def eval_defs)

lemma EncodeJSON_lossless:
  "json_lossless e \<Longrightarrow> EncodeJSONWithReport e = Inr (encodeJSON e, [])"
  "json_lossless e \<Longrightarrow> EncodeJSON e = Inr (encodeJSON e)"
  by (simp_all add: json_lossless_def EncodeJSON_def EncodeJSONWithReport_def rejectConversionLoss_def)

definition structured_kafka_fits :: "Limits \<Rightarrow> bytes option \<Rightarrow> Event \<Rightarrow> bool" where
  "structured_kafka_fits l key e \<longleftrightarrow> json_lossless e \<and> json_within l e
     \<and> 0 < MaxDataBytes l \<and> 0 < MaxKafkaKeyBytes l \<and> int (length (slice_bytes key)) \<le> MaxKafkaKeyBytes l
     \<and> 0 < MaxKafkaHeaders l \<and> 12 \<le> MaxKafkaHeaderNameBytes l \<and> 28 \<le> MaxKafkaHeaderValueBytes l"

lemma kafka_structured_roundtrip:
  assumes f: "structured_kafka_fits l key e"
  defines "rec \<equiv> \<lparr>kr_Key = key, kr_Value = Some (encodeJSON e), kr_Headers = [kafka_header ''content-type'' JSONMediaType]\<rparr>"
  shows "EncodeKafka e StructuredMode key = Inr rec"
    and "DecodeKafka rec l = Inr \<lparr>km_Mode = StructuredMode, km_Event = sorted_event e, km_Key = key, km_TransportHeaders = []\<rparr>"
proof -
  have e: "json_lossless e" and w: "json_within l e" using f by (simp_all add: structured_kafka_fits_def)
  have c: "cloneBytesPreservingNil key = key"
    by (cases key) (simp_all add: cloneBytesPreservingNil_def cloneBytesPreservingEmpty_def slice_bytes_def)
  show "EncodeKafka e StructuredMode key = Inr rec"
    by (simp add: EncodeKafka_def EncodeKafkaWithReport_def EncodeJSON_lossless [OF e] rejectConversionLoss_def rec_def c)
  have len: "int (length (encodeJSON e)) \<le> MaxEventBytes l" using w by (simp add: json_within_def)
  have "0 < length (encodeJSON e)" by (simp add: encodeJSON_def)
  then have pos: "0 < MaxEventBytes l" using len by linarith
  have a: "0 \<le> MaxAttributes l" using w by (simp add: json_within_def)
  have scan: "scanKafkaHeader l kafka_scan_start (kafka_header ''content-type'' JSONMediaType)
      = Inr (kafka_scan_start\<lparr>ks_contentTypes := [Some JSONMediaType]\<rparr>)"
    using f by (simp add: scanKafkaHeader_def kafka_header_def structured_kafka_fits_def JSONMediaType_def slice_bytes_def
        kafka_scan_start_def valid_utf8_is_ascii)
  have mode: "detectKafkaMode [Some JSONMediaType] = Inr (StructuredMode, JSONMediaType)"
    by (simp add: detectKafkaMode_def slice_bytes_def JSONMediaType_parsed) (simp add: JSONMediaType_def valid_utf8_is_ascii)
  show "DecodeKafka rec l = Inr \<lparr>km_Mode = StructuredMode, km_Event = sorted_event e, km_Key = key, km_TransportHeaders = []\<rparr>"
    using f pos len scan mode DecodeJSON_encodeJSON [OF e w] a
    by (simp add: DecodeKafka_def rec_def kafkaAdmission_def structured_kafka_fits_def decodeKafkaStructured_def
        kafka_scan_start_def validateStructuredKafkaMetadata_def c)
qed

definition structured_http_fits :: "Limits \<Rightarrow> Event \<Rightarrow> bool" where
  "structured_http_fits l e \<longleftrightarrow> json_lossless e \<and> json_within l e
     \<and> MaxEventBytes l < maxInt64 \<and> 28 \<le> MaxAttributeValueBytes l"

lemma read_body:
  "int (length b) \<le> m \<Longrightarrow> 0 < m \<Longrightarrow> m < maxInt64 \<Longrightarrow> readHTTPBody live_context (body_reader (Some b)) m = Inr b"
  by (auto simp: readHTTPBody_def body_reader_def live_context_def)

lemma http_structured_roundtrip:
  assumes f: "structured_http_fits l e"
  defines "header \<equiv> header_set ''Content-Type'' JSONMediaType []"
  shows "EncodeHTTP [e] StructuredMode = Inr (header, Some (encodeJSON e))"
    and "DecodeHTTP (Some live_context) header (body_reader (Some (encodeJSON e))) l
      = Inr \<lparr>hm_Mode = StructuredMode, hm_Events = [sorted_event e]\<rparr>"
proof -
  have e: "json_lossless e" and w: "json_within l e" using f by (simp_all add: structured_http_fits_def)
  show "EncodeHTTP [e] StructuredMode = Inr (header, Some (encodeJSON e))"
    by (simp add: EncodeHTTP_def EncodeHTTPWithReport_def EncodeJSON_lossless [OF e] rejectConversionLoss_def header_def)
  have h: "header = [(''Content-Type'', [JSONMediaType])]" by (simp add: header_def eval_defs)
  have len: "int (length (encodeJSON e)) \<le> MaxEventBytes l" using w by (simp add: json_within_def)
  have "0 < length (encodeJSON e)" by (simp add: encodeJSON_def)
  then have pos: "0 < MaxEventBytes l" using len by linarith
  have s: "singleHeaderValue header ''Content-Type'' = (JSONMediaType, 1)"
    by (simp add: h singleHeaderValue_def countHeaderValue_def eval_defs)
  have mode: "detectHTTPMode header l = Inr (StructuredMode, JSONMediaType)"
    using f by (simp add: detectHTTPMode_def s JSONMediaType_parsed structured_http_fits_def) (simp add: JSONMediaType_def)
  have "cloudEventsHTTPAttributeName ''Content-Type'' = None" by (simp add: eval_defs)
  then have "validateStructuredHTTPMetadata header x l = Inr ()" for x
    by (simp add: h validateStructuredHTTPMetadata_def checkStructuredHTTPHeader_def)
  then show "DecodeHTTP (Some live_context) header (body_reader (Some (encodeJSON e))) l
      = Inr \<lparr>hm_Mode = StructuredMode, hm_Events = [sorted_event e]\<rparr>"
    using mode read_body [OF len pos] f DecodeJSON_encodeJSON [OF e w]
    by (simp add: DecodeHTTP_def live_context_def structured_http_fits_def)
qed

definition batch_http_fits :: "Limits \<Rightarrow> Event list \<Rightarrow> bool" where
  "batch_http_fits l es \<longleftrightarrow> list_all json_lossless es \<and> json_batch_within l es
     \<and> MaxEventBytes l < maxInt64 \<and> 34 \<le> MaxAttributeValueBytes l"

lemma http_batch_roundtrip:
  assumes f: "batch_http_fits l es"
  defines "header \<equiv> header_set ''Content-Type'' JSONBatchMediaType []"
    and "body \<equiv> ''['' @ writeItems 0 (map encodeJSON es) @ '']''"
  shows "EncodeHTTP es BatchMode = Inr (header, Some body)"
    and "DecodeHTTP (Some live_context) header (body_reader (Some body)) l
      = Inr \<lparr>hm_Mode = BatchMode, hm_Events = map sorted_event es\<rparr>"
proof -
  have e: "\<forall>e\<in>set es. json_lossless e" and w: "json_batch_within l es"
    using f by (simp_all add: batch_http_fits_def list_all_iff)
  have "EncodeJSONBatchWithReport es = Inr (body, [])"
    using json_batch_encoder.strict_Inr EncodeJSONBatch_lossless [OF e] by (simp add: body_def)
  then show "EncodeHTTP es BatchMode = Inr (header, Some body)"
    by (simp add: EncodeHTTP_def EncodeHTTPWithReport_def rejectConversionLoss_def header_def)
  have h: "header = [(''Content-Type'', [JSONBatchMediaType])]" by (simp add: header_def eval_defs)
  have len: "int (length body) \<le> MaxEventBytes l" using w unfolding json_batch_within_def body_def by blast
  then have pos: "0 < MaxEventBytes l" by (simp add: body_def)
  have s: "singleHeaderValue header ''Content-Type'' = (JSONBatchMediaType, 1)"
    by (simp add: h singleHeaderValue_def countHeaderValue_def eval_defs)
  have mode: "detectHTTPMode header l = Inr (BatchMode, JSONBatchMediaType)"
    using f by (simp add: detectHTTPMode_def s JSONMediaType_parsed batch_http_fits_def) (simp add: JSONBatchMediaType_def JSONMediaType_def)
  have "\<not> hasCloudEventsHTTPHeader header"
    by (simp add: h hasCloudEventsHTTPHeader_def eval_defs)
  then show "DecodeHTTP (Some live_context) header (body_reader (Some body)) l
      = Inr \<lparr>hm_Mode = BatchMode, hm_Events = map sorted_event es\<rparr>"
    using mode read_body [OF len pos] f DecodeJSONBatch_encoded [OF e w, folded body_def]
    by (simp add: DecodeHTTP_def live_context_def batch_http_fits_def)
qed

definition json_sample :: Event where
  "json_sample = \<lparr>ev_id = ''1'', ev_source = ''/s'', ev_type = ''t'', ev_dataContentType = ''application/json'',
     ev_dataSchema = '''', ev_subject = ''p'', ev_time = zero_time, ev_hasTime = False,
     ev_extensions = [(''b'', text_attribute ''x''),
       (''a'', \<lparr>attr_kind = AttributeInteger, attr_text = ''7'', attr_bytes = []\<rparr>)],
     ev_data = \<lparr>data_kind = DataJSON, data_present = True, data_bytes = ''{}''\<rparr>\<rparr>"

lemma json_sample_valid: "valid_event json_sample"
  unfolding valid_event_def
proof
  show "event_wf json_sample"
    by (simp add: event_wf_def json_sample_def data_ok_def plain_map_def wf_map_def plain_bytes_def text_attribute_def
        json_valid_def parse_json_empty_object)
  show "valid_context (event_attributes json_sample)"
    by (simp add: valid_context_def json_sample_def event_attributes_def text_attribute_def valid_extension_def
      selected_ok_def isReservedAttributeName_def reservedAttributeNames_def validAttribute_def char_of_eqI eval_defs)
qed

lemma json_sample_report: "jsonConversionReport json_sample = []"
  unfolding jsonConversionReport_Nil by (simp add: json_sample_def text_attribute_def eval_defs)

lemma json_sample_lossless: "json_lossless json_sample"
  by (simp add: json_lossless_def json_sample_valid json_sample_report)
    (simp add: json_sample_def valid_utf8_is_ascii)

lemma json_sample_depth: "data_depth json_sample = 1"
  by (simp add: data_depth_def json_sample_def tree_of_def parse_json_empty_object)

lemma json_sample_length: "length (encodeJSON json_sample) \<le> 200"
  by (simp add: json_sample_def text_attribute_def eval_defs)

lemma json_sample_count: "countJSONAttributes (jsonMembers json_sample) = 8"
  by (simp add: json_sample_def text_attribute_def countJSONAttributes_filter jsonMembers_def standardMembers_def
      stringMemberText_def extensionMember_def dataMember_def)

lemma json_sample_within: "json_within DefaultLimits json_sample"
  unfolding json_within_def json_sample_depth json_sample_count
  using json_sample_length
  by (simp add: json_sample_def text_attribute_def max_nesting_def specVersion_def)

definition binary_sample :: Event where
  "binary_sample = json_sample\<lparr>ev_extensions := [(''b'', text_attribute ''x'')]\<rparr>"

lemma binary_sample_valid: "valid_event binary_sample"
  unfolding valid_event_def
proof
  show "event_wf binary_sample"
    by (simp add: event_wf_def binary_sample_def json_sample_def data_ok_def plain_map_def wf_map_def plain_bytes_def
        text_attribute_def json_valid_def parse_json_empty_object)
  show "valid_context (event_attributes binary_sample)"
    by (simp add: valid_context_def binary_sample_def json_sample_def event_attributes_def text_attribute_def
        valid_extension_def selected_ok_def isReservedAttributeName_def reservedAttributeNames_def validAttribute_def eval_defs)
qed

lemma binary_sample_lossless: "binary_lossless binary_sample"
proof -
  have "binaryConversionReport binary_sample = []"
    unfolding binaryConversionReport_Nil by (simp add: binary_sample_def json_sample_def text_attribute_def eval_defs)
  moreover have "\<not> has_prefix (to_lower (fst (parse_media_type (ev_dataContentType binary_sample)))) ''application/cloudevents''"
    by (simp add: binary_sample_def json_sample_def eval_defs)
  ultimately show ?thesis
    by (simp add: binary_lossless_def binary_sample_valid) (simp add: binary_sample_def json_sample_def valid_utf8_is_ascii)
qed

lemma binary_sample_entries: "contextEntries binary_sample =
  [(''specversion'', ''1.0''), (''id'', ''1''), (''source'', ''/s''), (''type'', ''t''), (''subject'', ''p''), (''b'', ''x'')]"
  by (simp add: binary_sample_def json_sample_def text_attribute_def contextEntries_def optional_entry_def
      Event_SpecVersion_def specVersion_def Attribute_String_def)

lemma binary_sample_within: "binary_within DefaultLimits binary_sample"
  by (simp add: binary_within_def binary_sample_entries) (simp add: binary_sample_def json_sample_def)

lemma binary_sample_headers:
  "list_all (header_admitted DefaultLimits) (encodeKafkaBinaryHeaders binary_sample)"
  "length (encodeKafkaBinaryHeaders binary_sample) = 7"
proof -
  have d: "ev_dataContentType binary_sample = ''application/json''" by (simp add: binary_sample_def json_sample_def)
  show "list_all (header_admitted DefaultLimits) (encodeKafkaBinaryHeaders binary_sample)"
    unfolding encodeKafkaBinaryHeaders_def list_all_iff set_sort binary_sample_entries d
    by (simp add: header_admitted_def kafka_header_def valid_utf8_is_ascii slice_bytes_def)
  show "length (encodeKafkaBinaryHeaders binary_sample) = 7"
    unfolding encodeKafkaBinaryHeaders_def length_sort binary_sample_entries d by simp
qed

lemma kafka_sample_fits: "kafka_fits DefaultLimits (Some ''k'') binary_sample"
  unfolding kafka_fits_def
  by (simp add: binary_sample_lossless binary_sample_within binary_sample_headers slice_bytes_def)

lemma http_sample_fits: "http_fits DefaultLimits binary_sample"
  unfolding http_fits_def
  by (simp add: binary_sample_lossless binary_sample_within binary_sample_entries maxInt64_def)
    (simp add: binary_sample_def json_sample_def)

section \<open>Contracts\<close>

interpretation json_binding: lossless_binding EncodeJSON "\<lambda>l w. DecodeJSON w l" "\<lambda>l e. json_lossless e \<and> json_within l e"
  by unfold_locales
    (metis DecodeJSON_encodeJSON EncodeJSON_lossless(2) json_losslessD(1) same_sorted_event(1))

interpretation kafka_binary: lossless_binding "\<lambda>e. EncodeKafka e BinaryMode key"
    "\<lambda>l rec. and_then (DecodeKafka rec l) (\<lambda>m. Inr (km_Event m))" "\<lambda>l. kafka_fits l key" for key
  by unfold_locales (elim kafka_binary_roundtrip, auto)

interpretation kafka_structured: lossless_binding "\<lambda>e. EncodeKafka e StructuredMode key"
    "\<lambda>l rec. and_then (DecodeKafka rec l) (\<lambda>m. Inr (km_Event m))" "\<lambda>l. structured_kafka_fits l key" for key
proof unfold_locales
  fix l e assume f: "structured_kafka_fits l key e"
  then have "same_event e (sorted_event e)"
    by (simp add: structured_kafka_fits_def json_losslessD(1) same_sorted_event(1))
  then show "\<exists>w e'. EncodeKafka e StructuredMode key = Inr w
      \<and> and_then (DecodeKafka w l) (\<lambda>m. Inr (km_Event m)) = Inr e' \<and> same_event e e'"
    using kafka_structured_roundtrip [OF f] by auto
qed

abbreviation http_event :: "Limits \<Rightarrow> http_header \<times> bytes option \<Rightarrow> Event result" where
  "http_event l w \<equiv> and_then (DecodeHTTP (Some live_context) (fst w) (body_reader (snd w)) l) (\<lambda>m. Inr (hd (hm_Events m)))"

interpretation http_binary: lossless_binding "\<lambda>e. EncodeHTTP [e] BinaryMode" http_event http_fits
  by unfold_locales (elim http_binary_roundtrip, auto)

interpretation http_structured: lossless_binding "\<lambda>e. EncodeHTTP [e] StructuredMode" http_event structured_http_fits
proof unfold_locales
  fix l e assume f: "structured_http_fits l e"
  then have "same_event e (sorted_event e)"
    by (simp add: structured_http_fits_def json_losslessD(1) same_sorted_event(1))
  then show "\<exists>w e'. EncodeHTTP [e] StructuredMode = Inr w \<and> http_event l w = Inr e' \<and> same_event e e'"
    using http_structured_roundtrip [OF f] by auto
qed

definition kafka_sample :: KafkaRecord where
  "kafka_sample = \<lparr>kr_Key = None, kr_Value = Some (encodeJSON json_sample),
     kr_Headers = [kafka_header ''content-type'' JSONMediaType, kafka_header ''ce_id'' ''1'',
       kafka_header ''ce_subject'' ''p'', \<lparr>kh_Key = ''trace'', kh_Value = None\<rparr>]\<rparr>"

lemma json_sample_metadata:
  "map_of (expectedMetadata (sorted_event json_sample)) ''id'' = Some ''1''"
  "map_of (expectedMetadata (sorted_event json_sample)) ''subject'' = Some ''p''"
  unfolding expectedMetadata_iff [OF same_sorted_event(2) [OF json_sample_valid]]
  using carries.id [of "sorted_event json_sample"] carries.subject [of "sorted_event json_sample"]
  by (simp_all add: sorted_event_def json_sample_def)

lemma DecodeKafka_sample:
  "DecodeKafka kafka_sample DefaultLimits = Inr \<lparr>km_Mode = StructuredMode, km_Event = sorted_event json_sample,
     km_Key = None, km_TransportHeaders = [\<lparr>kh_Key = ''trace'', kh_Value = None\<rparr>]\<rparr>"
proof -
  let ?s = "\<lparr>ks_contentTypes = [Some JSONMediaType], ks_cloudEventHeaders = [(''id'', [Some ''1'']), (''subject'', [Some ''p''])],
    ks_transportHeaders = [\<lparr>kh_Key = ''trace'', kh_Value = None\<rparr>]\<rparr>"
  have scan: "fold_result (scanKafkaHeader DefaultLimits) kafka_scan_start (kr_Headers kafka_sample) = Inr ?s"
    by (simp add: kafka_sample_def scanKafkaHeader_def kafka_header_def slice_bytes_def kafka_scan_start_def
        valid_utf8_is_ascii append_value_def has_prefix_def trim_prefix_def) (simp add: JSONMediaType_def)
  have mode: "detectKafkaMode [Some JSONMediaType] = Inr (StructuredMode, JSONMediaType)"
    by (simp add: detectKafkaMode_def slice_bytes_def JSONMediaType_parsed) (simp add: JSONMediaType_def valid_utf8_is_ascii)
  have "validateStructuredKafkaMetadata [(''id'', [Some ''1'']), (''subject'', [Some ''p''])] (sorted_event json_sample) DefaultLimits = Inr ()"
    by (simp add: validateStructuredKafkaMetadata_def checkStructuredKafkaHeader_def kafkaHeaderValue_def slice_bytes_def
        valid_utf8_is_ascii json_sample_metadata)
  then have "decodeKafkaStructured (kr_Value kafka_sample) [(''id'', [Some ''1'']), (''subject'', [Some ''p''])] DefaultLimits
      = Inr (sorted_event json_sample)"
    using DecodeJSON_encodeJSON [OF json_sample_lossless json_sample_within] json_sample_length
    by (simp add: decodeKafkaStructured_def kafka_sample_def)
  moreover have "kafkaAdmission kafka_sample DefaultLimits" "kr_Key kafka_sample = None"
    by (simp_all add: kafkaAdmission_def kafka_sample_def slice_bytes_def)
  ultimately show ?thesis by (simp add: DecodeKafka_def scan mode)
qed

definition http_sample :: http_header where
  "http_sample = [(''Content-Type'', [JSONMediaType]), (''CE-ID'', [''%31'']), (''ce-subject'', [''p''])]"

lemma DecodeHTTP_sample:
  "DecodeHTTP (Some live_context) http_sample (body_reader (Some (encodeJSON json_sample))) DefaultLimits
    = Inr \<lparr>hm_Mode = StructuredMode, hm_Events = [sorted_event json_sample]\<rparr>"
proof -
  have s: "singleHeaderValue http_sample ''Content-Type'' = (JSONMediaType, 1)"
    by (simp add: http_sample_def singleHeaderValue_def countHeaderValue_def eval_defs)
  have mode: "detectHTTPMode http_sample DefaultLimits = Inr (StructuredMode, JSONMediaType)"
    by (simp add: detectHTTPMode_def s JSONMediaType_parsed) (simp add: JSONMediaType_def)
  have "cloudEventsHTTPAttributeName ''Content-Type'' = None" "cloudEventsHTTPAttributeName ''CE-ID'' = Some ''ID''"
    "cloudEventsHTTPAttributeName ''ce-subject'' = Some ''subject''" "to_lower ''ID'' = ''id''"
    "to_lower ''subject'' = ''subject''" "decodeHTTPAttribute ''%31'' = Inr ''1''" "decodeHTTPAttribute ''p'' = Inr ''p''"
    by (simp_all add: eval_defs char_of_eqI)
  moreover have "\<not> exceedsHTTPEncodedAttributeLimit ''%31'' 16384" "\<not> exceedsHTTPEncodedAttributeLimit ''p'' 16384"
    by (subst exceedsHTTPEncodedAttributeLimit_iff; simp add: maxInt64_def)+
  ultimately have "validateStructuredHTTPMetadata http_sample (sorted_event json_sample) DefaultLimits = Inr ()"
    by (simp add: http_sample_def validateStructuredHTTPMetadata_def checkStructuredHTTPHeader_def
        validateStructuredHTTPHeader_def json_sample_metadata)
  then show ?thesis
    using mode read_body [of "encodeJSON json_sample" 1048576] json_sample_length
      DecodeJSON_encodeJSON [OF json_sample_lossless json_sample_within]
    by (simp add: DecodeHTTP_def live_context_def maxInt64_def)
qed

lemma json_sample_lossy: "binaryConversionReport json_sample
    = [Loss ''extensions.a'' ''abstract extension type normalizes to a protocol string'']"
  by (simp add: json_sample_def text_attribute_def eval_defs)

section \<open>Properties\<close>

text \<open>
  C1. JSON round trip. An event whose JSON conversion report is empty, whose time has a four digit year and that
  fits the limits is encoded by the strict encoder, and \<open>DecodeJSON\<close> returns that event again, with its
  extensions in the order of their names.
\<close>

theorem EncodeJSON_roundtrip:
  assumes "json_lossless e" and "json_within l e"
  shows "\<exists>w. EncodeJSON e = Inr w \<and> DecodeJSON w l = Inr (sorted_event e) \<and> same_event e (sorted_event e)"
  using EncodeJSON_lossless(2) [OF assms(1)] DecodeJSON_encodeJSON [OF assms]
    same_sorted_event(1) [OF json_losslessD(1) [OF assms(1)]] by blast

theorem EncodeJSON_roundtrip_witness:
  "json_lossless json_sample \<and> json_within DefaultLimits json_sample
   \<and> (\<exists>w. EncodeJSON json_sample = Inr w \<and> DecodeJSON w DefaultLimits = Inr (sorted_event json_sample))"
  using EncodeJSON_roundtrip [OF json_sample_lossless json_sample_within] json_sample_lossless json_sample_within by blast

text \<open>
  C11. Batch round trip, the empty batch included: events that are lossless in JSON and fit the limits are encoded
  as one array, and \<open>DecodeJSONBatch\<close> returns the same events in the same order.
\<close>

theorem EncodeJSONBatch_roundtrip:
  assumes "\<forall>e\<in>set es. json_lossless e" and "json_batch_within l es"
  shows "\<exists>w. EncodeJSONBatch es = Inr w \<and> DecodeJSONBatch w l = Inr (map sorted_event es)
    \<and> list_all2 same_event es (map sorted_event es)"
  using EncodeJSONBatch_lossless [OF assms(1)] DecodeJSONBatch_encoded [OF assms]
    same_sorted_event(1) json_losslessD(1) assms(1) by (auto simp: list_all2_map2 list.rel_refl_strong)

lemma json_sample_batch: "json_batch_within DefaultLimits [json_sample]"
  unfolding json_batch_within_def
  using json_sample_length json_sample_within
  by (simp add: json_sample_depth max_nesting_def maxInt64_def)

theorem EncodeJSONBatch_roundtrip_witness:
  "json_batch_within DefaultLimits [json_sample]
   \<and> (\<exists>w. EncodeJSONBatch [json_sample] = Inr w \<and> DecodeJSONBatch w DefaultLimits = Inr [sorted_event json_sample])"
  using EncodeJSONBatch_roundtrip [of "[json_sample]" DefaultLimits] json_sample_lossless json_sample_batch by auto

text \<open>
  C6. Kafka binary round trip. An event that the binary mode carries without loss and that fits the limits is
  encoded, and \<open>DecodeKafka\<close> returns the same event in binary mode, with the record key unchanged and no
  transport header; the value is nil exactly when the event has no data.
\<close>

theorem EncodeKafka_binary_roundtrip:
  assumes "kafka_fits l key e"
  shows "\<exists>rec e'. EncodeKafka e BinaryMode key = Inr rec
    \<and> (kr_Value rec = None \<longleftrightarrow> \<not> data_present (ev_data e))
    \<and> DecodeKafka rec l = Inr \<lparr>km_Mode = BinaryMode, km_Event = e', km_Key = key, km_TransportHeaders = []\<rparr>
    \<and> same_event e e'"
proof -
  obtain rec e' where r: "EncodeKafka e BinaryMode key = Inr rec"
    "DecodeKafka rec l = Inr \<lparr>km_Mode = BinaryMode, km_Event = e', km_Key = key, km_TransportHeaders = []\<rparr>"
    "same_event e e'" using kafka_binary_roundtrip [OF assms] .
  moreover have "kr_Value rec = None \<longleftrightarrow> \<not> data_present (ev_data e)"
    using r(1) by (auto simp: EncodeKafka_def EncodeKafkaWithReport_def)
  ultimately show ?thesis by (intro exI [of _ rec] exI [of _ e']) simp
qed

theorem EncodeKafka_binary_roundtrip_witness:
  "\<exists>rec e'. EncodeKafka binary_sample BinaryMode (Some ''k'') = Inr rec
    \<and> DecodeKafka rec DefaultLimits
      = Inr \<lparr>km_Mode = BinaryMode, km_Event = e', km_Key = Some ''k'', km_TransportHeaders = []\<rparr>
    \<and> same_event binary_sample e'"
  using EncodeKafka_binary_roundtrip [OF kafka_sample_fits] by blast

text \<open>
  C13. Kafka structured round trip: \<open>DecodeKafka\<close> recognises the structured record that \<open>EncodeKafka\<close> makes of an
  event that is lossless in JSON, and returns that event and the key.
\<close>

theorem EncodeKafka_structured_roundtrip:
  assumes "structured_kafka_fits l key e"
  shows "\<exists>rec. EncodeKafka e StructuredMode key = Inr rec
    \<and> DecodeKafka rec l
      = Inr \<lparr>km_Mode = StructuredMode, km_Event = sorted_event e, km_Key = key, km_TransportHeaders = []\<rparr>"
  using kafka_structured_roundtrip [OF assms] by blast

theorem EncodeKafka_structured_roundtrip_witness:
  "\<exists>rec. EncodeKafka json_sample StructuredMode None = Inr rec
    \<and> DecodeKafka rec DefaultLimits
      = Inr \<lparr>km_Mode = StructuredMode, km_Event = sorted_event json_sample, km_Key = None, km_TransportHeaders = []\<rparr>"
  using EncodeKafka_structured_roundtrip [of DefaultLimits None json_sample] json_sample_lossless json_sample_within
  by (simp add: structured_kafka_fits_def slice_bytes_def)

text \<open>
  C7. HTTP binary round trip. An event that the binary mode carries without loss and that fits the limits is
  encoded into headers and a body from which \<open>DecodeHTTP\<close>, with a live context, returns the same event; the
  percent encoding of the values is undone.
\<close>

theorem EncodeHTTP_binary_roundtrip:
  assumes "http_fits l e"
  shows "\<exists>header body e'. EncodeHTTP [e] BinaryMode = Inr (header, body)
    \<and> DecodeHTTP (Some live_context) header (body_reader body) l = Inr \<lparr>hm_Mode = BinaryMode, hm_Events = [e']\<rparr>
    \<and> same_event e e'"
  using http_binary_roundtrip [OF assms] by blast

theorem EncodeHTTP_binary_roundtrip_witness:
  "\<exists>header body e'. EncodeHTTP [binary_sample] BinaryMode = Inr (header, body)
    \<and> DecodeHTTP (Some live_context) header (body_reader body) DefaultLimits
      = Inr \<lparr>hm_Mode = BinaryMode, hm_Events = [e']\<rparr> \<and> same_event binary_sample e'"
  by (rule EncodeHTTP_binary_roundtrip [OF http_sample_fits])

text \<open>
  C14. HTTP structured round trip, for one event that is lossless in JSON.
\<close>

theorem EncodeHTTP_structured_roundtrip:
  assumes "structured_http_fits l e"
  shows "\<exists>header body. EncodeHTTP [e] StructuredMode = Inr (header, Some body)
    \<and> DecodeHTTP (Some live_context) header (body_reader (Some body)) l
      = Inr \<lparr>hm_Mode = StructuredMode, hm_Events = [sorted_event e]\<rparr>"
  using http_structured_roundtrip [OF assms] by blast

theorem EncodeHTTP_structured_roundtrip_witness:
  "\<exists>header body. EncodeHTTP [json_sample] StructuredMode = Inr (header, Some body)
    \<and> DecodeHTTP (Some live_context) header (body_reader (Some body)) DefaultLimits
      = Inr \<lparr>hm_Mode = StructuredMode, hm_Events = [sorted_event json_sample]\<rparr>"
  using EncodeHTTP_structured_roundtrip [of DefaultLimits json_sample] json_sample_lossless json_sample_within
  by (simp add: structured_http_fits_def maxInt64_def)

text \<open>
  C15. HTTP batch round trip: the events of a batch, none or more, come back in their order.
\<close>

theorem EncodeHTTP_batch_roundtrip:
  assumes "batch_http_fits l es"
  shows "\<exists>header body. EncodeHTTP es BatchMode = Inr (header, Some body)
    \<and> DecodeHTTP (Some live_context) header (body_reader (Some body)) l
      = Inr \<lparr>hm_Mode = BatchMode, hm_Events = map sorted_event es\<rparr>"
  using http_batch_roundtrip [OF assms] by blast

theorem EncodeHTTP_batch_roundtrip_witness:
  "\<exists>header body. EncodeHTTP [json_sample] BatchMode = Inr (header, Some body)
    \<and> DecodeHTTP (Some live_context) header (body_reader (Some body)) DefaultLimits
      = Inr \<lparr>hm_Mode = BatchMode, hm_Events = [sorted_event json_sample]\<rparr>"
  using EncodeHTTP_batch_roundtrip [of DefaultLimits "[json_sample]"] json_sample_lossless json_sample_batch
  by (simp add: batch_http_fits_def maxInt64_def)

text \<open>
  C18. The strict encoders refuse exactly the lossy conversions: each succeeds with the wire form of its reporting encoder
  when that encoder reports no loss, and fails in every other case.
\<close>

theorem strict_encoders_lossless:
  "(EncodeJSON e = Inr w \<longleftrightarrow> EncodeJSONWithReport e = Inr (w, []))
   \<and> (EncodeJSONBatch es = Inr w \<longleftrightarrow> EncodeJSONBatchWithReport es = Inr (w, []))
   \<and> (EncodeKafka e mode key = Inr rec \<longleftrightarrow> EncodeKafkaWithReport e mode key = Inr (rec, []))
   \<and> (EncodeHTTP es mode = Inr (header, body) \<longleftrightarrow> EncodeHTTPWithReport es mode = Inr (header, body, []))"
  using json_encoder.strict_Inr json_batch_encoder.strict_Inr kafka_encoder.strict_Inr [of "(e, mode, key)"]
    http_encoder.strict_Inr [of "(es, mode)" "(header, body)"] by auto

text \<open>
  C19. A refused conversion is reported by its least field: when the reporting encoder succeeds with losses, the strict
  encoder fails with \<open>ErrConversionLoss\<close> naming the field of the least loss.
\<close>

theorem strict_encoders_name_least_loss:
  assumes "r \<noteq> []"
  shows "(EncodeJSONWithReport e = Inr (w, r) \<longrightarrow>
      EncodeJSON e = Inl (Errorf ErrConversionLoss (loss_field (Min (set r)))))
    \<and> (EncodeKafkaWithReport e mode key = Inr (rec, r) \<longrightarrow>
      EncodeKafka e mode key = Inl (Errorf ErrConversionLoss (loss_field (Min (set r)))))
    \<and> (EncodeHTTPWithReport es mode = Inr (header, body, r) \<longrightarrow>
      EncodeHTTP es mode = Inl (Errorf ErrConversionLoss (loss_field (Min (set r)))))"
  using json_encoder.strict_loss [OF _ assms] kafka_encoder.strict_loss [of "(e, mode, key)", OF _ assms]
    http_encoder.strict_loss [of "(es, mode)" "(header, body)", OF _ assms] by auto

theorem strict_encoders_name_least_loss_witness:
  "EncodeKafka json_sample BinaryMode None = Inl (Errorf ErrConversionLoss ''extensions.a'')"
proof -
  let ?r = "[Loss ''extensions.a'' ''abstract extension type normalizes to a protocol string'']"
  obtain rec where "EncodeKafkaWithReport json_sample BinaryMode None = Inr (rec, ?r)"
    by (simp add: EncodeKafkaWithReport_def json_sample_valid json_sample_lossy)
  then show ?thesis
    using strict_encoders_name_least_loss [of ?r json_sample "[]" BinaryMode None rec "[]" "[]" None] by simp
qed

text \<open>
  C20. Encoding does not depend on the iteration order of the extension map: the JSON text, the Kafka headers and the
  reports are the same for every order.
\<close>

theorem encoders_order_independent:
  assumes "valid_event e" and "mset xs = mset (ev_extensions e)"
  shows "EncodeJSONWithReport (e\<lparr>ev_extensions := xs\<rparr>) = EncodeJSONWithReport e
    \<and> EncodeKafkaWithReport (e\<lparr>ev_extensions := xs\<rparr>) mode key = EncodeKafkaWithReport e mode key"
proof -
  have "Event_Validate (e\<lparr>ev_extensions := xs\<rparr>) = Event_Validate e"
    using assms valid_event_perm [OF assms] by simp
  moreover from this have "EncodeJSONWithReport (e\<lparr>ev_extensions := xs\<rparr>) = EncodeJSONWithReport e"
    by (simp add: EncodeJSONWithReport_def encodeJSON_perm [OF assms] jsonConversionReport_perm [OF assms(2)])
  ultimately show ?thesis
    by (simp add: EncodeKafkaWithReport_def encodeKafkaBinaryHeaders_perm [OF assms]
        binaryConversionReport_perm [OF assms(2)] split: ContentMode.split)
qed

theorem encoders_order_independent_witness:
  "EncodeJSONWithReport (json_sample\<lparr>ev_extensions := rev (ev_extensions json_sample)\<rparr>) = EncodeJSONWithReport json_sample"
  using encoders_order_independent [OF json_sample_valid] by simp

text \<open>
  C21. Transport headers and the key pass through: in both modes the message keeps the key of the record and, in
  their order and with their nil or empty values, exactly the headers that are neither \<open>content-type\<close> nor owned by
  CloudEvents.
\<close>

theorem DecodeKafka_keeps_transport:
  assumes "DecodeKafka rec l = Inr m"
  shows "km_Key m = kr_Key rec
    \<and> km_TransportHeaders m =
      filter (\<lambda>h. kh_Key h \<noteq> ''content-type'' \<and> \<not> has_prefix (kh_Key h) ''ce_'') (kr_Headers rec)"
  using DecodeKafka_Inr(1,2) [OF assms] by (simp add: ce_header_def)

theorem DecodeKafka_keeps_transport_witness:
  "\<exists>m. DecodeKafka kafka_sample DefaultLimits = Inr m \<and> km_TransportHeaders m = [\<lparr>kh_Key = ''trace'', kh_Value = None\<rparr>]"
  using DecodeKafka_keeps_transport [OF DecodeKafka_sample] DecodeKafka_sample by simp

text \<open>
  C16. Metadata cannot contradict a structured event: when \<open>DecodeKafka\<close> accepts a structured record, every
  \<open>ce_\<close> header is the only one for its attribute and its value is the text of that field of the decoded event.
\<close>

theorem DecodeKafka_structured_agrees:
  assumes "DecodeKafka rec l = Inr m" and "km_Mode m = StructuredMode"
    and "h \<in> set (kr_Headers rec)" and "has_prefix (kh_Key h) ''ce_''"
  shows "carries (km_Event m) (trim_prefix (kh_Key h) ''ce_'') (slice_bytes (kh_Value h))
    \<and> filter (\<lambda>g. has_prefix (kh_Key g) ''ce_'' \<and> trim_prefix (kh_Key g) ''ce_'' = trim_prefix (kh_Key h) ''ce_'')
        (kr_Headers rec) = [h]"
  using structured_header_agrees [OF assms(1-3)] assms(4) by (simp add: ce_header_def)

theorem DecodeKafka_structured_agrees_witness:
  "\<exists>m. DecodeKafka kafka_sample DefaultLimits = Inr m \<and> km_Mode m = StructuredMode
    \<and> kafka_header ''ce_subject'' ''p'' \<in> set (kr_Headers kafka_sample)
    \<and> carries (km_Event m) ''subject'' ''p'' \<and> ev_subject (km_Event m) = ''p''"
proof -
  have h: "kafka_header ''ce_subject'' ''p'' \<in> set (kr_Headers kafka_sample)" by (simp add: kafka_sample_def)
  have c: "carries (sorted_event json_sample) ''subject'' ''p''"
    using DecodeKafka_structured_agrees [OF DecodeKafka_sample _ h]
    by (simp add: kafka_header_def has_prefix_def trim_prefix_def slice_bytes_def)
  have "ev_subject (sorted_event json_sample) = ''p''" by (simp add: sorted_event_def json_sample_def)
  then show ?thesis using DecodeKafka_sample c h by simp
qed

text \<open>
  C17. The same for HTTP: when \<open>DecodeHTTP\<close> accepts a structured request, every \<open>ce-\<close> header, whatever its case, has one value
  and decodes to the text of that field of the event.
\<close>

theorem DecodeHTTP_structured_agrees:
  assumes "DecodeHTTP ctx header body l = Inr m" and "hm_Mode m = StructuredMode"
    and "(name, vs) \<in> set header" and "cloudEventsHTTPAttributeName name = Some rawName"
  shows "\<exists>e w v. hm_Events m = [e] \<and> vs = [w] \<and> decodeHTTPAttribute w = Inr v
    \<and> carries e (to_lower rawName) v"
  using assms by (rule structured_field_agrees)

theorem DecodeHTTP_structured_agrees_witness:
  "\<exists>m e v. DecodeHTTP (Some live_context) http_sample (body_reader (Some (encodeJSON json_sample))) DefaultLimits = Inr m
    \<and> hm_Mode m = StructuredMode \<and> hm_Events m = [e] \<and> (''CE-ID'', [''%31'']) \<in> set http_sample
    \<and> decodeHTTPAttribute ''%31'' = Inr v \<and> carries e ''id'' v \<and> ev_id e = ''1''"
proof -
  have n: "cloudEventsHTTPAttributeName ''CE-ID'' = Some ''ID''" "to_lower ''ID'' = ''id''"
    by (simp_all add: eval_defs char_of_eqI)
  have h: "(''CE-ID'', [''%31'']) \<in> set http_sample" by (simp add: http_sample_def)
  have "ev_id (sorted_event json_sample) = ''1''" by (simp add: sorted_event_def json_sample_def)
  then show ?thesis
    using DecodeHTTP_structured_agrees [OF DecodeHTTP_sample _ h n(1)] n(2) h DecodeHTTP_sample by auto
qed

end
