(* ===== verification/CE_Adapter.thy ===== *)
theory CE_Adapter
  imports CE_Conversion
begin

text \<open>
  \<open>internal/adapter/adapter.go\<close>: what the adapters to the surrounding libraries share. A nil slice, map or
  pointer is \<open>None\<close>. A report is appended to, so the operations that take a pointer to one return it.
\<close>

definition CorrelationIDExtension :: bytes where
  "CorrelationIDExtension = ''correlationid''"

definition RequestIDExtension :: bytes where
  "RequestIDExtension = ''requestid''"

definition CausationIDExtension :: bytes where
  "CausationIDExtension = ''causationid''"

definition TenantIDExtension :: bytes where
  "TenantIDExtension = ''tenantid''"

section \<open>Extensions\<close>

definition AttributesEqual :: "Attribute \<Rightarrow> Attribute \<Rightarrow> bool" where
  "AttributesEqual left right \<longleftrightarrow>
     Attribute_Kind left = Attribute_Kind right \<and> Attribute_String left = Attribute_String right
     \<and> slice_bytes (Attribute_Bytes left) = slice_bytes (Attribute_Bytes right)"

definition RebuildEvent :: "Event \<Rightarrow> (bytes, Attribute) gomap \<Rightarrow> Event result" where
  "RebuildEvent e extensions =
     (let (timeValue, hasTime) = Event_Time e in
      NewEvent \<lparr>a_ID = Event_ID e, a_Source = Event_Source e, a_Type = Event_Type e,
        a_DataContentType = fst (Event_DataContentType e), a_DataSchema = fst (Event_DataSchema e),
        a_Subject = fst (Event_Subject e), a_Time = (if hasTime then Some timeValue else None),
        a_Extensions = extensions\<rparr> (Event_Data e))"

definition addStringExtension ::
    "(bytes, Attribute) gomap \<Rightarrow> bytes \<times> bytes \<Rightarrow> (bytes, Attribute) gomap result" where
  "addStringExtension extensions addition =
     (case addition of (name, value) \<Rightarrow>
        (case NewStringAttribute value of
           Inl err \<Rightarrow> Inl (ErrorfWrap ErrInvalidAdapterInput (''extension '' @ name) err)
         | Inr attribute \<Rightarrow>
             (case map_of extensions name of
                Some existing \<Rightarrow>
                  if \<not> AttributesEqual existing attribute then Inl (Errorf ErrMetadataCollision name)
                  else Inr extensions
              | None \<Rightarrow> Inr (AList.update name attribute extensions))))"

definition AddStringExtensions :: "Event \<Rightarrow> (bytes, bytes) gomap \<Rightarrow> Event result" where
  "AddStringExtensions e additions =
     (case Event_Validate e of
        Inl err \<Rightarrow> Inl (ErrorfWrap ErrInvalidAdapterInput ''event'' err)
      | Inr _ \<Rightarrow>
          and_then (fold_result addStringExtension (Event_Extensions e) additions) (\<lambda>extensions.
            RebuildEvent e extensions))"

definition StringExtension :: "Event \<Rightarrow> bytes \<Rightarrow> (bytes \<times> bool) result" where
  "StringExtension e name =
     (case Event_Extension e name of
        None \<Rightarrow> Inr ('''', False)
      | Some attribute \<Rightarrow>
          if Attribute_Kind attribute \<noteq> AttributeString \<or> Attribute_String attribute = ''''
          then Inl (Errorf ErrInvalidAdapterInput (''extension '' @ name))
          else Inr (Attribute_String attribute, True))"

definition PutStringExtension ::
    "(bytes, Attribute) gomap \<Rightarrow> bytes \<Rightarrow> bytes \<Rightarrow> (bytes, Attribute) gomap result" where
  "PutStringExtension extensions name value =
     (case NewStringAttribute value of
        Inl err \<Rightarrow> Inl (ErrorfWrap ErrInvalidAdapterInput (''extension '' @ name) err)
      | Inr attribute \<Rightarrow> Inr (AList.update name attribute extensions))"

definition MappedString :: "Event \<Rightarrow> bytes \<Rightarrow> bytes \<Rightarrow> bool \<Rightarrow> bytes result" where
  "MappedString e name retained trusted =
     and_then (StringExtension e name) (\<lambda>(value, present).
       if present \<and> retained \<noteq> '''' \<and> value \<noteq> retained then Inl (Errorf ErrMetadataCollision name)
       else if present then
         (if retained = '''' \<and> \<not> trusted then Inl (Errorf ErrUntrustedMetadata name) else Inr value)
       else if retained \<noteq> '''' then Inl (Errorf ErrMetadataCollision (''missing '' @ name))
       else Inr retained)"

section \<open>Payloads\<close>

definition jsonMedia :: "bytes \<Rightarrow> bool" where
  "jsonMedia mediaType \<longleftrightarrow>
     to_lower mediaType = ''application/json'' \<or> has_suffix (to_lower mediaType) ''+json''"

definition DataFromPayload :: "bytes \<Rightarrow> bytes option \<Rightarrow> Data result" where
  "DataFromPayload contentType payload =
     (if contentType = '''' then Inr (NewBinaryData (slice_bytes payload))
      else let (mediaType, ok) = parse_media_type contentType in
        if \<not> ok then Inl (ErrorfWrap ErrInvalidAdapterInput ''content type'' (External ''mime''))
        else if jsonMedia mediaType then NewJSONData (slice_bytes payload)
        else if has_prefix (to_lower mediaType) ''text/'' then NewTextData (slice_bytes payload)
        else Inr (NewBinaryData (slice_bytes payload)))"

definition RestoreRetainedNil :: "Data \<Rightarrow> bool \<Rightarrow> bytes option" where
  "RestoreRetainedNil data retainedNil =
     (if retainedNil \<and> length (slice_bytes (Data_Bytes data)) = 0 then None else Data_Bytes data)"

definition IsJSONContentType :: "bytes \<Rightarrow> bool" where
  "IsJSONContentType value =
     (let (mediaType, ok) = parse_media_type value in if \<not> ok then False else jsonMedia mediaType)"

section \<open>Copies\<close>

definition CloneBytes :: "bytes option \<Rightarrow> bytes option" where
  "CloneBytes value = (case value of None \<Rightarrow> None | Some v \<Rightarrow> Some (map (\<lambda>b. b) v))"

definition CloneStrings :: "(bytes, bytes) gomap option \<Rightarrow> (bytes, bytes) gomap option" where
  "CloneStrings values = (case values of None \<Rightarrow> None | Some m \<Rightarrow> Some (copy_map m))"

definition CloneTimePointer :: "gotime option \<Rightarrow> gotime option" where
  "CloneTimePointer value = (case value of None \<Rightarrow> None | Some t \<Rightarrow> Some t)"

section \<open>Loss reports\<close>

definition notRepresented :: "bytes \<Rightarrow> bytes \<Rightarrow> loss" where
  "notRepresented field target = Loss field (''not represented by '' @ target)"

definition contextPresent :: "Event \<Rightarrow> bytes \<Rightarrow> bool" where
  "contextPresent e field =
     (if field = ''subject'' then snd (Event_Subject e)
      else if field = ''dataschema'' then snd (Event_DataSchema e)
      else if field = ''time'' then snd (Event_Time e) else False)"

definition AppendOptionalContextLosses :: "Event \<Rightarrow> report \<Rightarrow> bytes \<Rightarrow> report" where
  "AppendOptionalContextLosses e report target =
     foldl (\<lambda>losses field. if contextPresent e field then losses @ [notRepresented field target] else losses)
       report [''dataschema'', ''subject'', ''time'']"

definition targetDataKind :: "Event \<Rightarrow> bool \<Rightarrow> DataKind" where
  "targetDataKind e contentTypePreserved =
     (if contentTypePreserved \<and> snd (Event_DataContentType e) then
        (let mediaType = fst (parse_media_type (fst (Event_DataContentType e))) in
         if jsonMedia mediaType then DataJSON
         else if has_prefix (to_lower mediaType) ''text/'' then DataText else DataBinary)
      else DataBinary)"

definition AppendDataKindLoss :: "Event \<Rightarrow> report \<Rightarrow> bytes \<Rightarrow> bool \<Rightarrow> report" where
  "AppendDataKindLoss e report target contentTypePreserved =
     (if \<not> Data_Present (Event_Data e) then report
      else if Data_Kind (Event_Data e) \<noteq> targetDataKind e contentTypePreserved
      then report @ [notRepresented ''data.kind'' target] else report)"

definition AppendExtensionLosses :: "Event \<Rightarrow> report \<Rightarrow> bytes \<Rightarrow> bytes list \<Rightarrow> report" where
  "AppendExtensionLosses e report target selected =
     report @ map (\<lambda>name. notRepresented (''extensions.'' @ name) target)
       (sort (filter (\<lambda>name. name \<notin> set selected) (keys (Event_Extensions e))))"

lemmas adapter_eval [eval_defs] =
  CorrelationIDExtension_def RequestIDExtension_def CausationIDExtension_def TenantIDExtension_def
  AttributesEqual_def RebuildEvent_def addStringExtension_def AddStringExtensions_def StringExtension_def
  PutStringExtension_def MappedString_def jsonMedia_def DataFromPayload_def RestoreRetainedNil_def
  IsJSONContentType_def CloneBytes_def CloneStrings_def CloneTimePointer_def notRepresented_def
  contextPresent_def AppendOptionalContextLosses_def targetDataKind_def AppendDataKindLoss_def
  AppendExtensionLosses_def

section \<open>Added extensions and mapped strings\<close>

lemma CloneBytes_id [simp]: "CloneBytes v = v"
  by (cases v) (simp_all add: CloneBytes_def)

lemma CloneTimePointer_id [simp]: "CloneTimePointer t = t"
  by (cases t) (simp_all add: CloneTimePointer_def)

lemma CloneStrings_id: "pred_option wf_map m \<Longrightarrow> CloneStrings m = m"
  by (cases m) (simp_all add: CloneStrings_def)

lemma AttributesEqual_text:
  "plain_bytes a \<Longrightarrow> AttributesEqual a (text_attribute v) \<longleftrightarrow> a = text_attribute v"
  by (cases a)
    (auto simp: AttributesEqual_def text_attribute_def Attribute_Kind_def Attribute_String_def Attribute_Bytes_def
      slice_bytes_def plain_bytes_def split: if_splits)

lemma addStringExtension_Inr:
  assumes "list_all (\<lambda>(name, a). plain_bytes a) m"
  shows "addStringExtension m (n, v) = Inr m' \<longleftrightarrow> validCloudString v
    \<and> (case map_of m n of None \<Rightarrow> m' = AList.update n (text_attribute v) m
        | Some a \<Rightarrow> a = text_attribute v \<and> m' = m)"
proof -
  have p: "map_of m n = Some a \<Longrightarrow> plain_bytes a" for a
    using assms by (auto simp: list_all_iff dest: map_of_SomeD)
  show ?thesis
    using p AttributesEqual_text
    by (auto simp: addStringExtension_def NewStringAttribute_def text_attribute_def split: option.splits)
qed

text \<open>The additions that a map of extensions does not have yet, as attributes.\<close>

definition fresh_strings :: "(bytes, Attribute) gomap \<Rightarrow> (bytes, bytes) gomap \<Rightarrow> (bytes, Attribute) gomap" where
  "fresh_strings m adds =
     map (\<lambda>(n, v). (n, text_attribute v)) (filter (\<lambda>(n, _). n \<notin> set (keys m)) adds)"

definition strings_agree :: "(bytes, Attribute) gomap \<Rightarrow> (bytes, bytes) gomap \<Rightarrow> bool" where
  "strings_agree m adds \<longleftrightarrow>
     list_all (\<lambda>(n, v). validCloudString v \<and> map_of m n \<in> {None, Some (text_attribute v)}) adds"

lemma fold_addStringExtension:
  assumes "plain_map m" and "wf_map adds"
  shows "fold_result addStringExtension m adds = Inr m' \<longleftrightarrow> strings_agree m adds \<and> m' = m @ fresh_strings m adds"
  using assms
proof (induction adds arbitrary: m)
  case Nil
  then show ?case by (auto simp: strings_agree_def fresh_strings_def)
next
  case (Cons p adds)
  obtain n v where p: "p = (n, v)" by fastforce
  have q: "list_all (\<lambda>(name, a). plain_bytes a) m" using Cons.prems(1) by (simp add: plain_map_def)
  have n: "n \<notin> set (keys adds)" "wf_map adds" using Cons.prems(2) p by (simp_all add: wf_map_Cons)
  show ?case
  proof (cases "map_of m n")
    case None
    let ?m = "m @ [(n, text_attribute v)]"
    have k: "n \<notin> set (keys m)" using None by (simp add: map_of_None_iff)
    have pm: "plain_map ?m"
      using plain_map_update [OF Cons.prems(1), of "text_attribute v" n] update_fresh [OF k]
      by (simp add: plain_bytes_def text_attribute_def)
    have nx: "(n, b) \<notin> set adds" for b using n(1) by force
    then have look: "map_of ?m n' = map_of m n'" if "(n', v') \<in> set adds" for n' v'
      using that by (auto simp: map_add_def split: option.splits)
    have "fold_result addStringExtension m ((n, v) # adds) = Inr m'
        \<longleftrightarrow> validCloudString v \<and> fold_result addStringExtension ?m adds = Inr m'"
      by (auto simp: addStringExtension_Inr [OF q] None update_fresh [OF k])
    moreover have "strings_agree ?m adds = strings_agree m adds"
      using look by (fastforce simp: strings_agree_def list_all_iff)
    moreover have "fresh_strings ?m adds = fresh_strings m adds"
      using nx unfolding fresh_strings_def by (intro arg_cong [where f = "map _"] filter_cong) auto
    ultimately show ?thesis
      using Cons.IH [OF pm n(2)] k None
      by (auto simp: p strings_agree_def fresh_strings_def)
  next
    case (Some a)
    have k: "n \<in> set (keys m)" using Some by (force dest: map_of_SomeD)
    have "fold_result addStringExtension m ((n, v) # adds) = Inr m'
        \<longleftrightarrow> validCloudString v \<and> a = text_attribute v \<and> fold_result addStringExtension m adds = Inr m'"
      by (auto simp: addStringExtension_Inr [OF q] Some)
    then show ?thesis
      using Cons.IH [OF Cons.prems(1) n(2)] k Some by (auto simp: p strings_agree_def fresh_strings_def)
  qed
qed

definition with_strings :: "Event \<Rightarrow> (bytes, bytes) gomap \<Rightarrow> Event" where
  "with_strings e adds = e\<lparr>ev_extensions := ev_extensions e @ fresh_strings (ev_extensions e) adds\<rparr>"

lemma RebuildEvent_attributes:
  "event_wf e \<Longrightarrow> RebuildEvent e xs = NewEvent (event_attributes (e\<lparr>ev_extensions := xs\<rparr>)) (ev_data e)"
  by (simp add: RebuildEvent_def event_attributes_def Event_Time_def Event_ID_def Event_Source_def Event_Type_def
      Event_DataContentType_def Event_DataSchema_def Event_Subject_def Event_Data_id)

lemma plain_map_fresh:
  assumes "plain_map m" "wf_map adds"
  shows "plain_map (m @ fresh_strings m adds)"
proof -
  have "distinct (map fst (filter (\<lambda>(n, _). n \<notin> set (keys m)) adds))"
    using assms(2) by (simp add: wf_map_def distinct_map_filter)
  moreover have k: "keys (fresh_strings m adds) = map fst (filter (\<lambda>(n, _). n \<notin> set (keys m)) adds)"
    by (simp add: fresh_strings_def comp_def case_prod_beta)
  moreover have "set (keys m) \<inter> set (keys (fresh_strings m adds)) = {}" unfolding k by force
  ultimately have "wf_map (m @ fresh_strings m adds)"
    using assms(1) unfolding plain_map_def wf_map_def map_append distinct_append by simp
  moreover have "list_all (\<lambda>(name, a). plain_bytes a) (fresh_strings m adds)"
    by (auto simp: fresh_strings_def plain_bytes_def text_attribute_def list_all_iff)
  ultimately show ?thesis using assms(1) by (simp add: plain_map_def)
qed

lemma AddStringExtensions_Inr:
  assumes "valid_event e" and "wf_map adds"
  shows "AddStringExtensions e adds = Inr e' \<longleftrightarrow>
    strings_agree (ev_extensions e) adds \<and> e' = with_strings e adds \<and> valid_event e'"
proof -
  have w: "event_wf e" using assms(1) by (simp add: valid_event_def)
  have pm: "plain_map (ev_extensions e)" by (rule valid_eventD(8) [OF assms(1)])
  let ?xs = "ev_extensions e @ fresh_strings (ev_extensions e) adds"
  have wx: "event_wf (with_strings e adds)"
    using w plain_map_fresh [OF pm assms(2)] by (auto simp: event_wf_def with_strings_def)
  have "NewEvent (event_attributes (with_strings e adds)) (ev_data (with_strings e adds)) = Inr e'
      \<longleftrightarrow> e' = with_strings e adds \<and> valid_event e'"
    using NewEvent_event_attributes [of "with_strings e adds"] wx
      NewEvent_Inr [OF attributes_wf_event [OF wx], of "ev_data (with_strings e adds)" e']
    by (auto simp: event_wf_def valid_event_def)
  moreover have "Event_Extensions e = ev_extensions e"
    using pm by (simp add: Event_Extensions_def)
  ultimately show ?thesis
    using fold_addStringExtension [OF pm assms(2)] assms(1)
    by (auto simp: AddStringExtensions_def RebuildEvent_attributes [OF w] with_strings_def)
qed

lemma with_strings_lookup:
  "map_of (ev_extensions (with_strings e adds)) n =
     (case map_of (ev_extensions e) n of Some a \<Rightarrow> Some a | None \<Rightarrow> map_option text_attribute (map_of adds n))"
proof -
  have "map_of (map (\<lambda>(n, v). (n, text_attribute v)) (filter (\<lambda>(n, _). n \<notin> S) adds)) n
      = (if n \<in> S then None else map_option text_attribute (map_of adds n))" for S
    by (induction adds) auto
  then have "map_of (fresh_strings m adds) n
      = (if map_of m n = None then map_option text_attribute (map_of adds n) else None)" for m
    by (simp add: fresh_strings_def map_of_eq_None_iff)
  then show ?thesis
    by (auto simp: with_strings_def map_add_def split: option.splits)
qed


lemma StringExtension_Inr:
  "StringExtension e name = Inr r \<longleftrightarrow>
     (case map_of (ev_extensions e) name of
        None \<Rightarrow> r = ('''', False)
      | Some a \<Rightarrow> attr_kind a = AttributeString \<and> attr_text a \<noteq> '''' \<and> r = (attr_text a, True))"
  by (auto simp: StringExtension_def Event_Extension_def Attribute_Kind_def Attribute_String_def split: option.splits)

lemma MappedString_Inr:
  "MappedString e name retained trusted = Inr v \<longleftrightarrow>
     (case map_of (ev_extensions e) name of
        None \<Rightarrow> retained = '''' \<and> v = ''''
      | Some a \<Rightarrow> attr_kind a = AttributeString \<and> attr_text a \<noteq> '''' \<and> v = attr_text a
          \<and> (retained = v \<or> (retained = '''' \<and> trusted)))"
  by (auto simp: MappedString_def StringExtension_Inr split: option.splits if_splits)

section \<open>The contract of a reversible adapter\<close>

text \<open>
  An adapter maps a message of another library to an event and retained state, and the two back. Its contract: the
  event is valid and nothing is lost on the way there, and the way back gives what \<open>restored\<close> says.
\<close>

locale reversible_adapter =
  fixes to_event :: "'m \<Rightarrow> 'o \<Rightarrow> (Event \<times> 's \<times> report) result"
    and from_event :: "Event \<Rightarrow> 's \<Rightarrow> 'r result"
    and fits :: "'m \<Rightarrow> 'o \<Rightarrow> bool"
    and restored :: "'m \<Rightarrow> Event \<Rightarrow> 's \<Rightarrow> 'r result"
  assumes lossless: "fits m opts \<Longrightarrow> to_event m opts = Inr (e, s, losses) \<Longrightarrow> losses = [] \<and> valid_event e"
    and reversed: "fits m opts \<Longrightarrow> to_event m opts = Inr (e, s, losses) \<Longrightarrow> from_event e s = restored m e s"
begin

lemma reverses:
  assumes "fits m opts" "to_event m opts = Inr (e, s, losses)"
  shows "losses = [] \<and> valid_event e \<and> from_event e s = restored m e s"
  using lossless [OF assms] reversed [OF assms] by simp

lemma there_and_back:
  assumes "fits m opts"
  shows "and_then (to_event m opts) (\<lambda>(e, s, _). from_event e s) = and_then (to_event m opts) (\<lambda>(e, s, _). restored m e s)"
  using reversed [OF assms] by (cases "to_event m opts") auto

end

section \<open>Properties\<close>

text \<open>
  C35. \<open>AddStringExtensions\<close> adds exactly what is new. On a valid event it succeeds exactly when every value is a
  valid string, no extension of the event disagrees with an addition, and the extended event is valid; the
  result is then the event with the missing additions appended as string attributes and nothing else changed.
\<close>

theorem AddStringExtensions_exact:
  assumes "valid_event e" and "wf_map adds"
  shows "(AddStringExtensions e adds = Inr e' \<longleftrightarrow>
      list_all (\<lambda>(n, v). validCloudString v \<and> map_of (ev_extensions e) n \<in> {None, Some (text_attribute v)}) adds
      \<and> e' = with_strings e adds \<and> valid_event e')
    \<and> map_of (ev_extensions (with_strings e adds)) n =
      (case map_of (ev_extensions e) n of Some a \<Rightarrow> Some a | None \<Rightarrow> map_option text_attribute (map_of adds n))"
  using AddStringExtensions_Inr [OF assms] with_strings_lookup by (simp add: strings_agree_def)

theorem AddStringExtensions_exact_witness:
  "AddStringExtensions sample_event [(''a'', ''x'')] = Inr sample_event"
proof -
  have "with_strings sample_event [(''a'', ''x'')] = sample_event"
    by (simp add: with_strings_def sample_event_def fresh_strings_def)
  moreover have "validCloudString ''x''" by (simp add: eval_defs)
  ultimately show ?thesis
    using AddStringExtensions_exact [OF sample_event_valid, of "[(''a'', ''x'')]" sample_event] sample_event_valid
    by (simp add: wf_map_def) (simp add: sample_event_def)
qed

end
