(* ===== verification/CE_Transports.thy ===== *)
theory CE_Transports
  imports CE_Roundtrips CE_Adapter
begin

text \<open>
  \<open>adapters/kafka\<close> and \<open>adapters/rabbitstream\<close>: the bindings at the record types of the transport libraries.
  The structs of those libraries are records of the fields the adapters read or set; partition selections and
  timestamp types are of any type, since they are only copied. The validation methods of a stream message at
  the default limits of its library are arguments.
\<close>

section \<open>Kafka records\<close>

record 'p kafka_Transport =
  kt_Topic :: bytes
  kt_Partition :: 'p
  kt_Key :: "bytes option"
  kt_Headers :: "KafkaHeader list"
  kt_Timestamp :: gotime

record 'p ProducerRecord =
  pr_Topic :: bytes
  pr_Partition :: 'p
  pr_Key :: "bytes option"
  pr_Value :: "bytes option"
  pr_Headers :: "KafkaHeader list"
  pr_Timestamp :: gotime

record 't ConsumedRecord =
  cr_Topic :: bytes
  cr_Key :: "bytes option"
  cr_Value :: "bytes option"
  cr_Headers :: "KafkaHeader list"
  cr_Timestamp :: gotime
  cr_TimestampType :: 't
  cr_Partition :: "32 word"
  cr_Offset :: "64 word"
  cr_LeaderEpoch :: "32 word"

record 't kafka_State =
  kst_Topic :: bytes
  kst_Timestamp :: gotime
  kst_TimestampType :: 't
  kst_Partition :: "32 word"
  kst_Offset :: "64 word"
  kst_LeaderEpoch :: "32 word"

text \<open>The record key: the partition key of the event owns it.\<close>

definition kafka_selectKey :: "Event \<Rightarrow> 'p kafka_Transport \<Rightarrow> bytes option result" where
  "kafka_selectKey e transport =
     (let key = CloneBytes (kt_Key transport) in
      case KafkaPartitionKey e of
        None \<Rightarrow> Inr key
      | Some partitionKey \<Rightarrow>
          if key \<noteq> None \<and> slice_bytes key \<noteq> partitionKey
          then Inl (Errorf ErrMetadataCollision ''kafka key'') else Inr (Some partitionKey))"

definition kafka_checkHeader :: "unit \<Rightarrow> KafkaHeader \<Rightarrow> unit result" where
  "kafka_checkHeader u header =
     (if kh_Key header = ''content-type'' \<or> has_prefix (kh_Key header) ''ce_''
      then Inl (Errorf ErrMetadataCollision (''kafka header '' @ kh_Key header)) else Inr ())"

definition kafka_cloneHeader :: "KafkaHeader \<Rightarrow> KafkaHeader" where
  "kafka_cloneHeader header = \<lparr>kh_Key = kh_Key header, kh_Value = CloneBytes (kh_Value header)\<rparr>"

definition kafka_Encode :: "Event \<Rightarrow> ContentMode \<Rightarrow> 'p kafka_Transport \<Rightarrow> 'p ProducerRecord result" where
  "kafka_Encode e mode transport =
     and_then (kafka_selectKey e transport) (\<lambda>key.
     and_then (fold_result kafka_checkHeader () (kt_Headers transport)) (\<lambda>_.
     and_then (EncodeKafka e mode key) (\<lambda>binding.
       Inr \<lparr>pr_Topic = kt_Topic transport, pr_Partition = kt_Partition transport,
         pr_Key = CloneBytes (kr_Key binding), pr_Value = CloneBytes (kr_Value binding),
         pr_Headers = map kafka_cloneHeader (kr_Headers binding) @ map kafka_cloneHeader (kt_Headers transport),
         pr_Timestamp = kt_Timestamp transport\<rparr>)))"

definition kafka_Decode :: "'t ConsumedRecord \<Rightarrow> Limits \<Rightarrow> (KafkaMessage \<times> 't kafka_State) result" where
  "kafka_Decode rec limits =
     (if int (length (cr_Headers rec)) > MaxKafkaHeaders limits then Inl (Sentinel ErrLimitExceeded)
      else and_then (DecodeKafka \<lparr>kr_Key = cr_Key rec, kr_Value = cr_Value rec,
          kr_Headers = map (\<lambda>header. \<lparr>kh_Key = kh_Key header, kh_Value = kh_Value header\<rparr>) (cr_Headers rec)\<rparr> limits) (\<lambda>message.
        Inr (message, \<lparr>kst_Topic = cr_Topic rec, kst_Timestamp = cr_Timestamp rec,
          kst_TimestampType = cr_TimestampType rec, kst_Partition = cr_Partition rec, kst_Offset = cr_Offset rec,
          kst_LeaderEpoch = cr_LeaderEpoch rec\<rparr>)))"

section \<open>RabbitMQ stream messages\<close>

record MetadataEntry =
  me_Key :: bytes
  me_Value :: "bytes option"

record rabbit_Transport =
  rt_Stream :: bytes
  rt_SuperStream :: bytes
  rt_RoutingKey :: bytes
  rt_CorrelationID :: bytes
  rt_Properties :: "MetadataEntry list option"

record rabbit_Message =
  rm_Stream :: bytes
  rm_SuperStream :: bytes
  rm_Partition :: bytes
  rm_RoutingKey :: bytes
  rm_MessageID :: bytes
  rm_CorrelationID :: bytes
  rm_PublishingID :: "64 word"
  rm_HasPublishingID :: bool
  rm_Offset :: "64 word"
  rm_HasOffset :: bool
  rm_Timestamp :: gotime
  rm_ContentType :: bytes
  rm_Payload :: bytes
  rm_Properties :: "MetadataEntry list option"

record rabbit_Decoded =
  rd_Event :: Event
  rd_TransportProperties :: "MetadataEntry list option"

record rabbit_State =
  rs_Stream :: bytes
  rs_SuperStream :: bytes
  rs_Partition :: bytes
  rs_RoutingKey :: bytes
  rs_CorrelationID :: bytes
  rs_PublishingID :: "64 word"
  rs_HasPublishingID :: bool
  rs_Offset :: "64 word"
  rs_HasOffset :: bool
  rs_Timestamp :: gotime

text \<open>\<open>Validate\<close> and \<open>ValidateDelivery\<close> of a message at the library's default limits.\<close>

record rabbit_library =
  rl_Validate :: "rabbit_Message \<Rightarrow> unit result"
  rl_ValidateDelivery :: "rabbit_Message \<Rightarrow> unit result"

definition rabbit_validateMessage :: "rabbit_library \<Rightarrow> rabbit_Message \<Rightarrow> unit result" where
  "rabbit_validateMessage lib message =
     (if rm_Partition message \<noteq> '''' \<or> rm_HasOffset message \<or> rm_Offset message \<noteq> 0
      then rl_ValidateDelivery lib message else rl_Validate lib message)"

definition rabbit_cloneMetadata :: "MetadataEntry list option \<Rightarrow> MetadataEntry list option" where
  "rabbit_cloneMetadata entries =
     (case entries of
        None \<Rightarrow> None
      | Some es \<Rightarrow> Some (map (\<lambda>entry. \<lparr>me_Key = me_Key entry, me_Value = CloneBytes (me_Value entry)\<rparr>) es))"

definition rabbit_routingKey :: "Event \<Rightarrow> bytes \<Rightarrow> bytes result" where
  "rabbit_routingKey e routingKey =
     (case KafkaPartitionKey e of
        None \<Rightarrow> Inr routingKey
      | Some partitionKey \<Rightarrow>
          if routingKey \<noteq> '''' \<and> routingKey \<noteq> partitionKey
          then Inl (Errorf ErrMetadataCollision ''RabbitStream routing key'') else Inr partitionKey)"

definition rabbit_Encode :: "rabbit_library \<Rightarrow> Event \<Rightarrow> rabbit_Transport \<Rightarrow> rabbit_Message result" where
  "rabbit_Encode lib e transport =
     (if (rt_Stream transport = '''') = (rt_SuperStream transport = '''')
      then Inl (Errorf ErrMetadataCollision ''RabbitStream target'')
      else and_then (rabbit_routingKey e (rt_RoutingKey transport)) (\<lambda>routingKey.
        and_then (EncodeJSON e) (\<lambda>payload.
          let message = \<lparr>rm_Stream = rt_Stream transport, rm_SuperStream = rt_SuperStream transport,
                rm_Partition = '''', rm_RoutingKey = routingKey, rm_MessageID = Event_ID e,
                rm_CorrelationID = rt_CorrelationID transport, rm_PublishingID = 0, rm_HasPublishingID = False,
                rm_Offset = 0, rm_HasOffset = False, rm_Timestamp = fst (Event_Time e),
                rm_ContentType = JSONMediaType, rm_Payload = payload, rm_Properties = rt_Properties transport\<rparr>
          in and_then (rl_Validate lib message) (\<lambda>_.
            Inr (message\<lparr>rm_Properties := rabbit_cloneMetadata (rt_Properties transport)\<rparr>)))))"

definition rabbit_Decode ::
    "rabbit_library \<Rightarrow> rabbit_Message \<Rightarrow> Limits \<Rightarrow> (rabbit_Decoded \<times> rabbit_State) result" where
  "rabbit_Decode lib message limits =
     and_then (rabbit_validateMessage lib message) (\<lambda>_.
       let (mediaType, ok) = parse_media_type (rm_ContentType message) in
       if \<not> ok \<or> \<not> equal_fold mediaType JSONMediaType then Inl (Sentinel ErrUnsupportedMode)
       else and_then (DecodeJSON (rm_Payload message) limits) (\<lambda>e.
         if rm_MessageID message \<noteq> '''' \<and> rm_MessageID message \<noteq> Event_ID e
         then Inl (Errorf ErrMetadataCollision ''RabbitStream message ID'')
         else if KafkaPartitionKey e \<noteq> None \<and> rm_RoutingKey message \<noteq> ''''
           \<and> slice_bytes (KafkaPartitionKey e) \<noteq> rm_RoutingKey message
         then Inl (Errorf ErrMetadataCollision ''RabbitStream routing key'')
         else Inr (\<lparr>rd_Event = e, rd_TransportProperties = rabbit_cloneMetadata (rm_Properties message)\<rparr>,
           \<lparr>rs_Stream = rm_Stream message, rs_SuperStream = rm_SuperStream message, rs_Partition = rm_Partition message,
            rs_RoutingKey = rm_RoutingKey message, rs_CorrelationID = rm_CorrelationID message,
            rs_PublishingID = rm_PublishingID message, rs_HasPublishingID = rm_HasPublishingID message,
            rs_Offset = rm_Offset message, rs_HasOffset = rm_HasOffset message, rs_Timestamp = rm_Timestamp message\<rparr>)))"

section \<open>Records that pass through Kafka\<close>

lemma kafka_cloneHeader_id [simp]: "kafka_cloneHeader h = h"
  by (cases h) (simp add: kafka_cloneHeader_def)

lemma kafka_cloneHeaders_id [simp]: "map kafka_cloneHeader hs = hs"
  by (simp add: map_idI)

lemma kafka_checkHeaders:
  "fold_result kafka_checkHeader () hs = Inr u \<longleftrightarrow> list_all (\<lambda>h. transport_header h) hs"
  by (induction hs) (auto simp: kafka_checkHeader_def ce_header_def)

text \<open>Headers of the transport pass through the decoder, whatever the mode.\<close>

lemma DecodeKafka_more_headers:
  assumes d: "DecodeKafka rec l = Inr m" and t: "list_all (\<lambda>h. transport_header h) hs" "list_all (header_admitted l) hs"
    and n: "int (length (kr_Headers rec) + length hs) \<le> MaxKafkaHeaders l"
  shows "DecodeKafka (rec\<lparr>kr_Headers := kr_Headers rec @ hs\<rparr>) l
    = Inr (m\<lparr>km_TransportHeaders := km_TransportHeaders m @ hs\<rparr>)"
proof -
  from d obtain s where s: "fold_result (scanKafkaHeader l) kafka_scan_start (kr_Headers rec) = Inr s"
    and a: "kafkaAdmission rec l"
    by (auto simp: DecodeKafka_def split: if_splits)
  have "filter content_type_header hs = []" "filter ce_header hs = []" "filter transport_header hs = hs"
    using t(1) by (simp_all add: filter_empty_conv filter_id_conv list_all_iff)
  then have "fold_result (scanKafkaHeader l) s hs = Inr (s\<lparr>ks_transportHeaders := ks_transportHeaders s @ hs\<rparr>)"
    using scan_headers [OF t(2), of s] by (simp add: group_values_def)
  then have "fold_result (scanKafkaHeader l) kafka_scan_start (kr_Headers rec @ hs)
      = Inr (s\<lparr>ks_transportHeaders := ks_transportHeaders s @ hs\<rparr>)"
    using s by (simp add: fold_result_append)
  moreover have "kafkaAdmission (rec\<lparr>kr_Headers := kr_Headers rec @ hs\<rparr>) l" using a n by (simp add: kafkaAdmission_def)
  ultimately show ?thesis using d s a by (auto simp: DecodeKafka_def split: if_splits)
qed

definition kafka_mode_fits :: "Limits \<Rightarrow> ContentMode \<Rightarrow> bytes option \<Rightarrow> Event \<Rightarrow> bool" where
  "kafka_mode_fits l mode key e \<longleftrightarrow>
     (mode = BinaryMode \<and> kafka_fits l key e) \<or> (mode = StructuredMode \<and> structured_kafka_fits l key e)"

lemma kafka_mode_roundtrip:
  assumes "kafka_mode_fits l mode key e"
  obtains rec e' where "EncodeKafka e mode key = Inr rec"
    "DecodeKafka rec l = Inr \<lparr>km_Mode = mode, km_Event = e', km_Key = key, km_TransportHeaders = []\<rparr>" "same_event e e'"
  using assms unfolding kafka_mode_fits_def
proof
  assume "mode = BinaryMode \<and> kafka_fits l key e"
  then show thesis using kafka_binary_roundtrip [of l key e] that by blast
next
  assume m: "mode = StructuredMode \<and> structured_kafka_fits l key e"
  then have "same_event e (sorted_event e)"
    by (simp add: structured_kafka_fits_def json_losslessD(1) same_sorted_event(1))
  then show thesis using m kafka_structured_roundtrip [of l key e] that by blast
qed

definition kafka_key :: "Event \<Rightarrow> 'p kafka_Transport \<Rightarrow> bytes option" where
  "kafka_key e transport = (case KafkaPartitionKey e of None \<Rightarrow> kt_Key transport | Some k \<Rightarrow> Some k)"

lemma kafka_selectKey_Inr:
  "kafka_selectKey e transport = Inr key \<longleftrightarrow>
     key = kafka_key e transport \<and> (kt_Key transport = None \<or> kt_Key transport = key)"
  by (auto simp: kafka_selectKey_def kafka_key_def slice_bytes_def Let_def split: option.splits if_splits)

definition kafka_delivery :: "'p ProducerRecord \<Rightarrow> 't kafka_State \<Rightarrow> 't ConsumedRecord" where
  "kafka_delivery rec state = \<lparr>cr_Topic = kst_Topic state, cr_Key = pr_Key rec, cr_Value = pr_Value rec,
     cr_Headers = pr_Headers rec, cr_Timestamp = kst_Timestamp state, cr_TimestampType = kst_TimestampType state,
     cr_Partition = kst_Partition state, cr_Offset = kst_Offset state, cr_LeaderEpoch = kst_LeaderEpoch state\<rparr>"

definition kafka_transport_ok :: "Limits \<Rightarrow> Event \<Rightarrow> ContentMode \<Rightarrow> 'p kafka_Transport \<Rightarrow> bool" where
  "kafka_transport_ok l e mode transport \<longleftrightarrow>
     kafka_mode_fits l mode (kafka_key e transport) e
     \<and> (kt_Key transport = None \<or> kt_Key transport = kafka_key e transport)
     \<and> list_all (\<lambda>h. transport_header h) (kt_Headers transport)
     \<and> list_all (header_admitted l) (kt_Headers transport)
     \<and> (\<forall>rec. EncodeKafka e mode (kafka_key e transport) = Inr rec \<longrightarrow>
          int (length (kr_Headers rec) + length (kt_Headers transport)) \<le> MaxKafkaHeaders l)"

lemma kafka_adapter_passes:
  assumes "kafka_transport_ok l e mode transport"
  obtains rec e' where "kafka_Encode e mode transport = Inr rec"
    "pr_Topic rec = kt_Topic transport" "pr_Timestamp rec = kt_Timestamp transport"
    "\<And>state. kafka_Decode (kafka_delivery rec state) l = Inr (\<lparr>km_Mode = mode, km_Event = e',
       km_Key = kafka_key e transport, km_TransportHeaders = kt_Headers transport\<rparr>, state)"
    "same_event e e'"
proof -
  let ?key = "kafka_key e transport"
  have f: "kafka_mode_fits l mode ?key e" and k: "kafka_selectKey e transport = Inr ?key"
    and t: "list_all (\<lambda>h. transport_header h) (kt_Headers transport)" "list_all (header_admitted l) (kt_Headers transport)"
    using assms by (simp_all add: kafka_transport_ok_def kafka_selectKey_Inr)
  obtain b e' where b: "EncodeKafka e mode ?key = Inr b"
    "DecodeKafka b l = Inr \<lparr>km_Mode = mode, km_Event = e', km_Key = ?key, km_TransportHeaders = []\<rparr>" "same_event e e'"
    by (rule kafka_mode_roundtrip [OF f])
  have n: "int (length (kr_Headers b) + length (kt_Headers transport)) \<le> MaxKafkaHeaders l"
    using assms b(1) by (simp add: kafka_transport_ok_def)
  let ?rec = "\<lparr>pr_Topic = kt_Topic transport, pr_Partition = kt_Partition transport, pr_Key = kr_Key b,
    pr_Value = kr_Value b, pr_Headers = kr_Headers b @ kt_Headers transport, pr_Timestamp = kt_Timestamp transport\<rparr>"
  have enc: "kafka_Encode e mode transport = Inr ?rec"
    using k b(1) t(1) kafka_checkHeaders [of "kt_Headers transport" "()"] by (simp add: kafka_Encode_def)
  have h: "map (\<lambda>h. \<lparr>kh_Key = kh_Key h, kh_Value = kh_Value h\<rparr>) hs = hs" for hs by (simp add: map_idI)
  have r: "\<lparr>kr_Key = kr_Key b, kr_Value = kr_Value b, kr_Headers = hs\<rparr> = b\<lparr>kr_Headers := hs\<rparr>" for hs
    by (cases b) simp
  have "kafka_Decode (kafka_delivery ?rec state) l = Inr (\<lparr>km_Mode = mode, km_Event = e',
      km_Key = ?key, km_TransportHeaders = kt_Headers transport\<rparr>, state)" for state :: "'b kafka_State"
    using DecodeKafka_more_headers [OF b(2) t n] n
    by (cases state) (simp add: kafka_Decode_def kafka_delivery_def h r del: map_append)
  then show thesis using that enc b(3) by fastforce
qed

section \<open>Messages that pass through a stream\<close>

lemma rabbit_cloneMetadata_id [simp]: "rabbit_cloneMetadata es = es"
  by (cases es) (simp_all add: rabbit_cloneMetadata_def map_idI)

lemma KafkaPartitionKey_same: "same_event e e' \<Longrightarrow> KafkaPartitionKey e = KafkaPartitionKey e'"
  by (auto simp: same_event_def same_map_def KafkaPartitionKey_def)

lemma rabbit_routingKey_Inr:
  "rabbit_routingKey e key = Inr key' \<longleftrightarrow>
     (case KafkaPartitionKey e of None \<Rightarrow> key' = key | Some k \<Rightarrow> key' = k \<and> key \<in> {'''', k})"
  by (auto simp: rabbit_routingKey_def split: option.splits)

text \<open>What a broker may add to a message it delivers.\<close>

definition rabbit_delivery :: "rabbit_Message \<Rightarrow> bytes \<Rightarrow> 64 word \<Rightarrow> bool \<Rightarrow> rabbit_Message" where
  "rabbit_delivery message part off has_off =
     message\<lparr>rm_Partition := part, rm_Offset := off, rm_HasOffset := has_off\<rparr>"

definition rabbit_state :: "rabbit_Message \<Rightarrow> rabbit_State" where
  "rabbit_state message = \<lparr>rs_Stream = rm_Stream message, rs_SuperStream = rm_SuperStream message,
     rs_Partition = rm_Partition message, rs_RoutingKey = rm_RoutingKey message,
     rs_CorrelationID = rm_CorrelationID message, rs_PublishingID = rm_PublishingID message,
     rs_HasPublishingID = rm_HasPublishingID message, rs_Offset = rm_Offset message,
     rs_HasOffset = rm_HasOffset message, rs_Timestamp = rm_Timestamp message\<rparr>"

lemma rabbit_Encode_Inr:
  assumes "rabbit_Encode lib e transport = Inr message" and "json_lossless e"
  shows "rm_Payload message = encodeJSON e" "rm_ContentType message = JSONMediaType" "rm_MessageID message = ev_id e"
    "rabbit_routingKey e (rt_RoutingKey transport) = Inr (rm_RoutingKey message)"
    "rm_Properties message = rt_Properties transport" "rm_CorrelationID message = rt_CorrelationID transport"
    "rm_Stream message = rt_Stream transport" "rm_SuperStream message = rt_SuperStream transport"
    "(rm_Stream message = '''') \<noteq> (rm_SuperStream message = '''')" "rl_Validate lib message = Inr ()"
    "rm_Partition message = ''''" "rm_Offset message = 0" "\<not> rm_HasOffset message"
  using assms(1) EncodeJSON_lossless(2) [OF assms(2)]
  by (auto simp: rabbit_Encode_def Let_def Event_ID_def split: if_splits)

lemma rabbit_Decode_delivery:
  assumes "rabbit_Encode lib e transport = Inr message" and j: "json_lossless e" "json_within l e"
    and v: "rabbit_validateMessage lib (rabbit_delivery message part off has_off) = Inr ()"
  shows "rabbit_Decode lib (rabbit_delivery message part off has_off) l =
    Inr (\<lparr>rd_Event = sorted_event e, rd_TransportProperties = rt_Properties transport\<rparr>,
      rabbit_state (rabbit_delivery message part off has_off))"
proof -
  note k = rabbit_Encode_Inr [OF assms(1) j(1)]
  have "KafkaPartitionKey (sorted_event e) = KafkaPartitionKey e"
    using KafkaPartitionKey_same same_sorted_event(1) [OF json_losslessD(1) [OF j(1)]] by metis
  then have "KafkaPartitionKey (sorted_event e) = None \<or> KafkaPartitionKey (sorted_event e) = Some (rm_RoutingKey message)"
    using k(4) by (auto simp: rabbit_routingKey_Inr split: option.splits)
  moreover have "ev_id (sorted_event e) = ev_id e" by (simp add: sorted_event_def)
  ultimately show ?thesis
    using v k(1-3,5) DecodeJSON_encodeJSON [OF j] JSONMediaType_parsed
    by (auto simp: rabbit_Decode_def rabbit_delivery_def rabbit_state_def equal_fold_def Event_ID_def slice_bytes_def Let_def)
qed

section \<open>Properties\<close>

text \<open>
  C25. The Kafka adapter carries events and transport metadata. For transport metadata that does not use the names
  of the binding and agrees with the partition key of the event, \<open>Encode\<close> succeeds, and \<open>Decode\<close> of the record, as
  delivered with any broker state, returns the same event, the key, exactly the transport headers in their order,
  and that broker state.
\<close>

theorem kafka_adapter_roundtrip:
  assumes "kafka_transport_ok l e mode transport"
  shows "\<exists>rec e'. kafka_Encode e mode transport = Inr rec \<and> same_event e e'
    \<and> pr_Topic rec = kt_Topic transport \<and> pr_Timestamp rec = kt_Timestamp transport
    \<and> kafka_Decode (kafka_delivery rec state) l = Inr (\<lparr>km_Mode = mode, km_Event = e',
       km_Key = kafka_key e transport, km_TransportHeaders = kt_Headers transport\<rparr>, state)"
proof -
  obtain rec e' where "kafka_Encode e mode transport = Inr rec"
    "pr_Topic rec = kt_Topic transport" "pr_Timestamp rec = kt_Timestamp transport" "same_event e e'"
    "kafka_Decode (kafka_delivery rec state) l = Inr (\<lparr>km_Mode = mode, km_Event = e',
       km_Key = kafka_key e transport, km_TransportHeaders = kt_Headers transport\<rparr>, state)"
    by (rule kafka_adapter_passes [OF assms]) blast
  then show ?thesis by blast
qed

definition transport_sample :: "unit kafka_Transport" where
  "transport_sample = \<lparr>kt_Topic = ''orders'', kt_Partition = (), kt_Key = Some ''k'',
     kt_Headers = [\<lparr>kh_Key = ''trace'', kh_Value = None\<rparr>], kt_Timestamp = zero_time\<rparr>"

definition delivery_sample :: "unit kafka_State" where
  "delivery_sample = \<lparr>kst_Topic = ''orders'', kst_Timestamp = zero_time, kst_TimestampType = (), kst_Partition = 3,
     kst_Offset = 41, kst_LeaderEpoch = 0\<rparr>"

theorem kafka_adapter_roundtrip_witness:
  "\<exists>rec e'. kafka_Encode binary_sample BinaryMode transport_sample = Inr rec \<and> same_event binary_sample e'
    \<and> kafka_Decode (kafka_delivery rec delivery_sample) DefaultLimits = Inr (\<lparr>km_Mode = BinaryMode, km_Event = e',
       km_Key = Some ''k'', km_TransportHeaders = [\<lparr>kh_Key = ''trace'', kh_Value = None\<rparr>]\<rparr>, delivery_sample)"
proof -
  have k: "kafka_key binary_sample transport_sample = Some ''k''"
    by (simp add: kafka_key_def KafkaPartitionKey_def binary_sample_def json_sample_def transport_sample_def)
  have "kafka_transport_ok DefaultLimits binary_sample BinaryMode transport_sample"
    unfolding kafka_transport_ok_def k
    using kafka_sample_fits binary_sample_headers(2) binary_sample_valid
    by (auto simp: kafka_mode_fits_def transport_sample_def header_admitted_def ce_header_def has_prefix_def
        slice_bytes_def valid_utf8_is_ascii EncodeKafka_def EncodeKafkaWithReport_def)
  from kafka_adapter_roundtrip [OF this, of delivery_sample] show ?thesis by (auto simp: k) (auto simp: transport_sample_def)
qed

text \<open>
  C26. The stream adapter carries events and keeps to one target. A message that \<open>Encode\<close> builds from a lossless event
  names exactly one target, is valid, and has the partition key of the event as its routing key; delivered with any
  partition and offset that the library accepts, \<open>Decode\<close> returns the event, the application properties in their
  order, and the delivery state.
\<close>

theorem rabbit_adapter_roundtrip:
  assumes "rabbit_Encode lib e transport = Inr message" and "json_lossless e" and "json_within l e"
    and "rabbit_validateMessage lib (rabbit_delivery message part off has_off) = Inr ()"
  shows "(rm_Stream message = '''') \<noteq> (rm_SuperStream message = '''') \<and> rl_Validate lib message = Inr ()
    \<and> (KafkaPartitionKey e = None \<and> rm_RoutingKey message = rt_RoutingKey transport
       \<or> KafkaPartitionKey e = Some (rm_RoutingKey message))
    \<and> rabbit_Decode lib (rabbit_delivery message part off has_off) l =
      Inr (\<lparr>rd_Event = sorted_event e, rd_TransportProperties = rt_Properties transport\<rparr>,
        rabbit_state (rabbit_delivery message part off has_off))"
  using rabbit_Decode_delivery [OF assms] rabbit_Encode_Inr(4,9,10) [OF assms(1,2)]
  by (auto simp: rabbit_routingKey_Inr split: option.splits)

definition rabbit_sample :: rabbit_Transport where
  "rabbit_sample = \<lparr>rt_Stream = ''orders'', rt_SuperStream = '''', rt_RoutingKey = ''r'', rt_CorrelationID = ''c'',
     rt_Properties = Some [\<lparr>me_Key = ''k'', me_Value = None\<rparr>, \<lparr>me_Key = ''k'', me_Value = Some ''v''\<rparr>]\<rparr>"

definition rabbit_sample_lib :: rabbit_library where
  "rabbit_sample_lib = \<lparr>rl_Validate = (\<lambda>m. if rm_Partition m = '''' then Inr () else Inl (External ''rabbitstream'')),
     rl_ValidateDelivery = (\<lambda>m. if rm_HasOffset m then Inr () else Inl (External ''rabbitstream''))\<rparr>"

theorem rabbit_adapter_roundtrip_witness:
  "\<exists>message. rabbit_Encode rabbit_sample_lib json_sample rabbit_sample = Inr message
    \<and> (\<exists>state. rabbit_Decode rabbit_sample_lib (rabbit_delivery message ''orders-1'' 7 True) DefaultLimits =
        Inr (\<lparr>rd_Event = sorted_event json_sample, rd_TransportProperties = rt_Properties rabbit_sample\<rparr>, state))"
proof -
  have "KafkaPartitionKey json_sample = None" by (simp add: KafkaPartitionKey_def json_sample_def)
  then obtain message where m: "rabbit_Encode rabbit_sample_lib json_sample rabbit_sample = Inr message"
    using EncodeJSON_lossless(2) [OF json_sample_lossless]
    by (simp add: rabbit_Encode_def rabbit_sample_def rabbit_sample_lib_def rabbit_routingKey_def Let_def)
  have "rabbit_validateMessage rabbit_sample_lib (rabbit_delivery message ''orders-1'' 7 True) = Inr ()"
    by (simp add: rabbit_validateMessage_def rabbit_delivery_def rabbit_sample_lib_def)
  from rabbit_adapter_roundtrip [OF m json_sample_lossless json_sample_within this] m show ?thesis by blast
qed

end
