(* ===== verification/CE_Envelopes.thy ===== *)
theory CE_Envelopes
  imports CE_Adapter
begin

text \<open>
  \<open>adapters/outbox\<close> and \<open>adapters/queue\<close>: envelopes of other libraries mapped to events and back. The
  structs of those libraries are records of the fields the adapters use, with one field of any type for
  the rest, which the adapters copy. Their functions are arguments: \<open>ParseTenantID\<close> with the value of a
  parsed tenant, and the \<open>Validate\<close> method of a queue message.
\<close>

section \<open>The transactional outbox\<close>

record 'x outbox_Envelope =
  oe_ID :: bytes
  oe_Topic :: bytes
  oe_PayloadVersion :: nat
  oe_Payload :: "bytes option"
  oe_Metadata :: "(bytes, bytes) gomap option"
  oe_other :: 'x

record outbox_Options =
  oo_Source :: bytes
  oo_Type :: bytes
  oo_DataContentType :: bytes
  oo_DataSchema :: bytes
  oo_Subject :: bytes
  oo_OccurredAt :: "gotime option"

definition outbox_cloneEnvelope :: "'x outbox_Envelope \<Rightarrow> 'x outbox_Envelope" where
  "outbox_cloneEnvelope envelope = envelope\<lparr>oe_Payload := CloneBytes (oe_Payload envelope),
     oe_Metadata := CloneStrings (oe_Metadata envelope)\<rparr>"

definition outbox_ToCloudEvent ::
    "'x outbox_Envelope \<Rightarrow> outbox_Options \<Rightarrow> (Event \<times> 'x outbox_Envelope \<times> report) result" where
  "outbox_ToCloudEvent envelope options =
     (if oe_ID envelope = '''' \<or> oo_Source options = '''' \<or> oo_Type options = ''''
      then Inl (Errorf ErrInvalidAdapterInput ''outbox mapping'')
      else and_then (DataFromPayload (oo_DataContentType options) (oe_Payload envelope)) (\<lambda>data.
        and_then (NewEvent \<lparr>a_ID = oe_ID envelope, a_Source = oo_Source options, a_Type = oo_Type options,
            a_DataContentType = oo_DataContentType options, a_DataSchema = oo_DataSchema options,
            a_Subject = oo_Subject options, a_Time = CloneTimePointer (oo_OccurredAt options),
            a_Extensions = []\<rparr> data) (\<lambda>e.
          Inr (e, outbox_cloneEnvelope envelope, []))))"

definition outbox_losses :: "Event \<Rightarrow> report" where
  "outbox_losses e =
     (let report = [Loss ''source'' ''not represented by outbox'', Loss ''type'' ''outbox topic is transport-owned''];
          report = (if snd (Event_DataContentType e)
            then report @ [Loss ''datacontenttype'' ''not represented by outbox''] else report);
          report = AppendDataKindLoss e report ''outbox'' False;
          report = AppendOptionalContextLosses e report ''outbox''
      in AppendExtensionLosses e report ''outbox'' [])"

definition outbox_FromCloudEvent ::
    "Event \<Rightarrow> 'x outbox_Envelope \<Rightarrow> ('x outbox_Envelope \<times> report) result" where
  "outbox_FromCloudEvent e state =
     (if Event_Validate e \<noteq> Inr () \<or> oe_Topic state = '''' \<or> oe_PayloadVersion state = 0
      then Inl (Errorf ErrInvalidAdapterInput ''outbox target'')
      else if oe_ID state \<noteq> '''' \<and> oe_ID state \<noteq> Event_ID e then Inl (Errorf ErrMetadataCollision ''outbox id'')
      else if \<not> Data_Present (Event_Data e) then Inl (Errorf ErrInvalidAdapterInput ''outbox payload'')
      else let state = outbox_cloneEnvelope state in
        Inr (state\<lparr>oe_ID := Event_ID e,
               oe_Payload := RestoreRetainedNil (Event_Data e) (oe_Payload state = None)\<rparr>, outbox_losses e))"

section \<open>Queue jobs\<close>

record 'x queue_Metadata =
  qm_OriginalID :: bytes
  qm_JobType :: bytes
  qm_ContentType :: bytes
  qm_TenantID :: bytes
  qm_Tags :: "(bytes, bytes) gomap option"
  qm_Correlation :: "(bytes, bytes) gomap option"
  qm_TraceContext :: "(bytes, bytes) gomap option"
  qm_EnqueuedAt :: "gotime option"
  qm_other :: 'x

record ('x, 'y) queue_Message =
  qj_Body :: "bytes option"
  qj_Metadata :: "'x queue_Metadata option"
  qj_other :: 'y

record queue_Options =
  qo_Source :: bytes
  qo_StableID :: bytes
  qo_Type :: bytes
  qo_OccurredAt :: "gotime option"

text \<open>\<open>validatedTenant\<close>, over the parser of package tenancy composed with the value of its result.\<close>

type_synonym tenant_parser = "bytes \<Rightarrow> bytes result"

definition validatedTenant :: "tenant_parser \<Rightarrow> bytes \<Rightarrow> bytes result" where
  "validatedTenant parse_tenant value =
     (if value = '''' then Inr ''''
      else case parse_tenant value of
          Inl err \<Rightarrow> Inl (ErrorfWrap ErrInvalidAdapterInput ''tenant'' err)
        | Inr tenantValue \<Rightarrow> Inr tenantValue)"

text \<open>Reading a Go map that may be nil.\<close>

definition map_value :: "(bytes, bytes) gomap option \<Rightarrow> bytes \<Rightarrow> bytes" where
  "map_value m key = (case m of None \<Rightarrow> '''' | Some n \<Rightarrow> (case map_of n key of None \<Rightarrow> '''' | Some v \<Rightarrow> v))"

definition queue_mappings :: "'x queue_Metadata \<Rightarrow> (bytes \<times> bytes) list" where
  "queue_mappings metadata =
     [(CorrelationIDExtension, map_value (qm_Correlation metadata) CorrelationIDExtension),
      (RequestIDExtension, map_value (qm_Correlation metadata) RequestIDExtension),
      (CausationIDExtension, map_value (qm_Correlation metadata) CausationIDExtension),
      (''traceparent'', map_value (qm_TraceContext metadata) ''traceparent''),
      (''tracestate'', map_value (qm_TraceContext metadata) ''tracestate''),
      (TenantIDExtension, qm_TenantID metadata)]"

definition queue_addMapping ::
    "(bytes, Attribute) gomap \<Rightarrow> bytes \<times> bytes \<Rightarrow> (bytes, Attribute) gomap result" where
  "queue_addMapping extensions mapping =
     (case mapping of (target, source) \<Rightarrow>
        if source \<noteq> '''' then
          (case NewStringAttribute source of
             Inl err \<Rightarrow> Inl (ErrorfWrap ErrInvalidAdapterInput (''queue extension '' @ target) err)
           | Inr attribute \<Rightarrow> Inr (AList.update target attribute extensions))
        else Inr extensions)"

definition queueExtensions ::
    "tenant_parser \<Rightarrow> 'x queue_Metadata option \<Rightarrow> (bytes, Attribute) gomap result" where
  "queueExtensions parse_tenant metadata =
     (case metadata of
        None \<Rightarrow> Inr []
      | Some md \<Rightarrow>
          and_then (validatedTenant parse_tenant (qm_TenantID md)) (\<lambda>_.
            fold_result queue_addMapping [] (queue_mappings md)))"

definition queue_verifyMapping :: "tenant_parser \<Rightarrow> Event \<Rightarrow> unit \<Rightarrow> bytes \<times> bytes \<Rightarrow> unit result" where
  "queue_verifyMapping parse_tenant e u mapping =
     (case mapping of (name, retained) \<Rightarrow>
        and_then (StringExtension e name) (\<lambda>(value, present).
        and_then (if name = TenantIDExtension \<and> present
                  then and_then (validatedTenant parse_tenant value) (\<lambda>_. Inr ()) else Inr ()) (\<lambda>_.
        if (\<not> present \<and> retained \<noteq> '''') \<or> (present \<and> retained \<noteq> value)
        then Inl (Errorf ErrMetadataCollision (''queue extension '' @ name)) else Inr ())))"

definition queue_verifyExtensions :: "tenant_parser \<Rightarrow> Event \<Rightarrow> 'x queue_Metadata \<Rightarrow> unit result" where
  "queue_verifyExtensions parse_tenant e metadata =
     and_then (validatedTenant parse_tenant (qm_TenantID metadata)) (\<lambda>_.
       fold_result (queue_verifyMapping parse_tenant e) () (queue_mappings metadata))"

definition queue_cloneJob :: "('x, 'y) queue_Message \<Rightarrow> ('x, 'y) queue_Message" where
  "queue_cloneJob message =
     message\<lparr>qj_Body := CloneBytes (qj_Body message),
       qj_Metadata := map_option (\<lambda>md. md\<lparr>qm_Tags := CloneStrings (qm_Tags md),
         qm_Correlation := CloneStrings (qm_Correlation md),
         qm_TraceContext := CloneStrings (qm_TraceContext md),
         qm_EnqueuedAt := CloneTimePointer (qm_EnqueuedAt md)\<rparr>) (qj_Metadata message)\<rparr>"

text \<open>The identity and the content type that \<open>ToCloudEvent\<close> selects.\<close>

definition queue_identity :: "('x, 'y) queue_Message \<Rightarrow> queue_Options \<Rightarrow> bytes \<times> bytes \<times> bytes" where
  "queue_identity message options =
     (case qj_Metadata message of
        None \<Rightarrow> (qo_StableID options, qo_Type options, '''')
      | Some md \<Rightarrow>
          (if qo_StableID options = '''' then qm_OriginalID md else qo_StableID options,
           if qo_Type options = '''' then qm_JobType md else qo_Type options, qm_ContentType md))"

definition queue_ToCloudEvent ::
    "tenant_parser \<Rightarrow> (('x, 'y) queue_Message \<Rightarrow> unit result) \<Rightarrow> ('x, 'y) queue_Message \<Rightarrow> queue_Options
      \<Rightarrow> (Event \<times> ('x, 'y) queue_Message \<times> report) result" where
  "queue_ToCloudEvent parse_tenant validate message options =
     and_then (case qj_Metadata message of
         None \<Rightarrow> Inr '''' | Some md \<Rightarrow> validatedTenant parse_tenant (qm_TenantID md)) (\<lambda>_.
     if validate message \<noteq> Inr () \<or> qo_Source options = ''''
     then Inl (Errorf ErrInvalidAdapterInput ''queue mapping'')
     else case queue_identity message options of (ident, eventType, contentType) \<Rightarrow>
       if ident = '''' \<or> eventType = '''' then Inl (Errorf ErrInvalidAdapterInput ''queue identity'')
       else and_then (DataFromPayload contentType (qj_Body message)) (\<lambda>data.
         and_then (queueExtensions parse_tenant (qj_Metadata message)) (\<lambda>extensions.
         and_then (NewEvent \<lparr>a_ID = ident, a_Source = qo_Source options, a_Type = eventType,
             a_DataContentType = contentType, a_DataSchema = '''', a_Subject = '''',
             a_Time = CloneTimePointer (qo_OccurredAt options), a_Extensions = extensions\<rparr> data) (\<lambda>e.
           Inr (e, queue_cloneJob message, [])))))"

definition queue_losses :: "Event \<Rightarrow> report" where
  "queue_losses e =
     AppendExtensionLosses e
       (AppendOptionalContextLosses e
         (AppendDataKindLoss e [Loss ''source'' ''not represented by queue''] ''queue'' True) ''queue'') ''queue''
       [CorrelationIDExtension, RequestIDExtension, CausationIDExtension, ''traceparent'', ''tracestate'',
        TenantIDExtension]"

text \<open>The argument \<open>zero_md\<close> is the zero value of \<open>job.Metadata\<close>.\<close>

definition queue_FromCloudEvent ::
    "tenant_parser \<Rightarrow> 'x queue_Metadata \<Rightarrow> Event \<Rightarrow> ('x, 'y) queue_Message
      \<Rightarrow> (('x, 'y) queue_Message \<times> report) result" where
  "queue_FromCloudEvent parse_tenant zero_md e state =
     (if Event_Validate e \<noteq> Inr () \<or> \<not> Data_Present (Event_Data e)
      then Inl (Errorf ErrInvalidAdapterInput ''queue target'')
      else let state = queue_cloneJob state;
               md = (case qj_Metadata state of None \<Rightarrow> zero_md | Some md \<Rightarrow> md);
               contentType = fst (Event_DataContentType e);
               updated = md\<lparr>qm_OriginalID := Event_ID e, qm_JobType := Event_Type e, qm_ContentType := contentType\<rparr>
           in
        if qm_OriginalID md \<noteq> '''' \<and> qm_OriginalID md \<noteq> Event_ID e
        then Inl (Errorf ErrMetadataCollision ''queue original id'')
        else if qm_JobType md \<noteq> '''' \<and> qm_JobType md \<noteq> Event_Type e
        then Inl (Errorf ErrMetadataCollision ''queue job type'')
        else if qm_ContentType md \<noteq> '''' \<and> qm_ContentType md \<noteq> contentType
        then Inl (Errorf ErrMetadataCollision ''queue content type'')
        else and_then (queue_verifyExtensions parse_tenant e updated) (\<lambda>_.
          Inr (state\<lparr>qj_Body := RestoreRetainedNil (Event_Data e) (qj_Body state = None),
                 qj_Metadata := Some updated\<rparr>, queue_losses e)))"

section \<open>Reversing the outbox\<close>

lemma DataFromPayload_Inr:
  assumes "DataFromPayload ct p = Inr d"
  shows "data_ok d" "data_present d" "data_bytes d = slice_bytes p"
  using assms
  by (auto simp: DataFromPayload_def NewJSONData_def NewTextData_def NewBinaryData_def data_ok_def Let_def
      split: if_splits prod.splits)

lemma RestoreRetainedNil_payload:
  assumes "event_wf e" "data_present (ev_data e)" "data_bytes (ev_data e) = slice_bytes p"
  shows "RestoreRetainedNil (Event_Data e) (p = None) = p"
  using assms by (cases p) (auto simp: RestoreRetainedNil_def Event_Data_id Data_Bytes_def slice_bytes_def)

definition outbox_state_ok :: "'x outbox_Envelope \<Rightarrow> bool" where
  "outbox_state_ok envelope \<longleftrightarrow> oe_Topic envelope \<noteq> '''' \<and> oe_PayloadVersion envelope \<noteq> 0
     \<and> pred_option wf_map (oe_Metadata envelope)"

lemma outbox_ToCloudEvent_Inr:
  assumes "outbox_ToCloudEvent envelope options = Inr (e, state, report)"
    and "pred_option (\<lambda>t. nsec t < 10 ^ 9) (oo_OccurredAt options)" and "pred_option wf_map (oe_Metadata envelope)"
  shows "valid_event e" "state = envelope" "ev_id e = oe_ID envelope" "data_present (ev_data e)"
    "data_bytes (ev_data e) = slice_bytes (oe_Payload envelope)" "oe_ID envelope \<noteq> ''''"
proof -
  let ?a = "\<lambda>d. \<lparr>a_ID = oe_ID envelope, a_Source = oo_Source options, a_Type = oo_Type options,
    a_DataContentType = oo_DataContentType options, a_DataSchema = oo_DataSchema options,
    a_Subject = oo_Subject options, a_Time = oo_OccurredAt options, a_Extensions = []\<rparr>"
  from assms(1) obtain d where d: "DataFromPayload (oo_DataContentType options) (oe_Payload envelope) = Inr d"
    and e: "NewEvent (?a d) d = Inr e" and s: "state = outbox_cloneEnvelope envelope" "oe_ID envelope \<noteq> ''''"
    by (auto simp: outbox_ToCloudEvent_def split: if_splits)
  have w: "attributes_wf (?a d)" using assms(2) by (simp add: attributes_wf_def)
  note k = DataFromPayload_Inr [OF d]
  show "valid_event e" by (rule NewEvent_valid [OF w k(1) e])
  show "ev_id e = oe_ID envelope" "data_present (ev_data e)"
    "data_bytes (ev_data e) = slice_bytes (oe_Payload envelope)"
    using e k unfolding NewEvent_Inr [OF w k(1)] by simp_all
  show "state = envelope" "oe_ID envelope \<noteq> ''''"
    using s CloneStrings_id [OF assms(3)] by (simp_all add: outbox_cloneEnvelope_def)
qed

lemma outbox_roundtrip_state:
  assumes "outbox_ToCloudEvent envelope options = Inr (e, state, report)"
    and "pred_option (\<lambda>t. nsec t < 10 ^ 9) (oo_OccurredAt options)" and "outbox_state_ok envelope"
  shows "outbox_FromCloudEvent e state = Inr (envelope, outbox_losses e)"
proof -
  have m: "pred_option wf_map (oe_Metadata envelope)" using assms(3) by (simp add: outbox_state_ok_def)
  note k = outbox_ToCloudEvent_Inr [OF assms(1,2) m]
  have w: "event_wf e" using k(1) by (simp add: valid_event_def)
  have "outbox_cloneEnvelope envelope = envelope" using CloneStrings_id [OF m] by (simp add: outbox_cloneEnvelope_def)
  moreover have "Data_Present (Event_Data e)" using k(4) by (simp add: Event_Data_id [OF w] Data_Present_def)
  ultimately show ?thesis
    using k assms(3) RestoreRetainedNil_payload [OF w k(4,5)]
    by (simp add: outbox_FromCloudEvent_def outbox_state_ok_def Event_ID_def Let_def)
qed

definition outbox_fits :: "'x outbox_Envelope \<Rightarrow> outbox_Options \<Rightarrow> bool" where
  "outbox_fits envelope options \<longleftrightarrow>
     outbox_state_ok envelope \<and> pred_option (\<lambda>t. nsec t < 10 ^ 9) (oo_OccurredAt options)"

interpretation outbox: reversible_adapter outbox_ToCloudEvent outbox_FromCloudEvent outbox_fits
    "\<lambda>envelope e _. Inr (envelope, outbox_losses e)"
proof unfold_locales
  fix m :: "'x outbox_Envelope" and opts e s losses
  assume f: "outbox_fits m opts" and t: "outbox_ToCloudEvent m opts = Inr (e, s, losses)"
  then have n: "pred_option (\<lambda>t. nsec t < 10 ^ 9) (oo_OccurredAt opts)" and ok: "outbox_state_ok m"
    and w: "pred_option wf_map (oe_Metadata m)"
    by (simp_all add: outbox_fits_def outbox_state_ok_def)
  show "losses = [] \<and> valid_event e"
    using t outbox_ToCloudEvent_Inr(1) [OF t n w] by (auto simp: outbox_ToCloudEvent_def split: if_splits)
  show "outbox_FromCloudEvent e s = Inr (m, outbox_losses e)" by (rule outbox_roundtrip_state [OF t n ok])
qed

section \<open>Reversing the queue\<close>

lemma queue_addMapping_Inr:
  "queue_addMapping m (n, v) = Inr m' \<longleftrightarrow>
     (if v = '''' then m' = m else validCloudString v \<and> m' = AList.update n (text_attribute v) m)"
  by (auto simp: queue_addMapping_def NewStringAttribute_def text_attribute_def)

lemma fold_queue_addMapping:
  assumes "fold_result queue_addMapping m ms = Inr m'" "plain_map m" "wf_map ms"
  shows "plain_map m' \<and> map_of m' n =
    (case map_of ms n of None \<Rightarrow> map_of m n | Some v \<Rightarrow> if v = '''' then map_of m n else Some (text_attribute v))"
  using assms
proof (induction ms arbitrary: m)
  case (Cons p ms)
  obtain k v where p: "p = (k, v)" by fastforce
  from Cons.prems(1) obtain t where t: "queue_addMapping m (k, v) = Inr t" "fold_result queue_addMapping t ms = Inr m'"
    by (auto simp: p)
  have w: "wf_map ms" "k \<notin> set (keys ms)" using Cons.prems(3) p by (simp_all add: wf_map_Cons)
  have "plain_map t" "t = (if v = '''' then m else AList.update k (text_attribute v) m)"
    using t(1) Cons.prems(2) plain_map_update [of m "text_attribute v" k]
    by (auto simp: queue_addMapping_Inr plain_bytes_def text_attribute_def split: if_splits)
  moreover from w(2) have "map_of ms k = None" by (simp add: map_of_None_iff)
  ultimately show ?case using Cons.IH [OF t(2) _ w(1)] by (auto simp: p split: option.splits)
qed auto

definition queue_maps_wf :: "'x queue_Metadata \<Rightarrow> bool" where
  "queue_maps_wf md \<longleftrightarrow> pred_option wf_map (qm_Tags md) \<and> pred_option wf_map (qm_Correlation md)
     \<and> pred_option wf_map (qm_TraceContext md)"

lemma queue_cloneJob_id:
  assumes "pred_option queue_maps_wf (qj_Metadata message)"
  shows "queue_cloneJob message = message"
  using assms by (cases "qj_Metadata message") (simp_all add: queue_cloneJob_def queue_maps_wf_def CloneStrings_id)

lemma queue_mappings_wf: "wf_map (queue_mappings md)"
  by (simp add: wf_map_def queue_mappings_def CorrelationIDExtension_def RequestIDExtension_def
      CausationIDExtension_def TenantIDExtension_def)

lemma queue_mappings_update:
  "queue_mappings (md\<lparr>qm_OriginalID := a, qm_JobType := b, qm_ContentType := c\<rparr>) = queue_mappings md"
  by (simp add: queue_mappings_def)

lemma queue_verify_ok:
  assumes "validatedTenant parse (qm_TenantID md) = Inr t"
    and x: "\<And>n v. (n, v) \<in> set (queue_mappings md) \<Longrightarrow>
      map_of (ev_extensions e) n = (if v = '''' then None else Some (text_attribute v))"
  shows "queue_verifyExtensions parse e md = Inr ()"
proof -
  have s: "StringExtension e n = Inr (v, v \<noteq> '''')" if "(n, v) \<in> set (queue_mappings md)" for n v
    using x [OF that] by (simp add: StringExtension_Inr text_attribute_def)
  have "(TenantIDExtension, v) \<in> set (queue_mappings md) \<Longrightarrow> v = qm_TenantID md" for v
    by (auto simp: queue_mappings_def CorrelationIDExtension_def RequestIDExtension_def CausationIDExtension_def
        TenantIDExtension_def)
  then have "queue_verifyMapping parse e () p = Inr ()" if "p \<in> set (queue_mappings md)" for p
    using s [of "fst p" "snd p"] that assms(1) by (cases p) (auto simp: queue_verifyMapping_def)
  then have "fold_result (queue_verifyMapping parse e) () ms = Inr ()" if "set ms \<subseteq> set (queue_mappings md)" for ms
    using that by (induction ms) auto
  then show ?thesis using assms(1) by (simp add: queue_verifyExtensions_def)
qed

definition zero_metadata :: "'x queue_Metadata \<Rightarrow> bool" where
  "zero_metadata md \<longleftrightarrow> qm_OriginalID md = '''' \<and> qm_JobType md = '''' \<and> qm_ContentType md = ''''
     \<and> qm_TenantID md = '''' \<and> qm_Correlation md = None \<and> qm_TraceContext md = None"

text \<open>The options do not override a retained identifier by another one.\<close>

definition queue_compatible :: "('x, 'y) queue_Message \<Rightarrow> queue_Options \<Rightarrow> bool" where
  "queue_compatible message options \<longleftrightarrow> pred_option (\<lambda>md.
     (qo_StableID options = '''' \<or> qm_OriginalID md \<in> {'''', qo_StableID options})
     \<and> (qo_Type options = '''' \<or> qm_JobType md \<in> {'''', qo_Type options})) (qj_Metadata message)"

lemma zero_mappings: "zero_metadata md \<Longrightarrow> (n, v) \<in> set (queue_mappings md) \<Longrightarrow> v = ''''"
  by (auto simp: queue_mappings_def zero_metadata_def map_value_def)

lemma queueExtensions_lookup:
  assumes "queueExtensions parse metadata = Inr xs" and "zero_metadata z"
    and "(n, v) \<in> set (queue_mappings (case metadata of None \<Rightarrow> z | Some md \<Rightarrow> md))"
  shows "map_of xs n = (if v = '''' then None else Some (text_attribute v))"
proof (cases metadata)
  case None
  then show ?thesis using assms zero_mappings [OF assms(2)] by (simp add: queueExtensions_def)
next
  case (Some md)
  then have f: "fold_result queue_addMapping [] (queue_mappings md) = Inr xs"
    using assms(1) by (auto simp: queueExtensions_def)
  have "map_of (queue_mappings md) n = Some v"
    using assms(3) Some queue_mappings_wf [of md] by (simp add: map_of_Some_iff)
  then show ?thesis using fold_queue_addMapping [OF f _ queue_mappings_wf, of n] by simp
qed

lemma queueExtensions_plain: "queueExtensions parse metadata = Inr xs \<Longrightarrow> plain_map xs"
  using fold_queue_addMapping [OF _ plain_map_Nil queue_mappings_wf]
  by (fastforce simp: queueExtensions_def split: option.splits)


lemma queue_ToCloudEvent_Inr:
  assumes t: "queue_ToCloudEvent parse validate message options = Inr (e, state, report)"
    and n: "pred_option (\<lambda>t. nsec t < 10 ^ 9) (qo_OccurredAt options)"
    and m: "pred_option queue_maps_wf (qj_Metadata message)" and z: "zero_metadata zero_md"
  defines "md \<equiv> case qj_Metadata message of None \<Rightarrow> zero_md | Some md \<Rightarrow> md"
  shows "valid_event e" "state = message" "(ev_id e, ev_type e, ev_dataContentType e) = queue_identity message options"
    "data_present (ev_data e)" "data_bytes (ev_data e) = slice_bytes (qj_Body message)"
    "queue_verifyExtensions parse e md = Inr ()"
proof -
  obtain ident ty ct where q: "queue_identity message options = (ident, ty, ct)" by (metis prod_cases3)
  define a where "a xs = \<lparr>a_ID = ident, a_Source = qo_Source options, a_Type = ty, a_DataContentType = ct,
    a_DataSchema = '''', a_Subject = '''', a_Time = qo_OccurredAt options, a_Extensions = xs\<rparr>" for xs
  from t obtain tv d xs where v: "(case qj_Metadata message of
        None \<Rightarrow> Inr '''' | Some md \<Rightarrow> validatedTenant parse (qm_TenantID md)) = Inr tv"
    and d: "DataFromPayload ct (qj_Body message) = Inr d" and x: "queueExtensions parse (qj_Metadata message) = Inr xs"
    and e: "NewEvent (a xs) d = Inr e" and s: "state = queue_cloneJob message"
    by (auto simp: queue_ToCloudEvent_def q a_def split: if_splits)
  have w: "attributes_wf (a xs)" using n queueExtensions_plain [OF x] by (simp add: attributes_wf_def a_def)
  note k = DataFromPayload_Inr [OF d]
  note ev = e [unfolded NewEvent_Inr [OF w k(1)]]
  show "valid_event e" by (rule NewEvent_valid [OF w k(1) e])
  show "state = message" using s queue_cloneJob_id [OF m] by simp
  show "(ev_id e, ev_type e, ev_dataContentType e) = queue_identity message options"
    "data_present (ev_data e)" "data_bytes (ev_data e) = slice_bytes (qj_Body message)"
    using ev k by (simp_all add: q a_def)
  have tenant: "\<exists>t. validatedTenant parse (qm_TenantID md) = Inr t"
    using v z by (cases "qj_Metadata message") (auto simp: md_def zero_metadata_def validatedTenant_def)
  have "ev_extensions e = xs" using ev by (simp add: a_def)
  then show "queue_verifyExtensions parse e md = Inr ()"
    using tenant queueExtensions_lookup [OF x z] unfolding md_def by (metis queue_verify_ok)
qed

lemma queue_roundtrip_state:
  assumes t: "queue_ToCloudEvent parse validate message options = Inr (e, state, report)"
    and n: "pred_option (\<lambda>t. nsec t < 10 ^ 9) (qo_OccurredAt options)"
    and m: "pred_option queue_maps_wf (qj_Metadata message)" and z: "zero_metadata zero_md"
    and c: "queue_compatible message options"
  defines "md \<equiv> case qj_Metadata message of None \<Rightarrow> zero_md | Some md \<Rightarrow> md"
  shows "queue_FromCloudEvent parse zero_md e state =
    Inr (message\<lparr>qj_Metadata := Some (md\<lparr>qm_OriginalID := ev_id e, qm_JobType := ev_type e\<rparr>)\<rparr>, queue_losses e)"
proof -
  note k = queue_ToCloudEvent_Inr [OF t n m z, folded md_def]
  have w: "event_wf e" using k(1) by (simp add: valid_event_def)
  have ids: "qm_OriginalID md = '''' \<or> qm_OriginalID md = ev_id e" "qm_JobType md = '''' \<or> qm_JobType md = ev_type e"
    "qm_ContentType md = ev_dataContentType e"
    using k(3) c z unfolding md_def queue_identity_def queue_compatible_def
    by (cases "qj_Metadata message"; auto simp: zero_metadata_def split: if_splits)+
  let ?u = "md\<lparr>qm_OriginalID := ev_id e, qm_JobType := ev_type e, qm_ContentType := ev_dataContentType e\<rparr>"
  have "queue_verifyExtensions parse e ?u = Inr ()"
    using k(6) by (simp add: queue_verifyExtensions_def queue_mappings_update)
  moreover have "Data_Present (Event_Data e)" using k(4) by (simp add: Event_Data_id [OF w] Data_Present_def)
  ultimately have "queue_FromCloudEvent parse zero_md e state
      = Inr (message\<lparr>qj_Metadata := Some ?u\<rparr>, queue_losses e)"
    using k(1,2) ids RestoreRetainedNil_payload [OF w k(4,5)] queue_cloneJob_id [OF m]
    by (simp add: queue_FromCloudEvent_def Let_def md_def [symmetric] Event_ID_def Event_Type_def Event_DataContentType_def)
  moreover have "?u = md\<lparr>qm_OriginalID := ev_id e, qm_JobType := ev_type e\<rparr>" using ids(3) by (cases md) simp
  ultimately show ?thesis by (simp only:)
qed

lemma queue_override_collides:
  assumes t: "queue_ToCloudEvent parse validate message options = Inr (e, state, report)"
    and n: "pred_option (\<lambda>t. nsec t < 10 ^ 9) (qo_OccurredAt options)"
    and m: "pred_option queue_maps_wf (qj_Metadata message)" and z: "zero_metadata zero_md"
    and o: "qj_Metadata message = Some md" "qo_StableID options \<noteq> ''''" "qm_OriginalID md \<notin> {'''', qo_StableID options}"
  shows "queue_FromCloudEvent parse zero_md e state = Inl (Errorf ErrMetadataCollision ''queue original id'')"
proof -
  note k = queue_ToCloudEvent_Inr [OF t n m z]
  have w: "event_wf e" using k(1) by (simp add: valid_event_def)
  have "ev_id e = qo_StableID options" using k(3) o by (simp add: queue_identity_def)
  moreover have "Data_Present (Event_Data e)" using k(4) by (simp add: Event_Data_id [OF w] Data_Present_def)
  ultimately show ?thesis
    using k(1,2) o queue_cloneJob_id [OF m] by (simp add: queue_FromCloudEvent_def Let_def Event_ID_def)
qed

definition queue_fits :: "('x, 'y) queue_Message \<Rightarrow> queue_Options \<Rightarrow> bool" where
  "queue_fits message options \<longleftrightarrow> pred_option (\<lambda>t. nsec t < 10 ^ 9) (qo_OccurredAt options)
     \<and> pred_option queue_maps_wf (qj_Metadata message) \<and> queue_compatible message options"

definition queue_restored :: "'x queue_Metadata \<Rightarrow> ('x, 'y) queue_Message \<Rightarrow> Event \<Rightarrow> ('x, 'y) queue_Message" where
  "queue_restored zero_md message e =
     message\<lparr>qj_Metadata := Some ((case qj_Metadata message of None \<Rightarrow> zero_md | Some md \<Rightarrow> md)
       \<lparr>qm_OriginalID := ev_id e, qm_JobType := ev_type e\<rparr>)\<rparr>"

text \<open>The zero metadata of a library whose other fields have the value \<open>x\<close>.\<close>

definition zero_queue_metadata :: "'x \<Rightarrow> 'x queue_Metadata" where
  "zero_queue_metadata x = \<lparr>qm_OriginalID = '''', qm_JobType = '''', qm_ContentType = '''', qm_TenantID = '''',
     qm_Tags = None, qm_Correlation = None, qm_TraceContext = None, qm_EnqueuedAt = None, qm_other = x\<rparr>"

lemma zero_queue_metadata: "zero_metadata (zero_queue_metadata x)"
  by (simp add: zero_metadata_def zero_queue_metadata_def)

interpretation queue: reversible_adapter "queue_ToCloudEvent parse validate"
    "queue_FromCloudEvent parse (zero_queue_metadata x)" queue_fits
    "\<lambda>message e _. Inr (queue_restored (zero_queue_metadata x) message e, queue_losses e)" for parse validate x
proof unfold_locales
  fix m :: "('a, 'b) queue_Message" and opts e s losses
  assume f: "queue_fits m opts" and t: "queue_ToCloudEvent parse validate m opts = Inr (e, s, losses)"
  then have n: "pred_option (\<lambda>t. nsec t < 10 ^ 9) (qo_OccurredAt opts)" "pred_option queue_maps_wf (qj_Metadata m)"
    "queue_compatible m opts"
    by (simp_all add: queue_fits_def)
  show "losses = [] \<and> valid_event e"
    using t queue_ToCloudEvent_Inr(1) [OF t n(1,2) zero_queue_metadata]
    by (auto simp: queue_ToCloudEvent_def split: if_splits prod.splits)
  show "queue_FromCloudEvent parse (zero_queue_metadata x) e s
      = Inr (queue_restored (zero_queue_metadata x) m e, queue_losses e)"
    unfolding queue_restored_def by (rule queue_roundtrip_state [OF t n(1,2) zero_queue_metadata n(3)])
qed

section \<open>Properties\<close>

text \<open>
  C30. The outbox adapter is reversible: when \<open>ToCloudEvent\<close> maps an envelope with a topic and a payload version,
  \<open>FromCloudEvent\<close> of the event and the retained state returns exactly that envelope, a nil payload staying nil
  and an empty one staying empty, and a report that starts with the two fields an outbox never carries.
\<close>

theorem outbox_roundtrip:
  assumes "outbox_ToCloudEvent envelope options = Inr (e, state, report)" and "outbox_fits envelope options"
  shows "report = [] \<and> valid_event e \<and> outbox_FromCloudEvent e state = Inr (envelope, outbox_losses e)"
  by (rule outbox.reverses [OF assms(2,1)])

definition envelope_sample :: "unit outbox_Envelope" where
  "envelope_sample = \<lparr>oe_ID = ''1'', oe_Topic = ''orders'', oe_PayloadVersion = 1, oe_Payload = None,
     oe_Metadata = Some [(''k'', ''v'')], oe_other = ()\<rparr>"

definition outbox_options_sample :: outbox_Options where
  "outbox_options_sample = \<lparr>oo_Source = ''/s'', oo_Type = ''t'', oo_DataContentType = '''', oo_DataSchema = '''',
     oo_Subject = '''', oo_OccurredAt = None\<rparr>"

lemma outbox_sample:
  obtains e where "outbox_ToCloudEvent envelope_sample outbox_options_sample = Inr (e, envelope_sample, [])"
proof -
  let ?d = "NewBinaryData []"
  let ?a = "\<lparr>a_ID = ''1'', a_Source = ''/s'', a_Type = ''t'', a_DataContentType = '''', a_DataSchema = '''',
    a_Subject = '''', a_Time = None, a_Extensions = []\<rparr>"
  have w: "attributes_wf ?a" "data_ok ?d" by (simp_all add: attributes_wf_def data_ok_def NewBinaryData_def)
  have "valid_context ?a"
    by (simp add: valid_context_def selected_ok_def eval_defs)
  then obtain e where "NewEvent ?a ?d = Inr e" using NewEvent_Inr [OF w] by blast
  then show thesis
    by (intro that [of e])
      (simp add: outbox_ToCloudEvent_def envelope_sample_def outbox_options_sample_def DataFromPayload_def
        outbox_cloneEnvelope_def CloneStrings_def slice_bytes_def copy_map_def)
qed

theorem outbox_roundtrip_witness:
  "\<exists>e. outbox_ToCloudEvent envelope_sample outbox_options_sample = Inr (e, envelope_sample, [])
    \<and> outbox_FromCloudEvent e envelope_sample = Inr (envelope_sample, outbox_losses e)"
proof -
  obtain e where e: "outbox_ToCloudEvent envelope_sample outbox_options_sample = Inr (e, envelope_sample, [])"
    by (rule outbox_sample)
  have "outbox_fits envelope_sample outbox_options_sample"
    by (simp add: outbox_fits_def outbox_state_ok_def envelope_sample_def outbox_options_sample_def wf_map_def)
  then show ?thesis using outbox_roundtrip [OF e] e by blast
qed

text \<open>
  C31. The queue adapter is reversible: when the options do not replace a retained identifier or job type by another
  one, \<open>FromCloudEvent\<close> of the event and the retained state returns the message with its body, nil or not, and its
  metadata unchanged but for the identifier and type of the event, which fill the fields that were empty.
\<close>

theorem queue_roundtrip:
  assumes "queue_ToCloudEvent parse validate message options = Inr (e, state, report)" and "queue_fits message options"
  shows "report = [] \<and> valid_event e \<and> queue_FromCloudEvent parse (zero_queue_metadata x) e state =
    Inr (queue_restored (zero_queue_metadata x) message e, queue_losses e)"
  by (rule queue.reverses [OF assms(2,1)])

definition message_sample :: "(unit, unit) queue_Message" where
  "message_sample = \<lparr>qj_Body = Some ''b'', qj_Metadata = Some ((zero_queue_metadata ())\<lparr>qm_OriginalID := ''1'',
     qm_TenantID := ''acme''\<rparr>), qj_other = ()\<rparr>"

definition queue_options_sample :: queue_Options where
  "queue_options_sample = \<lparr>qo_Source = ''/s'', qo_StableID = '''', qo_Type = ''t'', qo_OccurredAt = None\<rparr>"

lemma queue_sample:
  obtains e where "queue_ToCloudEvent Inr (\<lambda>_. Inr ()) message_sample queue_options_sample = Inr (e, message_sample, [])"
proof -
  let ?d = "NewBinaryData ''b''"
  let ?a = "\<lparr>a_ID = ''1'', a_Source = ''/s'', a_Type = ''t'', a_DataContentType = '''', a_DataSchema = '''',
    a_Subject = '''', a_Time = None, a_Extensions = [(''tenantid'', text_attribute ''acme'')]\<rparr>"
  have w: "attributes_wf ?a" "data_ok ?d"
    by (simp_all add: attributes_wf_def data_ok_def NewBinaryData_def plain_map_def wf_map_def plain_bytes_def text_attribute_def)
  have "valid_context ?a"
    by (simp add: valid_context_def text_attribute_def valid_extension_def selected_ok_def isReservedAttributeName_def
        reservedAttributeNames_def validAttribute_def eval_defs)
  then obtain e where "NewEvent ?a ?d = Inr e" using NewEvent_Inr [OF w] by blast
  moreover have "queueExtensions Inr (qj_Metadata message_sample) = Inr [(''tenantid'', text_attribute ''acme'')]"
  proof -
    have "validCloudString ''acme''" by (simp add: eval_defs)
    then show ?thesis
      by (simp add: queueExtensions_def message_sample_def zero_queue_metadata_def validatedTenant_def queue_mappings_def
          map_value_def queue_addMapping_def NewStringAttribute_def text_attribute_def TenantIDExtension_def)
  qed
  ultimately show thesis
    by (intro that [of e])
      (simp add: queue_ToCloudEvent_def message_sample_def zero_queue_metadata_def queue_options_sample_def DataFromPayload_def
        queue_cloneJob_def CloneStrings_def slice_bytes_def validatedTenant_def queue_identity_def)
qed

theorem queue_roundtrip_witness:
  "\<exists>e out. queue_ToCloudEvent Inr (\<lambda>_. Inr ()) message_sample queue_options_sample = Inr (e, message_sample, [])
    \<and> queue_FromCloudEvent Inr (zero_queue_metadata ()) e message_sample = Inr (out, queue_losses e)"
proof -
  obtain e where e: "queue_ToCloudEvent Inr (\<lambda>_. Inr ()) message_sample queue_options_sample = Inr (e, message_sample, [])"
    by (rule queue_sample)
  have "queue_fits message_sample queue_options_sample"
    by (simp add: queue_fits_def queue_compatible_def queue_maps_wf_def message_sample_def queue_options_sample_def
        zero_queue_metadata_def)
  then show ?thesis using queue_roundtrip [OF e] e by blast
qed

end
