(* ===== verification/CE_Histories.thy ===== *)
theory CE_Histories
  imports CE_Envelopes
begin

text \<open>
  \<open>adapters/event-sourcing\<close> and \<open>adapters/workflow\<close>. A message or a history event of those libraries is the
  record of what its accessors return; an identifier or a name is its text. The constructors of the
  libraries are arguments, so the results say with which inputs the adapters call them.
\<close>

section \<open>Event sourcing\<close>

definition eventSchemaExtension :: bytes where
  "eventSchemaExtension = ''eventschema''"

record stream_id =
  si_AggregateType :: bytes
  si_AggregateID :: bytes

record es_Encoded =
  ee_Name :: bytes
  ee_Version :: nat
  ee_ContentType :: bytes
  ee_Payload :: "bytes option"

record es_Message =
  em_ID :: bytes
  em_ID_IsZero :: bool
  em_Stream :: stream_id
  em_StreamVersion :: nat
  em_GlobalPosition :: "nat option"
  em_Event :: es_Encoded
  em_Metadata :: "(bytes, bytes) gomap option"
  em_RecordedAt :: gotime
  em_CorrelationID :: "bytes option"
  em_CausationID :: "bytes option"
  em_Tenant :: "bytes option"
  em_Partition :: "bytes option"

record es_Options =
  eo_Source :: bytes
  eo_DataSchema :: bytes
  eo_OccurredAt :: "gotime option"

record es_State =
  es_Stream :: stream_id
  es_StreamVersion :: nat
  es_GlobalPosition :: nat
  es_EventVersion :: nat
  es_Metadata :: "(bytes, bytes) gomap option"
  es_RecordedAt :: gotime
  es_CorrelationID :: bytes
  es_CausationID :: bytes
  es_Tenant :: bytes
  es_Partition :: bytes
  es_TrustMetadata :: bool

definition encodeStreamSubject :: "stream_id \<Rightarrow> bytes" where
  "encodeStreamSubject stream = b64_raw_url (si_AggregateType stream) @ ''.'' @ b64_raw_url (si_AggregateID stream)"

text \<open>An attribute whose error the code drops: the zero attribute when the text is not valid.\<close>

definition zero_attribute :: Attribute where
  "zero_attribute = \<lparr>attr_kind = AttributeUnassigned, attr_text = '''', attr_bytes = []\<rparr>"

definition string_attribute_or_zero :: "bytes \<Rightarrow> Attribute" where
  "string_attribute_or_zero value =
     (case NewStringAttribute value of Inl _ \<Rightarrow> zero_attribute | Inr attribute \<Rightarrow> attribute)"

definition put_present ::
    "bytes \<Rightarrow> bytes option \<Rightarrow> (bytes, Attribute) gomap \<Rightarrow> (bytes, Attribute) gomap" where
  "put_present name value extensions =
     (case value of None \<Rightarrow> extensions | Some v \<Rightarrow> AList.update name (string_attribute_or_zero v) extensions)"

definition text_or_empty :: "bytes option \<Rightarrow> bytes" where
  "text_or_empty value = (case value of None \<Rightarrow> '''' | Some v \<Rightarrow> v)"

definition es_tenant :: "tenant_parser \<Rightarrow> es_Message \<Rightarrow> bytes option result" where
  "es_tenant parse_tenant message =
     (case em_Tenant message of
        None \<Rightarrow> Inr None
      | Some value \<Rightarrow> and_then (validatedTenant parse_tenant value) (\<lambda>tenant. Inr (Some tenant)))"

definition es_state :: "es_Message \<Rightarrow> bytes option \<Rightarrow> es_State" where
  "es_state message tenant =
     \<lparr>es_Stream = em_Stream message, es_StreamVersion = em_StreamVersion message,
      es_GlobalPosition = (case em_GlobalPosition message of None \<Rightarrow> 0 | Some position \<Rightarrow> position),
      es_EventVersion = ee_Version (em_Event message), es_Metadata = CloneStrings (em_Metadata message),
      es_RecordedAt = em_RecordedAt message, es_CorrelationID = text_or_empty (em_CorrelationID message),
      es_CausationID = text_or_empty (em_CausationID message), es_Tenant = text_or_empty tenant,
      es_Partition = text_or_empty (em_Partition message), es_TrustMetadata = True\<rparr>"

definition es_extensions :: "es_Message \<Rightarrow> bytes option \<Rightarrow> (bytes, Attribute) gomap" where
  "es_extensions message tenant =
     put_present ''partitionkey'' (em_Partition message)
       (put_present TenantIDExtension tenant
         (put_present CausationIDExtension (em_CausationID message)
           (put_present CorrelationIDExtension (em_CorrelationID message)
             [(eventSchemaExtension, string_attribute_or_zero (format_nat (ee_Version (em_Event message))))])))"

definition es_ToCloudEvent ::
    "tenant_parser \<Rightarrow> es_Message \<Rightarrow> es_Options \<Rightarrow> (Event \<times> es_State \<times> report) result" where
  "es_ToCloudEvent parse_tenant message options =
     (if eo_Source options = '''' \<or> em_ID_IsZero message
      then Inl (Errorf ErrInvalidAdapterInput ''event-sourcing mapping'')
      else let encoded = em_Event message in
        and_then (DataFromPayload (ee_ContentType encoded) (ee_Payload encoded)) (\<lambda>data.
        and_then (es_tenant parse_tenant message) (\<lambda>tenant.
        and_then (NewEvent \<lparr>a_ID = em_ID message, a_Source = eo_Source options, a_Type = ee_Name encoded,
            a_DataContentType = ee_ContentType encoded, a_DataSchema = eo_DataSchema options,
            a_Subject = encodeStreamSubject (em_Stream message), a_Time = CloneTimePointer (eo_OccurredAt options),
            a_Extensions = es_extensions message tenant\<rparr> data) (\<lambda>e.
          Inr (e, es_state message tenant, [])))))"

record 'e pending_input =
  pi_ID :: bytes
  pi_Stream :: stream_id
  pi_Event :: 'e
  pi_Metadata :: "(bytes, bytes) gomap option"
  pi_RecordedAt :: gotime
  pi_CorrelationID :: bytes
  pi_CausationID :: bytes
  pi_Tenant :: bytes
  pi_Partition :: bytes

record ('e, 'p, 'm) es_constructors =
  ec_StreamIsZero :: "stream_id \<Rightarrow> bool"
  ec_NewEncodedEvent :: "es_Encoded \<Rightarrow> 'e result"
  ec_NewPendingMessage :: "'e pending_input \<Rightarrow> 'p result"
  ec_NewMessage :: "'p \<Rightarrow> nat \<Rightarrow> nat \<Rightarrow> 'm"

definition es_losses :: "Event \<Rightarrow> report" where
  "es_losses e =
     (let report = AppendDataKindLoss e [Loss ''source'' ''not represented by event-sourcing''] ''event-sourcing'' True;
          report = (if snd (Event_DataSchema e)
            then report @ [Loss ''dataschema'' ''not represented by event-sourcing''] else report);
          report = (if snd (Event_Time e)
            then report @ [Loss ''time'' ''recorded_at is not occurrence time''] else report)
      in AppendExtensionLosses e report ''event-sourcing''
           [eventSchemaExtension, CorrelationIDExtension, CausationIDExtension, TenantIDExtension, ''partitionkey''])"

text \<open>\<open>version, _, _ := adapter.StringExtension(...)\<close>: the empty string when the call fails.\<close>

definition es_version :: "Event \<Rightarrow> bytes" where
  "es_version e = (case StringExtension e eventSchemaExtension of Inl _ \<Rightarrow> '''' | Inr (version, _) \<Rightarrow> version)"

definition es_FromCloudEvent ::
    "tenant_parser \<Rightarrow> ('e, 'p, 'm) es_constructors \<Rightarrow> Event \<Rightarrow> es_State \<Rightarrow> ('m \<times> report) result" where
  "es_FromCloudEvent parse_tenant lib e state =
     (if Event_Validate e \<noteq> Inr () \<or> ec_StreamIsZero lib (es_Stream state) \<or> es_StreamVersion state = 0
         \<or> es_EventVersion state = 0 \<or> time_is_zero (es_RecordedAt state)
      then Inl (Errorf ErrInvalidAdapterInput ''event-sourcing target'')
      else if \<not> snd (Event_Subject e) \<or> fst (Event_Subject e) \<noteq> encodeStreamSubject (es_Stream state)
      then Inl (Errorf ErrMetadataCollision ''subject'')
      else if es_version e \<noteq> format_nat (es_EventVersion state) then Inl (Errorf ErrMetadataCollision ''eventschema'')
      else
        and_then (MappedString e CorrelationIDExtension (es_CorrelationID state) (es_TrustMetadata state)) (\<lambda>correlationID.
        and_then (MappedString e CausationIDExtension (es_CausationID state) (es_TrustMetadata state)) (\<lambda>causationID.
        and_then (MappedString e TenantIDExtension (es_Tenant state) (es_TrustMetadata state)) (\<lambda>mapped.
        and_then (validatedTenant parse_tenant mapped) (\<lambda>tenant.
        and_then (MappedString e ''partitionkey'' (es_Partition state) (es_TrustMetadata state)) (\<lambda>partition_key.
        if \<not> snd (Event_DataContentType e) \<or> \<not> Data_Present (Event_Data e)
        then Inl (Errorf ErrInvalidAdapterInput ''event data'')
        else
          and_then (ec_NewEncodedEvent lib \<lparr>ee_Name = Event_Type e, ee_Version = es_EventVersion state,
              ee_ContentType = fst (Event_DataContentType e), ee_Payload = Data_Bytes (Event_Data e)\<rparr>) (\<lambda>encoded.
          and_then (ec_NewPendingMessage lib \<lparr>pi_ID = Event_ID e, pi_Stream = es_Stream state, pi_Event = encoded,
              pi_Metadata = CloneStrings (es_Metadata state), pi_RecordedAt = es_RecordedAt state,
              pi_CorrelationID = correlationID, pi_CausationID = causationID, pi_Tenant = tenant,
              pi_Partition = partition_key\<rparr>) (\<lambda>pending.
            Inr (ec_NewMessage lib pending (es_StreamVersion state) (es_GlobalPosition state), es_losses e)))))))))"

section \<open>Workflow histories\<close>

record 'd wf_History =
  wh_Sequence :: nat
  wh_InstanceID :: bytes
  wh_Kind :: nat
  wh_OccurredAt :: gotime
  wh_Definition :: 'd
  wh_SuccessorID :: bytes
  wh_StepName :: bytes
  wh_Attempt :: nat
  wh_IdempotencyKey :: bytes
  wh_DueAt :: gotime
  wh_Code :: bytes
  wh_Retryable :: bool
  wh_Data :: "bytes option"

record wf_Options =
  wo_StableID :: bytes
  wo_Source :: bytes

record 'd wf_State =
  ws_StableID :: bytes
  ws_Sequence :: nat
  ws_Definition :: 'd
  ws_SuccessorID :: bytes
  ws_StepName :: bytes
  ws_Attempt :: nat
  ws_IdempotencyKey :: bytes
  ws_DueAt :: gotime
  ws_Code :: bytes
  ws_Retryable :: bool
  ws_DataWasNil :: bool

definition wf_prefix :: bytes where
  "wf_prefix = ''golib.workflow.history.''"

definition wf_eventType :: "nat \<Rightarrow> bytes" where
  "wf_eventType kind = wf_prefix @ format_nat kind"

definition wf_parseEventType :: "bytes \<Rightarrow> nat result" where
  "wf_parseEventType value =
     (if \<not> has_prefix value wf_prefix then Inl (Errorf ErrInvalidAdapterInput ''workflow type'')
      else case parse_uint 8 (trim_prefix value wf_prefix) of
          None \<Rightarrow> Inl (ErrorfWrap ErrInvalidAdapterInput ''workflow type'' (External ''strconv''))
        | Some kind \<Rightarrow>
            if value \<noteq> wf_eventType kind then Inl (Errorf ErrInvalidAdapterInput ''non-canonical workflow type'')
            else Inr kind)"

definition wf_ToCloudEvent :: "'d wf_History \<Rightarrow> wf_Options \<Rightarrow> (Event \<times> 'd wf_State \<times> report) result" where
  "wf_ToCloudEvent history options =
     (if wo_StableID options = '''' \<or> wo_Source options = '''' \<or> wh_Sequence history = 0
      then Inl (Errorf ErrInvalidAdapterInput ''workflow mapping'')
      else and_then (NewEvent \<lparr>a_ID = wo_StableID options, a_Source = wo_Source options,
          a_Type = wf_eventType (wh_Kind history), a_DataContentType = '''', a_DataSchema = '''',
          a_Subject = wh_InstanceID history, a_Time = Some (wh_OccurredAt history), a_Extensions = []\<rparr>
          (NewBinaryData (slice_bytes (wh_Data history)))) (\<lambda>e.
        Inr (e, \<lparr>ws_StableID = wo_StableID options, ws_Sequence = wh_Sequence history,
            ws_Definition = wh_Definition history, ws_SuccessorID = wh_SuccessorID history,
            ws_StepName = wh_StepName history, ws_Attempt = wh_Attempt history,
            ws_IdempotencyKey = wh_IdempotencyKey history, ws_DueAt = wh_DueAt history, ws_Code = wh_Code history,
            ws_Retryable = wh_Retryable history, ws_DataWasNil = (wh_Data history = None)\<rparr>, [])))"

definition wf_losses :: "Event \<Rightarrow> report" where
  "wf_losses e =
     (let report = [Loss ''source'' ''not represented by workflow history''];
          report = (if snd (Event_DataContentType e)
            then report @ [Loss ''datacontenttype'' ''not represented by workflow history''] else report);
          report = (if snd (Event_DataSchema e)
            then report @ [Loss ''dataschema'' ''not represented by workflow history''] else report)
      in AppendExtensionLosses e (AppendDataKindLoss e report ''workflow history'' False) ''workflow history'' [])"

definition wf_FromCloudEvent ::
    "('d wf_History \<Rightarrow> 'h result) \<Rightarrow> Event \<Rightarrow> 'd wf_State \<Rightarrow> ('h \<times> report) result" where
  "wf_FromCloudEvent new_history e state =
     (if ws_StableID state = '''' \<or> ws_Sequence state = 0 \<or> Event_ID e \<noteq> ws_StableID state
      then Inl (Errorf ErrInvalidAdapterInput ''workflow target'')
      else and_then (wf_parseEventType (Event_Type e)) (\<lambda>kind.
        if \<not> snd (Event_Subject e) \<or> \<not> snd (Event_Time e) \<or> \<not> Data_Present (Event_Data e)
        then Inl (Errorf ErrInvalidAdapterInput ''workflow portable fields'')
        else and_then (new_history \<lparr>wh_Sequence = ws_Sequence state, wh_InstanceID = fst (Event_Subject e),
            wh_Kind = kind, wh_OccurredAt = fst (Event_Time e), wh_Definition = ws_Definition state,
            wh_SuccessorID = ws_SuccessorID state, wh_StepName = ws_StepName state, wh_Attempt = ws_Attempt state,
            wh_IdempotencyKey = ws_IdempotencyKey state, wh_DueAt = ws_DueAt state, wh_Code = ws_Code state,
            wh_Retryable = ws_Retryable state,
            wh_Data = RestoreRetainedNil (Event_Data e) (ws_DataWasNil state)\<rparr>) (\<lambda>history.
          Inr (history, wf_losses e))))"

section \<open>Stream subjects\<close>

lemma encodeStreamSubject_inj:
  fixes s t :: stream_id
  assumes "encodeStreamSubject s = encodeStreamSubject t"
  shows "s = t"
proof -
  have "b64_raw_url (si_AggregateType s) = b64_raw_url (si_AggregateType t)
      \<and> b64_raw_url (si_AggregateID s) = b64_raw_url (si_AggregateID t)"
    using assms by (intro split_at_unique [where c = "CHR ''.''"] b64_raw_url_no_dot) (simp add: encodeStreamSubject_def)
  then have "si_AggregateType s = si_AggregateType t" "si_AggregateID s = si_AggregateID t"
    using b64_raw_url_inj by blast+
  then show ?thesis by simp
qed

lemma encodeStreamSubject_nonempty: "encodeStreamSubject s \<noteq> ''''"
  by (simp add: encodeStreamSubject_def)

section \<open>Reversing event sourcing\<close>

lemma string_attribute_valid:
  "valid_extension (n, string_attribute_or_zero v) \<Longrightarrow> string_attribute_or_zero v = text_attribute v"
  by (auto simp: string_attribute_or_zero_def NewStringAttribute_def text_attribute_def zero_attribute_def
      valid_extension_def validAttribute_def split: if_splits)

lemma put_present_lookup:
  "map_of (put_present k v m) n = (case v of None \<Rightarrow> map_of m n
     | Some w \<Rightarrow> if n = k then Some (string_attribute_or_zero w) else map_of m n)"
  by (auto simp: put_present_def split: option.splits)

lemma plain_or_zero [simp]: "plain_bytes (string_attribute_or_zero v)"
  by (simp add: string_attribute_or_zero_def NewStringAttribute_def zero_attribute_def plain_bytes_def)

lemma put_present_plain [simp]: "plain_map m \<Longrightarrow> plain_map (put_present k v m)"
  by (cases v) (simp_all add: put_present_def plain_map_update)

lemma es_extensions_plain [simp]: "plain_map (es_extensions message tenant)"
  unfolding es_extensions_def by (intro put_present_plain) (simp add: plain_map_def wf_map_def)

lemmas extension_names =
  CorrelationIDExtension_def RequestIDExtension_def CausationIDExtension_def TenantIDExtension_def
  eventSchemaExtension_def

lemma es_extensions_lookup:
  "map_of (es_extensions message tenant) eventSchemaExtension
     = Some (string_attribute_or_zero (format_nat (ee_Version (em_Event message))))"
  "map_of (es_extensions message tenant) CorrelationIDExtension
     = map_option string_attribute_or_zero (em_CorrelationID message)"
  "map_of (es_extensions message tenant) CausationIDExtension
     = map_option string_attribute_or_zero (em_CausationID message)"
  "map_of (es_extensions message tenant) TenantIDExtension = map_option string_attribute_or_zero tenant"
  "map_of (es_extensions message tenant) ''partitionkey'' = map_option string_attribute_or_zero (em_Partition message)"
  by (simp_all add: es_extensions_def put_present_lookup extension_names split: option.splits)

text \<open>A trusted mapped string of a valid event whose extension is the retained text.\<close>

lemma MappedString_retained:
  assumes "valid_event e" "map_of (ev_extensions e) n = map_option string_attribute_or_zero v" "v \<noteq> Some ''''"
  shows "MappedString e n (text_or_empty v) trusted = Inr (text_or_empty v)"
proof (cases v)
  case None
  then show ?thesis using assms(2) by (simp add: MappedString_Inr text_or_empty_def)
next
  case (Some w)
  then have "valid_extension (n, string_attribute_or_zero w)"
    using assms(2) valid_eventD(7) [OF assms(1)] by (auto simp: list_all_iff dest: map_of_SomeD)
  from string_attribute_valid [OF this] show ?thesis
    using Some assms(2,3)
    by (simp add: MappedString_Inr text_or_empty_def text_attribute_def)
qed

lemma es_version_retained:
  assumes "valid_event e" "map_of (ev_extensions e) eventSchemaExtension = Some (string_attribute_or_zero v)" "v \<noteq> ''''"
  shows "es_version e = v"
proof -
  have "valid_extension (eventSchemaExtension, string_attribute_or_zero v)"
    using assms(2) valid_eventD(7) [OF assms(1)] by (auto simp: list_all_iff dest: map_of_SomeD)
  from string_attribute_valid [OF this] have "StringExtension e eventSchemaExtension = Inr (v, True)"
    using assms(2,3) by (simp add: StringExtension_Inr text_attribute_def)
  then show ?thesis by (simp add: es_version_def)
qed

definition es_message_ok :: "es_Message \<Rightarrow> bool" where
  "es_message_ok message \<longleftrightarrow> em_StreamVersion message \<noteq> 0 \<and> ee_Version (em_Event message) \<noteq> 0
     \<and> ee_ContentType (em_Event message) \<noteq> '''' \<and> \<not> time_is_zero (em_RecordedAt message)
     \<and> pred_option wf_map (em_Metadata message)
     \<and> em_CorrelationID message \<noteq> Some '''' \<and> em_CausationID message \<noteq> Some ''''
     \<and> em_Tenant message \<noteq> Some '''' \<and> em_Partition message \<noteq> Some ''''"

definition canonical_tenants :: "tenant_parser \<Rightarrow> bool" where
  "canonical_tenants parse \<longleftrightarrow> (\<forall>v t. parse v = Inr t \<longrightarrow> t \<noteq> '''' \<and> parse t = Inr t)"

lemma es_tenant_canonical:
  assumes "es_tenant parse message = Inr tn" "canonical_tenants parse" "em_Tenant message \<noteq> Some ''''"
  shows "tn \<noteq> Some ''''" "validatedTenant parse (text_or_empty tn) = Inr (text_or_empty tn)"
  using assms
  by (fastforce simp: es_tenant_def validatedTenant_def canonical_tenants_def text_or_empty_def
      split: option.splits if_splits sum.splits)+

lemma es_ToCloudEvent_Inr:
  assumes "es_ToCloudEvent parse message options = Inr (e, state, report)"
    and "pred_option (\<lambda>t. nsec t < 10 ^ 9) (eo_OccurredAt options)"
  obtains tn where "valid_event e" "es_tenant parse message = Inr tn" "state = es_state message tn" "report = []"
    "ev_id e = em_ID message" "ev_type e = ee_Name (em_Event message)"
    "ev_dataContentType e = ee_ContentType (em_Event message)" "ev_subject e = encodeStreamSubject (em_Stream message)"
    "ev_extensions e = es_extensions message tn" "data_present (ev_data e)"
    "data_bytes (ev_data e) = slice_bytes (ee_Payload (em_Event message))"
proof -
  define a where "a tn = \<lparr>a_ID = em_ID message, a_Source = eo_Source options, a_Type = ee_Name (em_Event message),
    a_DataContentType = ee_ContentType (em_Event message), a_DataSchema = eo_DataSchema options,
    a_Subject = encodeStreamSubject (em_Stream message), a_Time = eo_OccurredAt options,
    a_Extensions = es_extensions message tn\<rparr>" for tn
  from assms(1) obtain d tn where d: "DataFromPayload (ee_ContentType (em_Event message)) (ee_Payload (em_Event message)) = Inr d"
    and t: "es_tenant parse message = Inr tn" and e: "NewEvent (a tn) d = Inr e"
    and s: "state = es_state message tn" "report = []"
    by (auto simp: es_ToCloudEvent_def a_def Let_def split: if_splits)
  have w: "attributes_wf (a tn)" using assms(2) by (simp add: attributes_wf_def a_def)
  note k = DataFromPayload_Inr [OF d]
  note ev = e [unfolded NewEvent_Inr [OF w k(1)]]
  show thesis
    using NewEvent_valid [OF w k(1) e] t s ev k by (intro that [of tn]) (simp_all add: a_def)
qed

definition es_pending :: "es_Message \<Rightarrow> bytes \<Rightarrow> 'e \<Rightarrow> 'e pending_input" where
  "es_pending message tenant encoded = \<lparr>pi_ID = em_ID message, pi_Stream = em_Stream message, pi_Event = encoded,
     pi_Metadata = em_Metadata message, pi_RecordedAt = em_RecordedAt message,
     pi_CorrelationID = text_or_empty (em_CorrelationID message),
     pi_CausationID = text_or_empty (em_CausationID message), pi_Tenant = tenant,
     pi_Partition = text_or_empty (em_Partition message)\<rparr>"

definition es_rebuild :: "('e, 'p, 'm) es_constructors \<Rightarrow> es_Message \<Rightarrow> bytes \<Rightarrow> 'm result" where
  "es_rebuild lib message tenant =
     and_then (ec_NewEncodedEvent lib
         ((em_Event message)\<lparr>ee_Payload := Some (slice_bytes (ee_Payload (em_Event message)))\<rparr>)) (\<lambda>encoded.
     and_then (ec_NewPendingMessage lib (es_pending message tenant encoded)) (\<lambda>pending.
       Inr (ec_NewMessage lib pending (em_StreamVersion message)
         (case em_GlobalPosition message of None \<Rightarrow> 0 | Some position \<Rightarrow> position))))"

text \<open>The tenant of a message: what the parser makes of its text, and empty without one.\<close>

definition parsed_tenant :: "tenant_parser \<Rightarrow> es_Message \<Rightarrow> bytes" where
  "parsed_tenant parse message = (case em_Tenant message of
     None \<Rightarrow> '''' | Some v \<Rightarrow> (case parse v of Inl _ \<Rightarrow> '''' | Inr tenant \<Rightarrow> tenant))"

lemma es_tenant_parsed:
  assumes "es_tenant parse message = Inr tn" "em_Tenant message \<noteq> Some ''''"
  shows "text_or_empty tn = parsed_tenant parse message"
    "case em_Tenant message of None \<Rightarrow> parsed_tenant parse message = ''''
       | Some v \<Rightarrow> parse v = Inr (parsed_tenant parse message)"
  using assms
  by (auto simp: es_tenant_def validatedTenant_def parsed_tenant_def text_or_empty_def split: option.splits if_splits sum.splits)

lemma es_roundtrip_state:
  assumes t: "es_ToCloudEvent parse message options = Inr (e, state, report)"
    and n: "pred_option (\<lambda>t. nsec t < 10 ^ 9) (eo_OccurredAt options)"
    and ok: "es_message_ok message" and z: "\<not> ec_StreamIsZero lib (em_Stream message)" and c: "canonical_tenants parse"
  shows "es_FromCloudEvent parse lib e state =
    and_then (es_rebuild lib message (parsed_tenant parse message)) (\<lambda>m. Inr (m, es_losses e))"
proof -
  obtain tn where k: "valid_event e" "es_tenant parse message = Inr tn" "state = es_state message tn" "report = []"
    "ev_id e = em_ID message" "ev_type e = ee_Name (em_Event message)"
    "ev_dataContentType e = ee_ContentType (em_Event message)" "ev_subject e = encodeStreamSubject (em_Stream message)"
    "ev_extensions e = es_extensions message tn" "data_present (ev_data e)"
    "data_bytes (ev_data e) = slice_bytes (ee_Payload (em_Event message))"
    by (rule es_ToCloudEvent_Inr [OF t n])
  have w: "event_wf e" using k(1) by (simp add: valid_event_def)
  have tn: "tn \<noteq> Some ''''" "validatedTenant parse (text_or_empty tn) = Inr (text_or_empty tn)"
    using es_tenant_canonical [OF k(2) c] ok by (auto simp: es_message_ok_def)
  have v: "es_version e = format_nat (ee_Version (em_Event message))"
    using k(9) by (intro es_version_retained [OF k(1)]) (simp_all add: es_extensions_lookup)
  have ne: "em_CorrelationID message \<noteq> Some ''''" "em_CausationID message \<noteq> Some ''''" "em_Partition message \<noteq> Some ''''"
    using ok by (simp_all add: es_message_ok_def)
  have m: "MappedString e CorrelationIDExtension (text_or_empty (em_CorrelationID message)) True
      = Inr (text_or_empty (em_CorrelationID message))"
    "MappedString e CausationIDExtension (text_or_empty (em_CausationID message)) True
      = Inr (text_or_empty (em_CausationID message))"
    "MappedString e TenantIDExtension (text_or_empty tn) True = Inr (text_or_empty tn)"
    "MappedString e ''partitionkey'' (text_or_empty (em_Partition message)) True
      = Inr (text_or_empty (em_Partition message))"
    using k(9) ne tn(1) by (simp_all add: MappedString_retained [OF k(1)] es_extensions_lookup)
  have sub: "snd (Event_Subject e)" "fst (Event_Subject e) = encodeStreamSubject (em_Stream message)"
    using k(8) encodeStreamSubject_nonempty by (simp_all add: Event_Subject_def)
  have dat: "Data_Present (Event_Data e)" "Data_Bytes (Event_Data e) = Some (slice_bytes (ee_Payload (em_Event message)))"
    using k(10,11) by (simp_all add: Event_Data_id [OF w] Data_Present_def Data_Bytes_def)
  have ct: "snd (Event_DataContentType e)" "fst (Event_DataContentType e) = ee_ContentType (em_Event message)"
    using k(7) ok by (simp_all add: Event_DataContentType_def es_message_ok_def)
  have st: "es_Metadata state = em_Metadata message" "CloneStrings (em_Metadata message) = em_Metadata message"
    using k(3) ok by (simp_all add: es_state_def es_message_ok_def CloneStrings_id)
  have pl: "\<lparr>ee_Name = ee_Name x, ee_Version = ee_Version x, ee_ContentType = ee_ContentType x, ee_Payload = p\<rparr>
      = x\<lparr>ee_Payload := p\<rparr>" for x :: es_Encoded and p by (cases x) simp
  have "es_FromCloudEvent parse lib e state = and_then (ec_NewEncodedEvent lib
       ((em_Event message)\<lparr>ee_Payload := Some (slice_bytes (ee_Payload (em_Event message)))\<rparr>)) (\<lambda>encoded.
     and_then (ec_NewPendingMessage lib (es_pending message (text_or_empty tn) encoded)) (\<lambda>pending.
       Inr (ec_NewMessage lib pending (em_StreamVersion message)
         (case em_GlobalPosition message of None \<Rightarrow> 0 | Some position \<Rightarrow> position), es_losses e)))"
    using k(1) ok z st unfolding es_FromCloudEvent_def k(3)
    by (simp add: es_state_def es_message_ok_def sub v m tn(2) dat ct pl es_pending_def Event_Type_def k(5,6) Event_ID_def)
  then show ?thesis
    using es_tenant_parsed(1) [OF k(2)] ok by (simp add: es_rebuild_def and_then_assoc es_message_ok_def)
qed

section \<open>Reversing workflow histories\<close>

lemma wf_parseEventType_Inr:
  "wf_parseEventType v = Inr kind \<longleftrightarrow> kind < 256 \<and> v = wf_eventType kind"
proof
  assume "wf_parseEventType v = Inr kind"
  then show "kind < 256 \<and> v = wf_eventType kind"
    using parse_uint_less [of 8] by (auto simp: wf_parseEventType_def split: if_splits option.splits)
next
  assume "kind < 256 \<and> v = wf_eventType kind"
  then show "wf_parseEventType v = Inr kind"
    using parse_uint_format_nat [of kind 8] by (simp add: wf_parseEventType_def wf_eventType_def)
qed

lemma wf_ToCloudEvent_Inr:
  assumes "wf_ToCloudEvent history options = Inr (e, state, report)" and "nsec (wh_OccurredAt history) < 10 ^ 9"
  shows "valid_event e" "ev_id e = wo_StableID options" "ev_type e = wf_eventType (wh_Kind history)"
    "ev_subject e = wh_InstanceID history" "ev_time e = time_utc (wh_OccurredAt history)" "ev_hasTime e"
    "ev_dataContentType e = ''''" "ev_dataSchema e = ''''" "ev_extensions e = []"
    "ev_data e = NewBinaryData (slice_bytes (wh_Data history))" "report = []"
    "wo_StableID options \<noteq> ''''" "wh_Sequence history \<noteq> 0"
    "state = \<lparr>ws_StableID = wo_StableID options, ws_Sequence = wh_Sequence history,
       ws_Definition = wh_Definition history, ws_SuccessorID = wh_SuccessorID history,
       ws_StepName = wh_StepName history, ws_Attempt = wh_Attempt history,
       ws_IdempotencyKey = wh_IdempotencyKey history, ws_DueAt = wh_DueAt history, ws_Code = wh_Code history,
       ws_Retryable = wh_Retryable history, ws_DataWasNil = (wh_Data history = None)\<rparr>"
proof -
  let ?a = "\<lparr>a_ID = wo_StableID options, a_Source = wo_Source options,
    a_Type = wf_eventType (wh_Kind history), a_DataContentType = '''', a_DataSchema = '''',
    a_Subject = wh_InstanceID history, a_Time = Some (wh_OccurredAt history), a_Extensions = []\<rparr>"
  let ?d = "NewBinaryData (slice_bytes (wh_Data history))"
  have w: "attributes_wf ?a" "data_ok ?d" using assms(2) by (simp_all add: attributes_wf_def data_ok_def NewBinaryData_def)
  have e: "NewEvent ?a ?d = Inr e" using assms(1) by (auto simp: wf_ToCloudEvent_def split: if_splits)
  note ev = e [unfolded NewEvent_Inr [OF w]]
  show "valid_event e" by (rule NewEvent_valid [OF w e])
  show "ev_id e = wo_StableID options" "ev_type e = wf_eventType (wh_Kind history)"
    "ev_subject e = wh_InstanceID history" "ev_time e = time_utc (wh_OccurredAt history)" "ev_hasTime e"
    "ev_dataContentType e = ''''" "ev_dataSchema e = ''''" "ev_extensions e = []" "ev_data e = ?d"
    using ev by simp_all
  show "report = []" "wo_StableID options \<noteq> ''''" "wh_Sequence history \<noteq> 0"
    "state = \<lparr>ws_StableID = wo_StableID options, ws_Sequence = wh_Sequence history,
       ws_Definition = wh_Definition history, ws_SuccessorID = wh_SuccessorID history,
       ws_StepName = wh_StepName history, ws_Attempt = wh_Attempt history,
       ws_IdempotencyKey = wh_IdempotencyKey history, ws_DueAt = wh_DueAt history, ws_Code = wh_Code history,
       ws_Retryable = wh_Retryable history, ws_DataWasNil = (wh_Data history = None)\<rparr>"
    using assms(1) by (auto simp: wf_ToCloudEvent_def split: if_splits)
qed

lemma wf_roundtrip_state:
  assumes "wf_ToCloudEvent history options = Inr (e, state, report)" and "nsec (wh_OccurredAt history) < 10 ^ 9"
    and "wh_Kind history < 256" "wh_InstanceID history \<noteq> ''''"
  shows "wf_FromCloudEvent new_history e state =
      and_then (new_history (history\<lparr>wh_OccurredAt := time_utc (wh_OccurredAt history)\<rparr>)) (\<lambda>h. Inr (h, wf_losses e))"
    "wf_losses e = [Loss ''source'' ''not represented by workflow history'']"
proof -
  note k = wf_ToCloudEvent_Inr [OF assms(1,2)]
  have w: "event_wf e" using k(1) by (simp add: valid_event_def)
  have dat: "Event_Data e = NewBinaryData (slice_bytes (wh_Data history))" using k(10) by (simp add: Event_Data_id [OF w])
  have r: "RestoreRetainedNil (Event_Data e) (wh_Data history = None) = wh_Data history"
    using k(10) by (intro RestoreRetainedNil_payload [OF w]) (simp_all add: NewBinaryData_def)
  have p: "wf_parseEventType (ev_type e) = Inr (wh_Kind history)"
    using assms(3) k(3) by (simp add: wf_parseEventType_Inr)
  show "wf_FromCloudEvent new_history e state =
      and_then (new_history (history\<lparr>wh_OccurredAt := time_utc (wh_OccurredAt history)\<rparr>)) (\<lambda>h. Inr (h, wf_losses e))"
    using k assms(4) p r
    by (cases history) (simp add: wf_FromCloudEvent_def Event_ID_def Event_Type_def Event_Subject_def Event_Time_def
        dat Data_Present_def NewBinaryData_def)
  show "wf_losses e = [Loss ''source'' ''not represented by workflow history'']"
    using k(7-9) by (simp add: wf_losses_def Event_DataContentType_def Event_DataSchema_def AppendDataKindLoss_def dat
        targetDataKind_def AppendExtensionLosses_def Event_Extensions_def NewBinaryData_def Data_Kind_def Data_Present_def
        copy_map_def Let_def)
qed

lemma es_FromCloudEvent_stream:
  assumes "es_FromCloudEvent parse lib e state = Inr r"
  shows "ev_subject e = encodeStreamSubject (es_Stream state)"
  using assms by (auto simp: es_FromCloudEvent_def Event_Subject_def split: if_splits)

definition es_fits :: "tenant_parser \<Rightarrow> ('e, 'p, 'm) es_constructors \<Rightarrow> es_Message \<Rightarrow> es_Options \<Rightarrow> bool" where
  "es_fits parse lib message options \<longleftrightarrow> pred_option (\<lambda>t. nsec t < 10 ^ 9) (eo_OccurredAt options)
     \<and> es_message_ok message \<and> \<not> ec_StreamIsZero lib (em_Stream message) \<and> canonical_tenants parse"

lemma es_tenant_accepted:
  assumes "es_ToCloudEvent parse message options = Inr (e, state, report)" and "es_fits parse lib message options"
  shows "case em_Tenant message of None \<Rightarrow> parsed_tenant parse message = ''''
    | Some v \<Rightarrow> parse v = Inr (parsed_tenant parse message)"
proof -
  have n: "pred_option (\<lambda>t. nsec t < 10 ^ 9) (eo_OccurredAt options)" using assms(2) by (simp add: es_fits_def)
  obtain tn where "es_tenant parse message = Inr tn" by (rule es_ToCloudEvent_Inr [OF assms(1) n])
  then show ?thesis using es_tenant_parsed(2) assms(2) by (simp add: es_fits_def es_message_ok_def)
qed

interpretation event_sourcing: reversible_adapter "es_ToCloudEvent parse" "es_FromCloudEvent parse lib"
    "es_fits parse lib"
    "\<lambda>message e state. and_then (es_rebuild lib message (parsed_tenant parse message)) (\<lambda>m. Inr (m, es_losses e))" for parse lib
proof unfold_locales
  fix m opts e s losses
  assume "es_fits parse lib m opts" and t: "es_ToCloudEvent parse m opts = Inr (e, s, losses)"
  then have n: "pred_option (\<lambda>t. nsec t < 10 ^ 9) (eo_OccurredAt opts)" "es_message_ok m"
    "\<not> ec_StreamIsZero lib (em_Stream m)" "canonical_tenants parse"
    by (simp_all add: es_fits_def)
  show "losses = [] \<and> valid_event e" by (rule es_ToCloudEvent_Inr [OF t n(1)]) simp
  show "es_FromCloudEvent parse lib e s = and_then (es_rebuild lib m (parsed_tenant parse m)) (\<lambda>m. Inr (m, es_losses e))"
    by (rule es_roundtrip_state [OF t n])
qed

definition wf_fits :: "'d wf_History \<Rightarrow> wf_Options \<Rightarrow> bool" where
  "wf_fits history options \<longleftrightarrow>
     nsec (wh_OccurredAt history) < 10 ^ 9 \<and> wh_Kind history < 256 \<and> wh_InstanceID history \<noteq> ''''"

interpretation workflow: reversible_adapter wf_ToCloudEvent "wf_FromCloudEvent new_history" wf_fits
    "\<lambda>history e state. and_then (new_history (history\<lparr>wh_OccurredAt := time_utc (wh_OccurredAt history)\<rparr>))
       (\<lambda>h. Inr (h, [Loss ''source'' ''not represented by workflow history'']))" for new_history
proof unfold_locales
  fix m :: "'a wf_History" and opts e s losses
  assume f: "wf_fits m opts" and t: "wf_ToCloudEvent m opts = Inr (e, s, losses)"
  then have n: "nsec (wh_OccurredAt m) < 10 ^ 9" "wh_Kind m < 256" "wh_InstanceID m \<noteq> ''''"
    by (simp_all add: wf_fits_def)
  show "losses = [] \<and> valid_event e" using wf_ToCloudEvent_Inr(1,11) [OF t n(1)] by simp
  show "wf_FromCloudEvent new_history e s = and_then (new_history (m\<lparr>wh_OccurredAt := time_utc (wh_OccurredAt m)\<rparr>))
       (\<lambda>h. Inr (h, [Loss ''source'' ''not represented by workflow history'']))"
    using wf_roundtrip_state [OF t n] by simp
qed

section \<open>Properties\<close>

text \<open>
  C28. The event-sourcing adapter is reversible and bound to its stream. When \<open>ToCloudEvent\<close> maps a message whose
  versions and recording time are set and whose identifiers, where present, are not empty, \<open>FromCloudEvent\<close> of the
  event and the retained state calls the constructors of the event store with exactly the parts of that message and
  its tenant as the tenant parser reads it; with any other retained state it can succeed only for the same stream.
\<close>

theorem es_roundtrip:
  assumes "es_ToCloudEvent parse message options = Inr (e, state, report)" and "es_fits parse lib message options"
  shows "report = [] \<and> valid_event e
    \<and> (\<exists>tenant. (case em_Tenant message of None \<Rightarrow> tenant = '''' | Some v \<Rightarrow> parse v = Inr tenant)
      \<and> es_FromCloudEvent parse lib e state =
        and_then (es_rebuild lib message tenant) (\<lambda>m. Inr (m, es_losses e)))
    \<and> (es_FromCloudEvent parse lib e state' = Inr r \<longrightarrow> es_Stream state' = em_Stream message)"
proof -
  have "pred_option (\<lambda>t. nsec t < 10 ^ 9) (eo_OccurredAt options)" using assms(2) by (simp add: es_fits_def)
  then have "ev_subject e = encodeStreamSubject (em_Stream message)" by (rule es_ToCloudEvent_Inr [OF assms(1)])
  then have "es_FromCloudEvent parse lib e state' = Inr r \<longrightarrow> es_Stream state' = em_Stream message"
    using es_FromCloudEvent_stream [of parse lib e state' r] encodeStreamSubject_inj by fastforce
  then show ?thesis
    using event_sourcing.reverses [OF assms(2,1)] es_tenant_accepted [OF assms] by blast
qed

definition stream_sample :: stream_id where
  "stream_sample = \<lparr>si_AggregateType = ''a'', si_AggregateID = ''b''\<rparr>"

definition es_sample_message :: es_Message where
  "es_sample_message = \<lparr>em_ID = ''1'', em_ID_IsZero = False, em_Stream = stream_sample, em_StreamVersion = 1,
     em_GlobalPosition = None, em_Event = \<lparr>ee_Name = ''t'', ee_Version = 1, ee_ContentType = ''x/y'', ee_Payload = Some ''b''\<rparr>,
     em_Metadata = None, em_RecordedAt = \<lparr>unix_sec = 0, nsec = 0, zone_offset = 0\<rparr>, em_CorrelationID = Some ''c'',
     em_CausationID = None, em_Tenant = Some ''acme'', em_Partition = None\<rparr>"

definition es_sample_options :: es_Options where
  "es_sample_options = \<lparr>eo_Source = ''/s'', eo_DataSchema = '''', eo_OccurredAt = None\<rparr>"

definition es_sample_lib ::
    "(es_Encoded, es_Encoded pending_input, es_Encoded pending_input \<times> nat \<times> nat) es_constructors" where
  "es_sample_lib = \<lparr>ec_StreamIsZero = (\<lambda>s. si_AggregateType s = '''' \<and> si_AggregateID s = ''''),
     ec_NewEncodedEvent = Inr, ec_NewPendingMessage = Inr, ec_NewMessage = (\<lambda>p v g. (p, v, g))\<rparr>"

definition nonempty_tenant :: tenant_parser where
  "nonempty_tenant v = (if v = '''' then Inl (External ''tenancy'') else Inr v)"

lemma canonical_nonempty_tenant: "canonical_tenants nonempty_tenant"
  by (simp add: canonical_tenants_def nonempty_tenant_def)

lemma es_sample_tenant: "em_Tenant es_sample_message = Some ''acme''"
  by (simp add: es_sample_message_def)

lemma es_sample:
  obtains e where
    "es_ToCloudEvent nonempty_tenant es_sample_message es_sample_options = Inr (e, es_state es_sample_message (Some ''acme''), [])"
proof -
  let ?d = "NewBinaryData ''b''"
  let ?a = "\<lparr>a_ID = ''1'', a_Source = ''/s'', a_Type = ''t'', a_DataContentType = ''x/y'', a_DataSchema = '''',
    a_Subject = encodeStreamSubject stream_sample, a_Time = None,
    a_Extensions = es_extensions es_sample_message (Some ''acme'')\<rparr>"
  have w: "attributes_wf ?a" "data_ok ?d" by (simp_all add: attributes_wf_def data_ok_def NewBinaryData_def)
  have f: "format_nat (Suc 0) = ''1''" by (subst format_nat.simps) (simp add: digit_char_def char_of_eqI)
  have "validCloudString ''1''" "validCloudString ''c''" "validCloudString ''acme''" by (simp_all add: eval_defs)
  then have x: "es_extensions es_sample_message (Some ''acme'') =
      [(''eventschema'', text_attribute ''1''), (''correlationid'', text_attribute ''c''),
       (''tenantid'', text_attribute ''acme'')]"
    by (simp add: es_extensions_def es_sample_message_def put_present_def string_attribute_or_zero_def f
        NewStringAttribute_def extension_names text_attribute_def)
  have "encodeStreamSubject stream_sample = ''YQ.Yg''" by (simp add: encodeStreamSubject_def stream_sample_def eval_defs char_of_eqI)
  then have "valid_context ?a" unfolding x
    by (simp add: valid_context_def text_attribute_def valid_extension_def selected_ok_def isReservedAttributeName_def
        reservedAttributeNames_def validAttribute_def eval_defs)
  then obtain e where "NewEvent ?a ?d = Inr e" using NewEvent_Inr [OF w] by blast
  moreover have "DataFromPayload ''x/y'' (Some ''b'') = Inr ?d"
    by (simp add: DataFromPayload_def slice_bytes_def eval_defs)
  moreover have "es_tenant nonempty_tenant es_sample_message = Inr (Some ''acme'')"
    by (simp add: es_tenant_def validatedTenant_def nonempty_tenant_def es_sample_message_def)
  ultimately show thesis
    by (intro that [of e])
      (simp add: es_ToCloudEvent_def es_sample_options_def Let_def, simp add: es_sample_message_def)
qed

theorem es_roundtrip_witness:
  "\<exists>e m. es_ToCloudEvent nonempty_tenant es_sample_message es_sample_options
      = Inr (e, es_state es_sample_message (Some ''acme''), [])
    \<and> es_FromCloudEvent nonempty_tenant es_sample_lib e (es_state es_sample_message (Some ''acme'')) = Inr (m, es_losses e)
    \<and> pi_Tenant (fst m) = ''acme'' \<and> pi_CorrelationID (fst m) = ''c''"
proof -
  obtain e where e: "es_ToCloudEvent nonempty_tenant es_sample_message es_sample_options
      = Inr (e, es_state es_sample_message (Some ''acme''), [])"
    by (rule es_sample)
  have "es_fits nonempty_tenant es_sample_lib es_sample_message es_sample_options"
    by (simp add: es_fits_def es_message_ok_def es_sample_message_def time_is_zero_def es_sample_lib_def stream_sample_def
        es_sample_options_def canonical_nonempty_tenant)
  from es_roundtrip [OF e this, THEN conjunct2, THEN conjunct2, THEN conjunct1] obtain tenant where
    "nonempty_tenant ''acme'' = Inr tenant" and
    "es_FromCloudEvent nonempty_tenant es_sample_lib e (es_state es_sample_message (Some ''acme''))
      = and_then (es_rebuild es_sample_lib es_sample_message tenant) (\<lambda>m. Inr (m, es_losses e))"
    unfolding es_sample_tenant option.case by blast
  moreover have "pi_CorrelationID (es_pending es_sample_message tenant encoded) = ''c''" for encoded :: es_Encoded
    by (simp add: es_pending_def es_sample_message_def text_or_empty_def)
  ultimately show ?thesis
    using e by (simp add: es_rebuild_def nonempty_tenant_def) (simp add: es_sample_lib_def, simp add: es_pending_def)
qed

text \<open>
  C29. The workflow adapter is reversible and loses only the source: for a history event with an instance and an
  8-bit kind, \<open>FromCloudEvent\<close> of the event and the retained state passes the specification of the same history
  event to the constructor, its occurrence time in UTC and nil data still nil, and reports nothing but the source.
\<close>

theorem wf_roundtrip:
  assumes "wf_ToCloudEvent history options = Inr (e, state, report)" and "wf_fits history options"
  shows "report = [] \<and> valid_event e \<and> wf_FromCloudEvent new_history e state =
      and_then (new_history (history\<lparr>wh_OccurredAt := time_utc (wh_OccurredAt history)\<rparr>))
        (\<lambda>h. Inr (h, [Loss ''source'' ''not represented by workflow history'']))"
  by (rule workflow.reverses [OF assms(2,1)])

definition history_sample :: "unit wf_History" where
  "history_sample = \<lparr>wh_Sequence = 1, wh_InstanceID = ''i'', wh_Kind = 7,
     wh_OccurredAt = \<lparr>unix_sec = 0, nsec = 0, zone_offset = 0\<rparr>, wh_Definition = (), wh_SuccessorID = '''',
     wh_StepName = ''s'', wh_Attempt = 2, wh_IdempotencyKey = '''', wh_DueAt = zero_time, wh_Code = '''',
     wh_Retryable = True, wh_Data = None\<rparr>"

definition wf_sample_options :: wf_Options where
  "wf_sample_options = \<lparr>wo_StableID = ''1'', wo_Source = ''/s''\<rparr>"

theorem wf_roundtrip_witness:
  "\<exists>e state. wf_ToCloudEvent history_sample wf_sample_options = Inr (e, state, [])
    \<and> wf_FromCloudEvent Inr e state
        = Inr (history_sample, [Loss ''source'' ''not represented by workflow history''])"
proof -
  let ?d = "NewBinaryData (slice_bytes None)"
  let ?a = "\<lparr>a_ID = ''1'', a_Source = ''/s'', a_Type = wf_eventType 7, a_DataContentType = '''', a_DataSchema = '''',
    a_Subject = ''i'', a_Time = Some (wh_OccurredAt history_sample), a_Extensions = []\<rparr>"
  have w: "attributes_wf ?a" "data_ok ?d"
    by (simp_all add: attributes_wf_def data_ok_def NewBinaryData_def history_sample_def)
  have "wf_eventType 7 = ''golib.workflow.history.7''"
    unfolding wf_eventType_def wf_prefix_def by (subst format_nat.simps) (simp add: digit_char_def char_of_eqI)
  then have "valid_context ?a" by (simp add: valid_context_def selected_ok_def eval_defs)
  then obtain e where "NewEvent ?a ?d = Inr e" using NewEvent_Inr [OF w] by blast
  then obtain state where "wf_ToCloudEvent history_sample wf_sample_options = Inr (e, state, [])"
    by (simp add: wf_ToCloudEvent_def history_sample_def wf_sample_options_def)
  then show ?thesis
    using wf_roundtrip [of history_sample wf_sample_options e state "[]" Inr]
    by (auto simp: history_sample_def time_utc_def wf_fits_def)
qed

end
