(* ===== verification/CE_Metadata.thy ===== *)
theory CE_Metadata
  imports CE_Histories
begin

text \<open>
  \<open>adapters/tenancy\<close>, \<open>adapters/correlation\<close>, \<open>adapters/telemetry\<close> and \<open>adapters/audit\<close>: metadata of the
  surrounding libraries as extensions of an event. The functions of those libraries are the fields of
  records that the definitions take as arguments.
\<close>

section \<open>Tenants\<close>

record 't tenancy_library =
  tl_ParseTenantID :: "bytes \<Rightarrow> 't result"
  tl_Value :: "'t \<Rightarrow> bytes"
  tl_Valid :: "'t \<Rightarrow> bool"
  tl_MetadataMissing :: go_error

definition tenancy_Add :: "'t tenancy_library \<Rightarrow> Event \<Rightarrow> 't \<Rightarrow> Event result" where
  "tenancy_Add lib e tenant =
     (if \<not> tl_Valid lib tenant then Inl (Errorf ErrInvalidAdapterInput ''tenant'')
      else AddStringExtensions e [(TenantIDExtension, tl_Value lib tenant)])"

definition tenancy_Extract :: "'t tenancy_library \<Rightarrow> Event \<Rightarrow> bool \<Rightarrow> 't result" where
  "tenancy_Extract lib e trusted =
     and_then (StringExtension e TenantIDExtension) (\<lambda>(value, present).
       if \<not> present then Inl (ErrorfWrap ErrInvalidAdapterInput ''tenantid'' (tl_MetadataMissing lib))
       else if \<not> trusted then Inl (Sentinel ErrUntrustedMetadata)
       else case tl_ParseTenantID lib value of
           Inl err \<Rightarrow> Inl (ErrorfWrap ErrInvalidAdapterInput ''tenantid'' err)
         | Inr tenant \<Rightarrow> Inr tenant)"

section \<open>Correlation identifiers\<close>

record corr_Values =
  cv_CorrelationID :: bytes
  cv_RequestID :: bytes
  cv_CausationID :: bytes

definition zero_values :: corr_Values where
  "zero_values = \<lparr>cv_CorrelationID = '''', cv_RequestID = '''', cv_CausationID = ''''\<rparr>"

text \<open>Each identifier is a string type with a \<open>String\<close> method and a parser that takes a policy.\<close>

record 'p correlation_library =
  cl_CorrelationString :: "bytes \<Rightarrow> bytes"
  cl_RequestString :: "bytes \<Rightarrow> bytes"
  cl_CausationString :: "bytes \<Rightarrow> bytes"
  cl_ParseCorrelationID :: "bytes \<Rightarrow> 'p \<Rightarrow> bytes result"
  cl_ParseRequestID :: "bytes \<Rightarrow> 'p \<Rightarrow> bytes result"
  cl_ParseCausationID :: "bytes \<Rightarrow> 'p \<Rightarrow> bytes result"

text \<open>\<open>if value != "" { additions[name] = text }\<close>.\<close>

definition add_nonempty :: "bytes \<Rightarrow> bytes \<Rightarrow> bytes \<Rightarrow> (bytes, bytes) gomap \<Rightarrow> (bytes, bytes) gomap" where
  "add_nonempty name value valueText additions =
     (if value \<noteq> '''' then AList.update name valueText additions else additions)"

definition correlation_additions :: "'p correlation_library \<Rightarrow> corr_Values \<Rightarrow> (bytes, bytes) gomap" where
  "correlation_additions lib values =
     add_nonempty CausationIDExtension (cv_CausationID values) (cl_CausationString lib (cv_CausationID values))
       (add_nonempty RequestIDExtension (cv_RequestID values) (cl_RequestString lib (cv_RequestID values))
         (add_nonempty CorrelationIDExtension (cv_CorrelationID values)
           (cl_CorrelationString lib (cv_CorrelationID values)) []))"

definition correlation_Add :: "'p correlation_library \<Rightarrow> Event \<Rightarrow> corr_Values \<Rightarrow> Event result" where
  "correlation_Add lib e values = AddStringExtensions e (correlation_additions lib values)"

definition correlation_parse ::
    "(bytes \<Rightarrow> 'p \<Rightarrow> bytes result) \<Rightarrow> 'p \<Rightarrow> bytes \<Rightarrow> bytes \<times> bool \<Rightarrow> bytes result" where
  "correlation_parse parse policy name found =
     (case found of (value, present) \<Rightarrow>
        if \<not> present then Inr ''''
        else case parse value policy of
            Inl err \<Rightarrow> Inl (ErrorfWrap ErrInvalidAdapterInput name err)
          | Inr parsed \<Rightarrow> Inr parsed)"

definition correlation_Extract ::
    "'p correlation_library \<Rightarrow> Event \<Rightarrow> bool \<Rightarrow> 'p \<Rightarrow> corr_Values result" where
  "correlation_Extract lib e trusted policy =
     and_then (StringExtension e CorrelationIDExtension) (\<lambda>correlation.
     and_then (StringExtension e RequestIDExtension) (\<lambda>request.
     and_then (StringExtension e CausationIDExtension) (\<lambda>causation.
       if \<not> snd correlation \<and> \<not> snd request \<and> \<not> snd causation then Inr zero_values
       else if \<not> trusted then Inl (Sentinel ErrUntrustedMetadata)
       else
         and_then (correlation_parse (cl_ParseCorrelationID lib) policy ''correlationid'' correlation) (\<lambda>c.
         and_then (correlation_parse (cl_ParseRequestID lib) policy ''requestid'' request) (\<lambda>r.
         and_then (correlation_parse (cl_ParseCausationID lib) policy ''causationid'' causation) (\<lambda>s.
           Inr \<lparr>cv_CorrelationID = c, cv_RequestID = r, cv_CausationID = s\<rparr>))))))"

section \<open>Trace context\<close>

text \<open>The carrier of one conversion, and a propagation policy over contexts of type \<open>'c\<close>.\<close>

type_synonym metadataCarrier = "(bytes, bytes) gomap"

definition carrier_Get :: "metadataCarrier \<Rightarrow> bytes \<Rightarrow> bytes" where
  "carrier_Get carrier key = (case map_of carrier key of None \<Rightarrow> '''' | Some v \<Rightarrow> v)"

definition carrier_Set :: "bytes \<Rightarrow> bytes \<Rightarrow> metadataCarrier \<Rightarrow> metadataCarrier" where
  "carrier_Set key value carrier = AList.update key value carrier"

definition carrier_Keys :: "metadataCarrier \<Rightarrow> bytes list" where
  "carrier_Keys carrier = sort (keys carrier)"

record 'c propagation_policy =
  pp_Inject :: "'c \<Rightarrow> metadataCarrier \<Rightarrow> metadataCarrier"
  pp_Extract :: "'c \<Rightarrow> metadataCarrier \<Rightarrow> 'c"
  pp_ExtractTrusted :: "'c \<Rightarrow> metadataCarrier \<Rightarrow> 'c"

definition trace_names :: "bytes list" where
  "trace_names = [''traceparent'', ''tracestate'']"

definition trace_additions :: "metadataCarrier \<Rightarrow> (bytes, bytes) gomap" where
  "trace_additions carrier =
     foldl (\<lambda>additions name. add_nonempty name (carrier_Get carrier name) (carrier_Get carrier name) additions)
       [] trace_names"

definition InjectTraceContext ::
    "'c option \<Rightarrow> Event \<Rightarrow> 'c propagation_policy option \<Rightarrow> (Event \<times> report) result" where
  "InjectTraceContext ctx e policy =
     (case (ctx, policy) of
        (Some context_value, Some p) \<Rightarrow>
          let carrier = pp_Inject p context_value [] in
          and_then (AddStringExtensions e (trace_additions carrier)) (\<lambda>converted.
            Inr (converted, if carrier_Get carrier ''baggage'' \<noteq> ''''
              then [Loss ''baggage'' ''no selected CloudEvents extension''] else []))
      | _ \<Rightarrow> Inl (Errorf ErrInvalidAdapterInput ''telemetry policy''))"

text \<open>\<open>value, present, _ := adapter.StringExtension(event, name)\<close>: absent when the call fails.\<close>

definition trace_carrier :: "Event \<Rightarrow> metadataCarrier" where
  "trace_carrier e =
     foldl (\<lambda>carrier name. case StringExtension e name of
          Inr (value, True) \<Rightarrow> carrier_Set name value carrier | _ \<Rightarrow> carrier) [] trace_names"

definition ExtractTraceContext ::
    "'c \<Rightarrow> 'c option \<Rightarrow> Event \<Rightarrow> 'c propagation_policy option \<Rightarrow> bool \<Rightarrow> 'c" where
  "ExtractTraceContext background ctx e policy trusted =
     (let context_value = (case ctx of None \<Rightarrow> background | Some c \<Rightarrow> c) in
      case policy of
        None \<Rightarrow> context_value
      | Some p \<Rightarrow>
          if trusted then pp_ExtractTrusted p context_value (trace_carrier e)
          else pp_Extract p context_value (trace_carrier e))"

section \<open>Audit metadata\<close>

definition auditIDExtension :: bytes where
  "auditIDExtension = ''auditid''"

definition auditActionExtension :: bytes where
  "auditActionExtension = ''auditaction''"

definition auditOutcomeExtension :: bytes where
  "auditOutcomeExtension = ''auditoutcome''"

text \<open>What the accessors of an audit record and of its context return.\<close>

record audit_Record =
  ar_ID :: bytes
  ar_Action :: bytes
  ar_Outcome :: nat
  ar_CorrelationID :: bytes
  ar_CausationID :: bytes
  ar_TenantID :: bytes

record 't audit_Metadata =
  am_RecordID :: bytes
  am_Action :: bytes
  am_Outcome :: nat
  am_Correlation :: corr_Values
  am_Tenant :: 't

record ('t, 'p) audit_library =
  al_tenancy :: "'t tenancy_library"
  al_correlation :: "'p correlation_library"
  al_zeroPolicy :: 'p
  al_zeroTenant :: 't
  al_OutcomeSucceeded :: nat
  al_OutcomeUnknown :: nat

definition zero_audit :: "('t, 'p) audit_library \<Rightarrow> 't audit_Metadata" where
  "zero_audit lib = \<lparr>am_RecordID = '''', am_Action = '''', am_Outcome = 0, am_Correlation = zero_values,
     am_Tenant = al_zeroTenant lib\<rparr>"

definition audit_losses :: report where
  "audit_losses =
     map (\<lambda>field. Loss field ''canonical audit ownership'') [''audit.occurred_at'', ''audit.recorded_at'']
     @ map (\<lambda>field. Loss field ''not flattened into CloudEvents'')
       [''audit.reason_code'', ''audit.description'', ''audit.actor'', ''audit.subject'', ''audit.context.request_id'',
        ''audit.context.trace_id'', ''audit.context.idempotency_id'', ''audit.context.source_service'',
        ''audit.context.source_version'', ''audit.context.environment'', ''audit.context.network_origin'',
        ''audit.context.user_agent'', ''audit.changes'', ''audit.policy'', ''audit.integrity'', ''audit.attributes'',
        ''audit.redaction_applied'']"

definition audit_tenantAddition ::
    "'t tenancy_library \<Rightarrow> bytes \<Rightarrow> (bytes, bytes) gomap \<Rightarrow> (bytes, bytes) gomap result" where
  "audit_tenantAddition lib value additions =
     (if value = '''' then Inr additions
      else case tl_ParseTenantID lib value of
          Inl err \<Rightarrow> Inl (ErrorfWrap ErrInvalidAdapterInput ''audit tenant'' err)
        | Inr tenant \<Rightarrow> Inr (AList.update TenantIDExtension (tl_Value lib tenant) additions))"

definition audit_additions :: "audit_Record \<Rightarrow> (bytes, bytes) gomap" where
  "audit_additions rec =
     add_nonempty CausationIDExtension (ar_CausationID rec) (ar_CausationID rec)
       (add_nonempty CorrelationIDExtension (ar_CorrelationID rec) (ar_CorrelationID rec)
         [(auditIDExtension, ar_ID rec), (auditActionExtension, ar_Action rec),
          (auditOutcomeExtension, format_nat (ar_Outcome rec))])"

definition audit_AddMetadata ::
    "('t, 'p) audit_library \<Rightarrow> Event \<Rightarrow> audit_Record \<Rightarrow> (Event \<times> report) result" where
  "audit_AddMetadata lib e rec =
     (if ar_ID rec = '''' then Inl (Errorf ErrInvalidAdapterInput ''audit record'')
      else and_then (audit_tenantAddition (al_tenancy lib) (ar_TenantID rec) (audit_additions rec)) (\<lambda>additions.
        and_then (AddStringExtensions e additions) (\<lambda>converted. Inr (converted, audit_losses))))"

definition audit_tenant :: "('t, 'p) audit_library \<Rightarrow> Event \<Rightarrow> 't result" where
  "audit_tenant lib e =
     (if Event_Extension e TenantIDExtension \<noteq> None then tenancy_Extract (al_tenancy lib) e True
      else Inr (al_zeroTenant lib))"

definition audit_ExtractMetadata ::
    "('t, 'p) audit_library \<Rightarrow> Event \<Rightarrow> bool \<Rightarrow> 't audit_Metadata result" where
  "audit_ExtractMetadata lib e trusted =
     and_then (StringExtension e auditIDExtension) (\<lambda>(recordID, hasRecord).
     and_then (StringExtension e auditActionExtension) (\<lambda>(action, hasAction).
     and_then (StringExtension e auditOutcomeExtension) (\<lambda>(outcomeValue, hasOutcome).
       if \<not> hasRecord \<and> \<not> hasAction \<and> \<not> hasOutcome then Inr (zero_audit lib)
       else if \<not> trusted then Inl (Sentinel ErrUntrustedMetadata)
       else if \<not> hasRecord \<or> \<not> hasAction \<or> \<not> hasOutcome
       then Inl (Errorf ErrInvalidAdapterInput ''incomplete audit metadata'')
       else case parse_uint 8 outcomeValue of
           None \<Rightarrow> Inl (Errorf ErrInvalidAdapterInput ''audit outcome'')
         | Some parsed \<Rightarrow>
             if parsed < al_OutcomeSucceeded lib \<or> parsed > al_OutcomeUnknown lib
             then Inl (Errorf ErrInvalidAdapterInput ''audit outcome'')
             else
               and_then (correlation_Extract (al_correlation lib) e True (al_zeroPolicy lib)) (\<lambda>values.
               and_then (audit_tenant lib e) (\<lambda>tenant.
                 Inr \<lparr>am_RecordID = recordID, am_Action = action, am_Outcome = parsed, am_Correlation = values,
                   am_Tenant = tenant\<rparr>)))))"

section \<open>Added metadata is found again\<close>

lemma add_nonempty_wf [simp]: "wf_map m \<Longrightarrow> wf_map (add_nonempty n v t m)"
  by (simp add: add_nonempty_def wf_map_update)

lemma add_nonempty_lookup:
  "map_of (add_nonempty n v t m) k = (if k = n \<and> v \<noteq> '''' then Some t else map_of m k)"
  by (auto simp: add_nonempty_def)

lemma StringExtension_added:
  assumes "AddStringExtensions e adds = Inr e'" "valid_event e" "wf_map adds" "map_of adds n = Some v" "v \<noteq> ''''"
  shows "StringExtension e' n = Inr (v, True)"
proof -
  note a = assms(1) [unfolded AddStringExtensions_Inr [OF assms(2,3)]]
  have "map_of (ev_extensions e) n \<in> {None, Some (text_attribute v)}"
    using a assms(4) by (auto simp: strings_agree_def list_all_iff dest: map_of_SomeD)
  then have "map_of (ev_extensions e') n = Some (text_attribute v)"
    using a assms(4) by (auto simp: with_strings_lookup)
  then show ?thesis using assms(5) by (simp add: StringExtension_Inr text_attribute_def)
qed

lemma StringExtension_not_added:
  assumes "AddStringExtensions e adds = Inr e'" "valid_event e" "wf_map adds" "map_of adds n = None"
    "map_of (ev_extensions e) n = None"
  shows "StringExtension e' n = Inr ('''', False)" "map_of (ev_extensions e') n = None"
  using assms(1) [unfolded AddStringExtensions_Inr [OF assms(2,3)]] assms(4,5)
  by (simp_all add: StringExtension_Inr with_strings_lookup)

lemma tenancy_Extract_added:
  assumes "tenancy_Add lib e t = Inr e'" "valid_event e" "tl_Value lib t \<noteq> ''''"
    "tl_ParseTenantID lib (tl_Value lib t) = Inr t"
  shows "tenancy_Extract lib e' True = Inr t"
proof -
  have a: "AddStringExtensions e [(TenantIDExtension, tl_Value lib t)] = Inr e'"
    using assms(1) by (simp add: tenancy_Add_def split: if_splits)
  have "StringExtension e' TenantIDExtension = Inr (tl_Value lib t, True)"
    by (rule StringExtension_added [OF a assms(2)]) (simp_all add: wf_map_def assms(3))
  then show ?thesis using assms(4) by (simp add: tenancy_Extract_def)
qed

text \<open>A correlation library whose identifiers are the strings it prints and whose policy accepts them.\<close>

definition plain_identifiers :: "'p correlation_library \<Rightarrow> 'p \<Rightarrow> corr_Values \<Rightarrow> bool" where
  "plain_identifiers lib policy values \<longleftrightarrow>
     (cv_CorrelationID values \<noteq> '''' \<longrightarrow>
        cl_ParseCorrelationID lib (cv_CorrelationID values) policy = Inr (cv_CorrelationID values))
     \<and> (cv_RequestID values \<noteq> '''' \<longrightarrow>
        cl_ParseRequestID lib (cv_RequestID values) policy = Inr (cv_RequestID values))
     \<and> (cv_CausationID values \<noteq> '''' \<longrightarrow>
        cl_ParseCausationID lib (cv_CausationID values) policy = Inr (cv_CausationID values))"

lemma correlation_Extract_plain:
  assumes "StringExtension e CorrelationIDExtension = Inr (cv_CorrelationID v, cv_CorrelationID v \<noteq> '''')"
    "StringExtension e RequestIDExtension = Inr (cv_RequestID v, cv_RequestID v \<noteq> '''')"
    "StringExtension e CausationIDExtension = Inr (cv_CausationID v, cv_CausationID v \<noteq> '''')"
    "plain_identifiers lib policy v"
  shows "correlation_Extract lib e True policy = Inr v"
  using assms by (cases v) (auto simp: correlation_Extract_def correlation_parse_def plain_identifiers_def zero_values_def)

definition context_names :: "bytes set" where
  "context_names = {CorrelationIDExtension, RequestIDExtension, CausationIDExtension, TenantIDExtension}"

lemmas audit_names = auditIDExtension_def auditActionExtension_def auditOutcomeExtension_def

lemma StringExtension_optional:
  assumes "AddStringExtensions e adds = Inr e'" "valid_event e" "wf_map adds"
    "map_of adds n = (if v = '''' then None else Some v)" "map_of (ev_extensions e) n = None"
  shows "StringExtension e' n = Inr (v, v \<noteq> '''')"
  using StringExtension_added [OF assms(1-3), of n v] StringExtension_not_added [OF assms(1-3), of n] assms(4,5)
  by (cases "v = ''''") auto

lemma correlation_Extract_added:
  assumes "correlation_Add lib e v = Inr e'" "valid_event e" "\<forall>n\<in>context_names. map_of (ev_extensions e) n = None"
    "plain_identifiers lib policy v"
    "cl_CorrelationString lib = id" "cl_RequestString lib = id" "cl_CausationString lib = id"
  shows "correlation_Extract lib e' True policy = Inr v"
proof -
  have w: "wf_map (correlation_additions lib v)" by (simp add: correlation_additions_def)
  have "map_of (correlation_additions lib v) CorrelationIDExtension
      = (if cv_CorrelationID v = '''' then None else Some (cv_CorrelationID v))"
    "map_of (correlation_additions lib v) RequestIDExtension
      = (if cv_RequestID v = '''' then None else Some (cv_RequestID v))"
    "map_of (correlation_additions lib v) CausationIDExtension
      = (if cv_CausationID v = '''' then None else Some (cv_CausationID v))"
    using assms(5-7) by (auto simp: correlation_additions_def add_nonempty_lookup extension_names)
  then show ?thesis
    using StringExtension_optional [OF assms(1) [unfolded correlation_Add_def] assms(2) w] assms(3,4)
    by (intro correlation_Extract_plain) (auto simp: context_names_def)
qed

definition audit_values :: "audit_Record \<Rightarrow> corr_Values" where
  "audit_values rec = \<lparr>cv_CorrelationID = ar_CorrelationID rec, cv_RequestID = '''', cv_CausationID = ar_CausationID rec\<rparr>"

definition audit_record_ok :: "('t, 'p) audit_library \<Rightarrow> audit_Record \<Rightarrow> bool" where
  "audit_record_ok lib rec \<longleftrightarrow> ar_Action rec \<noteq> '''' \<and> ar_Outcome rec < 256
     \<and> al_OutcomeSucceeded lib \<le> ar_Outcome rec \<and> ar_Outcome rec \<le> al_OutcomeUnknown lib
     \<and> plain_identifiers (al_correlation lib) (al_zeroPolicy lib) (audit_values rec)"

text \<open>A parsed tenant has a value, and its value is parsed to the same tenant.\<close>

definition stable_tenants :: "'t tenancy_library \<Rightarrow> bool" where
  "stable_tenants lib \<longleftrightarrow>
     (\<forall>v t. tl_ParseTenantID lib v = Inr t \<longrightarrow> tl_Value lib t \<noteq> '''' \<and> tl_ParseTenantID lib (tl_Value lib t) = Inr t)"

definition audit_parsed_tenant :: "('t, 'p) audit_library \<Rightarrow> audit_Record \<Rightarrow> 't result" where
  "audit_parsed_tenant lib rec =
     (if ar_TenantID rec = '''' then Inr (al_zeroTenant lib) else tl_ParseTenantID (al_tenancy lib) (ar_TenantID rec))"

lemma audit_AddMetadata_Inr:
  assumes "audit_AddMetadata lib e rec = Inr (e', report)"
  obtains adds t where "audit_parsed_tenant lib rec = Inr t" "AddStringExtensions e adds = Inr e'" "wf_map adds"
    "ar_ID rec \<noteq> ''''" "report = audit_losses"
    "\<And>n. map_of adds n = (if n = TenantIDExtension \<and> ar_TenantID rec \<noteq> '''' then Some (tl_Value (al_tenancy lib) t)
       else map_of (audit_additions rec) n)"
proof -
  have w: "wf_map (audit_additions rec)"
    unfolding audit_additions_def by (intro add_nonempty_wf) (simp add: wf_map_def audit_names)
  from assms obtain adds where a: "audit_tenantAddition (al_tenancy lib) (ar_TenantID rec) (audit_additions rec) = Inr adds"
    "AddStringExtensions e adds = Inr e'" "ar_ID rec \<noteq> ''''" "report = audit_losses"
    by (auto simp: audit_AddMetadata_def split: if_splits)
  then obtain t where t: "audit_parsed_tenant lib rec = Inr t"
    "adds = (if ar_TenantID rec = '''' then audit_additions rec
       else AList.update TenantIDExtension (tl_Value (al_tenancy lib) t) (audit_additions rec))"
    by (auto simp: audit_tenantAddition_def audit_parsed_tenant_def split: if_splits sum.splits)
  show thesis
    using a t w by (intro that [of t adds]) (auto simp: wf_map_update)
qed

lemma audit_additions_lookup:
  "map_of (audit_additions rec) auditIDExtension = Some (ar_ID rec)"
  "map_of (audit_additions rec) auditActionExtension = Some (ar_Action rec)"
  "map_of (audit_additions rec) auditOutcomeExtension = Some (format_nat (ar_Outcome rec))"
  "map_of (audit_additions rec) CorrelationIDExtension
     = (if ar_CorrelationID rec = '''' then None else Some (ar_CorrelationID rec))"
  "map_of (audit_additions rec) CausationIDExtension
     = (if ar_CausationID rec = '''' then None else Some (ar_CausationID rec))"
  "map_of (audit_additions rec) RequestIDExtension = None" "map_of (audit_additions rec) TenantIDExtension = None"
  by (simp_all add: audit_additions_def add_nonempty_lookup audit_names extension_names)

lemma audit_name_neq:
  "auditIDExtension \<noteq> TenantIDExtension" "auditActionExtension \<noteq> TenantIDExtension"
  "auditOutcomeExtension \<noteq> TenantIDExtension"
  by (simp_all add: audit_names TenantIDExtension_def)

lemma audit_Extract_added:
  assumes add: "audit_AddMetadata lib e rec = Inr (e', report)" and v: "valid_event e"
    and fresh: "\<forall>n\<in>context_names. map_of (ev_extensions e) n = None"
    and ok: "audit_record_ok lib rec" and ten: "stable_tenants (al_tenancy lib)"
  shows "\<exists>t. audit_parsed_tenant lib rec = Inr t \<and> audit_ExtractMetadata lib e' True =
    Inr \<lparr>am_RecordID = ar_ID rec, am_Action = ar_Action rec, am_Outcome = ar_Outcome rec,
      am_Correlation = audit_values rec, am_Tenant = t\<rparr>"
proof -
  obtain adds t where k: "audit_parsed_tenant lib rec = Inr t" "AddStringExtensions e adds = Inr e'" "wf_map adds"
    "ar_ID rec \<noteq> ''''" "report = audit_losses"
    "\<And>n. map_of adds n = (if n = TenantIDExtension \<and> ar_TenantID rec \<noteq> '''' then Some (tl_Value (al_tenancy lib) t)
       else map_of (audit_additions rec) n)"
    by (rule audit_AddMetadata_Inr [OF add]) blast
  note added = StringExtension_added [OF k(2) v k(3)] and opt = StringExtension_optional [OF k(2) v k(3)]
  have ids: "StringExtension e' auditIDExtension = Inr (ar_ID rec, True)"
    "StringExtension e' auditActionExtension = Inr (ar_Action rec, True)"
    "StringExtension e' auditOutcomeExtension = Inr (format_nat (ar_Outcome rec), True)"
    using k(4) ok by (simp_all add: added k(6) audit_additions_lookup audit_record_ok_def audit_name_neq)
  have corr: "correlation_Extract (al_correlation lib) e' True (al_zeroPolicy lib) = Inr (audit_values rec)"
    using ok fresh
    by (intro correlation_Extract_plain opt)
      (simp_all add: k(6) audit_additions_lookup audit_values_def context_names_def audit_record_ok_def, simp_all add: extension_names)
  have "audit_tenant lib e' = Inr t"
  proof (cases "ar_TenantID rec = ''''")
    case True
    then show ?thesis
      using k(1,6) StringExtension_not_added(2) [OF k(2) v k(3), of TenantIDExtension] fresh
      by (simp add: audit_tenant_def Event_Extension_def audit_additions_lookup audit_parsed_tenant_def context_names_def)
  next
    case False
    then have p: "tl_Value (al_tenancy lib) t \<noteq> ''''" "tl_ParseTenantID (al_tenancy lib) (tl_Value (al_tenancy lib) t) = Inr t"
      using k(1) ten by (auto simp: audit_parsed_tenant_def stable_tenants_def)
    then have s: "StringExtension e' TenantIDExtension = Inr (tl_Value (al_tenancy lib) t, True)"
      using False by (intro added) (simp_all add: k(6))
    then have "map_of (ev_extensions e') TenantIDExtension \<noteq> None" by (auto simp: StringExtension_Inr split: option.splits)
    then show ?thesis using s p(2) by (simp add: audit_tenant_def tenancy_Extract_def Event_Extension_def)
  qed
  then show ?thesis
    using k(1) ids corr ok parse_uint_format_nat [of "ar_Outcome rec" 8]
    by (simp add: audit_ExtractMetadata_def audit_record_ok_def)
qed

section \<open>Trace context\<close>

lemma trace_additions_cases:
  "trace_additions carrier =
     (if carrier_Get carrier ''traceparent'' = '''' then [] else [(''traceparent'', carrier_Get carrier ''traceparent'')])
     @ (if carrier_Get carrier ''tracestate'' = '''' then [] else [(''tracestate'', carrier_Get carrier ''tracestate'')])"
  by (simp add: trace_additions_def trace_names_def add_nonempty_def)

lemma trace_additions_lookup:
  "wf_map (trace_additions carrier)"
  "map_of (trace_additions carrier) n = Some v \<longleftrightarrow>
     n \<in> {''traceparent'', ''tracestate''} \<and> map_of carrier n = Some v \<and> v \<noteq> ''''"
  by (auto simp: trace_additions_cases wf_map_def carrier_Get_def split: option.splits if_splits)

lemma trace_carrier_cases:
  assumes "\<And>n. n \<in> {''traceparent'', ''tracestate''}
    \<Longrightarrow> StringExtension e n = Inr (carrier_Get carrier n, carrier_Get carrier n \<noteq> '''')"
  shows "trace_carrier e = trace_additions carrier"
  using assms [of "''traceparent''"] assms [of "''tracestate''"]
  by (auto simp: trace_carrier_def trace_additions_cases trace_names_def carrier_Set_def)

lemma InjectTraceContext_Inr:
  assumes i: "InjectTraceContext (Some c) e (Some p) = Inr (e', report)" and v: "valid_event e"
    and f: "\<forall>n\<in>{''traceparent'', ''tracestate''}. map_of (ev_extensions e) n = None"
  defines "carrier \<equiv> pp_Inject p c []"
  shows "valid_event e'" "trace_carrier e' = trace_additions carrier"
    "map_of (ev_extensions e') n = (case map_of (trace_additions carrier) n of
       Some v \<Rightarrow> Some (text_attribute v) | None \<Rightarrow> map_of (ev_extensions e) n)"
    "report = (if map_of carrier ''baggage'' \<in> {None, Some ''''} then []
       else [Loss ''baggage'' ''no selected CloudEvents extension''])"
proof -
  have a: "AddStringExtensions e (trace_additions carrier) = Inr e'"
    and r: "report = (if carrier_Get carrier ''baggage'' = '''' then [] else [Loss ''baggage'' ''no selected CloudEvents extension''])"
    using i by (auto simp: InjectTraceContext_def carrier_def Let_def and_then_eq_Inr)
  note x = a [unfolded AddStringExtensions_Inr [OF v trace_additions_lookup(1)]]
  have "map_of (trace_additions carrier) n = (if carrier_Get carrier n = '''' then None else Some (carrier_Get carrier n))"
    if "n \<in> {''traceparent'', ''tracestate''}" for n
    using that by (auto simp: trace_additions_cases)
  then have "StringExtension e' n = Inr (carrier_Get carrier n, carrier_Get carrier n \<noteq> '''')"
    if "n \<in> {''traceparent'', ''tracestate''}" for n
    using that f [THEN bspec, OF that] by (intro StringExtension_optional [OF a v]) (simp_all add: trace_additions_lookup(1))
  then show "trace_carrier e' = trace_additions carrier" by (rule trace_carrier_cases)
  show "valid_event e'" using x by blast
  show "map_of (ev_extensions e') n = (case map_of (trace_additions carrier) n of
       Some v \<Rightarrow> Some (text_attribute v) | None \<Rightarrow> map_of (ev_extensions e) n)"
  proof -
    have e: "e' = with_strings e (trace_additions carrier)" using x by blast
    have "map_of (ev_extensions e) n = None" if "map_of (trace_additions carrier) n = Some v" for v
      by (rule f [THEN bspec, OF that [unfolded trace_additions_lookup(2), THEN conjunct1]])
    then show ?thesis
      unfolding e with_strings_lookup
      by (cases "map_of (trace_additions carrier) n"; cases "map_of (ev_extensions e) n") simp_all
  qed
  show "report = (if map_of carrier ''baggage'' \<in> {None, Some ''''} then []
       else [Loss ''baggage'' ''no selected CloudEvents extension''])"
    using r by (simp add: carrier_Get_def split: option.split)
qed

section \<open>Properties\<close>

text \<open>
  C27. No adapter adopts metadata that the caller did not mark as trusted. On an untrusted event the tenant is never
  returned; correlation and audit metadata are returned only as their zero values, for an event that has none of
  the extensions; and a mapped string that was not retained is empty.
\<close>

theorem metadata_needs_trust:
  "(\<exists>err. tenancy_Extract tenants e False = Inl err)
   \<and> (correlation_Extract correlations e False policy = Inr values \<longrightarrow> values = zero_values
      \<and> (\<forall>n\<in>{CorrelationIDExtension, RequestIDExtension, CausationIDExtension}. map_of (ev_extensions e) n = None))
   \<and> (audit_ExtractMetadata audits e False = Inr metadata \<longrightarrow> metadata = zero_audit audits
      \<and> (\<forall>n\<in>{auditIDExtension, auditActionExtension, auditOutcomeExtension}. map_of (ev_extensions e) n = None))
   \<and> (MappedString e name '''' False = Inr mapped \<longrightarrow> mapped = '''')"
proof (intro conjI impI)
  show "\<exists>err. tenancy_Extract tenants e False = Inl err"
    by (cases "StringExtension e TenantIDExtension") (auto simp: tenancy_Extract_def)
next
  assume "correlation_Extract correlations e False policy = Inr values"
  then show "values = zero_values"
    "\<forall>n\<in>{CorrelationIDExtension, RequestIDExtension, CausationIDExtension}. map_of (ev_extensions e) n = None"
    by (auto simp: correlation_Extract_def and_then_eq_Inr StringExtension_Inr split: if_splits option.splits)
next
  assume "audit_ExtractMetadata audits e False = Inr metadata"
  then show "metadata = zero_audit audits"
    "\<forall>n\<in>{auditIDExtension, auditActionExtension, auditOutcomeExtension}. map_of (ev_extensions e) n = None"
    by (auto simp: audit_ExtractMetadata_def and_then_eq_Inr StringExtension_Inr split: if_splits option.splits)
next
  assume "MappedString e name '''' False = Inr mapped"
  then show "mapped = ''''" by (auto simp: MappedString_Inr split: option.splits)
qed

definition tenancy_sample :: "bytes tenancy_library" where
  "tenancy_sample = \<lparr>tl_ParseTenantID = (\<lambda>v. if v = '''' then Inl (External ''tenancy'') else Inr v), tl_Value = (\<lambda>t. t),
     tl_Valid = (\<lambda>t. t \<noteq> ''''), tl_MetadataMissing = External ''tenant metadata missing''\<rparr>"

definition correlation_sample :: "unit correlation_library" where
  "correlation_sample = \<lparr>cl_CorrelationString = id, cl_RequestString = id, cl_CausationString = id,
     cl_ParseCorrelationID = (\<lambda>v _. Inr v), cl_ParseRequestID = (\<lambda>v _. Inr v), cl_ParseCausationID = (\<lambda>v _. Inr v)\<rparr>"

definition audit_sample :: "(bytes, unit) audit_library" where
  "audit_sample = \<lparr>al_tenancy = tenancy_sample, al_correlation = correlation_sample, al_zeroPolicy = (),
     al_zeroTenant = '''', al_OutcomeSucceeded = 1, al_OutcomeUnknown = 4\<rparr>"

theorem metadata_needs_trust_witness:
  "correlation_Extract correlation_sample sample_event False () = Inr zero_values
   \<and> audit_ExtractMetadata audit_sample sample_event False = Inr (zero_audit audit_sample)"
proof -
  have s: "StringExtension sample_event n = Inr ('''', False)" if "n \<notin> {''a'', ''b''}" for n
    using that by (simp add: StringExtension_Inr sample_event_def)
  have c: "correlation_Extract correlation_sample sample_event False () = Inr zero_values"
    by (simp add: correlation_Extract_def s extension_names)
  have a: "audit_ExtractMetadata audit_sample sample_event False = Inr (zero_audit audit_sample)"
    by (simp add: audit_ExtractMetadata_def s audit_names)
  show ?thesis
    using metadata_needs_trust [of tenancy_sample sample_event correlation_sample "()" zero_values audit_sample
        "zero_audit audit_sample" "''x''" "''''"] c a by blast
qed

text \<open>
  C33. Audit metadata comes back. When \<open>AddMetadata\<close> adds a record to a valid event without context extensions,
  the trusted \<open>ExtractMetadata\<close> of the result returns the identifier, the action, the outcome, the correlation
  identifiers and the parsed tenant of that record.
\<close>

theorem audit_roundtrip:
  assumes "audit_AddMetadata lib e rec = Inr (e', report)" and "valid_event e"
    and "\<forall>n\<in>context_names. map_of (ev_extensions e) n = None"
    and "audit_record_ok lib rec" and "stable_tenants (al_tenancy lib)"
  shows "\<exists>t. audit_parsed_tenant lib rec = Inr t \<and> audit_ExtractMetadata lib e' True =
    Inr \<lparr>am_RecordID = ar_ID rec, am_Action = ar_Action rec, am_Outcome = ar_Outcome rec,
      am_Correlation = audit_values rec, am_Tenant = t\<rparr>"
  by (rule audit_Extract_added [OF assms])

definition record_sample :: audit_Record where
  "record_sample = \<lparr>ar_ID = ''r'', ar_Action = ''read'', ar_Outcome = 2, ar_CorrelationID = ''c'', ar_CausationID = '''',
     ar_TenantID = ''acme''\<rparr>"

lemma audit_sample_added:
  obtains e' where "audit_AddMetadata audit_sample sample_event record_sample = Inr (e', audit_losses)"
proof -
  let ?adds = "[(''auditid'', ''r''), (''auditaction'', ''read''), (''auditoutcome'', format_nat 2), (''correlationid'', ''c''),
    (''tenantid'', ''acme'')]"
  let ?e = "with_strings sample_event ?adds"
  have f: "format_nat 2 = ''2''" by (subst format_nat.simps) (simp add: digit_char_def char_of_eqI)
  have w: "wf_map ?adds" by (simp add: wf_map_def)
  have a: "strings_agree (ev_extensions sample_event) ?adds"
    unfolding f strings_agree_def by (simp add: sample_event_def) (simp add: eval_defs)
  have "plain_map (ev_extensions ?e)"
    using plain_map_fresh [OF valid_eventD(8) [OF sample_event_valid] w] by (simp add: with_strings_def)
  then have "event_wf ?e" by (simp add: event_wf_def with_strings_def sample_event_def)
  moreover have "valid_context (event_attributes ?e)"
    unfolding f
    by (simp add: valid_context_def with_strings_def fresh_strings_def sample_event_def event_attributes_def text_attribute_def
      valid_extension_def selected_ok_def isReservedAttributeName_def reservedAttributeNames_def validAttribute_def eval_defs)
  ultimately have "AddStringExtensions sample_event ?adds = Inr ?e"
    using AddStringExtensions_Inr [OF sample_event_valid w] a by (simp add: valid_event_def)
  then show thesis
    by (intro that [of ?e]) (simp add: audit_AddMetadata_def audit_tenantAddition_def audit_additions_def record_sample_def
        audit_sample_def tenancy_sample_def add_nonempty_def audit_names extension_names)
qed

theorem audit_roundtrip_witness:
  "\<exists>e'. audit_AddMetadata audit_sample sample_event record_sample = Inr (e', audit_losses)
    \<and> (\<exists>t. audit_ExtractMetadata audit_sample e' True = Inr \<lparr>am_RecordID = ''r'', am_Action = ''read'', am_Outcome = 2,
        am_Correlation = audit_values record_sample, am_Tenant = t\<rparr>)"
proof -
  obtain e' where e: "audit_AddMetadata audit_sample sample_event record_sample = Inr (e', audit_losses)"
    by (rule audit_sample_added)
  have "\<forall>n\<in>context_names. map_of (ev_extensions sample_event) n = None"
    by (simp add: context_names_def extension_names sample_event_def)
  moreover have "audit_record_ok audit_sample record_sample"
    by (simp add: audit_record_ok_def record_sample_def audit_sample_def plain_identifiers_def audit_values_def correlation_sample_def)
  moreover have "stable_tenants (al_tenancy audit_sample)"
    by (simp add: stable_tenants_def audit_sample_def tenancy_sample_def)
  ultimately show ?thesis using audit_roundtrip [OF e sample_event_valid] e by (auto simp: record_sample_def)
qed

text \<open>
  C34. Trace context comes back and baggage stays out. After \<open>InjectTraceContext\<close> into a valid event without trace
  extensions, the event has as its \<open>traceparent\<close> and \<open>tracestate\<close> extensions the values other than the empty one that
  the policy injected under these two names, and every other extension unchanged; \<open>ExtractTraceContext\<close> of that event
  hands the policy a carrier with exactly these entries; and a baggage value is reported as a loss.
\<close>

theorem trace_roundtrip:
  assumes "InjectTraceContext (Some c) e (Some p) = Inr (e', report)" and "valid_event e"
    and "map_of (ev_extensions e) ''traceparent'' = None" and "map_of (ev_extensions e) ''tracestate'' = None"
  shows "\<exists>carrier.
    (\<forall>n v. map_of carrier n = Some v \<longleftrightarrow>
       (n = ''traceparent'' \<or> n = ''tracestate'') \<and> map_of (pp_Inject p c []) n = Some v \<and> v \<noteq> '''')
    \<and> ExtractTraceContext background ctx e' (Some p) True
        = pp_ExtractTrusted p (case ctx of None \<Rightarrow> background | Some d \<Rightarrow> d) carrier
    \<and> ExtractTraceContext background ctx e' (Some p) False
        = pp_Extract p (case ctx of None \<Rightarrow> background | Some d \<Rightarrow> d) carrier
    \<and> (\<forall>n. map_of (ev_extensions e') n = (case map_of carrier n of
         Some v \<Rightarrow> Some \<lparr>attr_kind = AttributeString, attr_text = v, attr_bytes = []\<rparr>
       | None \<Rightarrow> map_of (ev_extensions e) n))
    \<and> valid_event e'
    \<and> report = (if map_of (pp_Inject p c []) ''baggage'' \<in> {None, Some ''''} then []
        else [Loss ''baggage'' ''no selected CloudEvents extension''])"
proof -
  have "\<forall>n\<in>{''traceparent'', ''tracestate''}. map_of (ev_extensions e) n = None" using assms(3,4) by simp
  note k = InjectTraceContext_Inr [OF assms(1,2) this]
  show ?thesis
    using k trace_additions_lookup(2) [of "pp_Inject p c []"] unfolding text_attribute_def
    by (intro exI [of _ "trace_additions (pp_Inject p c [])"])
      (simp add: ExtractTraceContext_def Let_def)
qed

definition traceparent_sample :: bytes where
  "traceparent_sample = ''00-4bf92f3577b34da6a3ce929d0e0e4736-00f067aa0ba902b7-01''"

text \<open>A policy whose context is the pair of the two trace headers.\<close>

definition policy_sample :: "(bytes \<times> bytes) propagation_policy" where
  "policy_sample = \<lparr>pp_Inject = (\<lambda>c carrier. carrier_Set ''baggage'' ''k=v''
       (carrier_Set ''tracestate'' (snd c) (carrier_Set ''traceparent'' (fst c) carrier))),
     pp_Extract = (\<lambda>c _. c),
     pp_ExtractTrusted = (\<lambda>c carrier. (carrier_Get carrier ''traceparent'', carrier_Get carrier ''tracestate''))\<rparr>"

lemma trace_sample_injected:
  obtains e' where "InjectTraceContext (Some (traceparent_sample, ''vendor=1'')) sample_event (Some policy_sample)
    = Inr (e', [Loss ''baggage'' ''no selected CloudEvents extension''])"
proof -
  let ?adds = "[(''traceparent'', traceparent_sample), (''tracestate'', ''vendor=1'')]"
  let ?e = "with_strings sample_event ?adds"
  have w: "wf_map ?adds" by (simp add: wf_map_def)
  have a: "strings_agree (ev_extensions sample_event) ?adds"
    unfolding strings_agree_def by (simp add: sample_event_def) (simp add: traceparent_sample_def eval_defs)
  have "plain_map (ev_extensions ?e)"
    using plain_map_fresh [OF valid_eventD(8) [OF sample_event_valid] w] by (simp add: with_strings_def)
  then have "event_wf ?e" by (simp add: event_wf_def with_strings_def sample_event_def)
  moreover have "valid_context (event_attributes ?e)"
    by (simp add: valid_context_def with_strings_def fresh_strings_def sample_event_def event_attributes_def text_attribute_def
      valid_extension_def selected_ok_def isReservedAttributeName_def reservedAttributeNames_def validAttribute_def
      traceparent_sample_def eval_defs)
  ultimately have "AddStringExtensions sample_event ?adds = Inr ?e"
    using AddStringExtensions_Inr [OF sample_event_valid w] a by (simp add: valid_event_def)
  moreover have "trace_additions (pp_Inject policy_sample (traceparent_sample, ''vendor=1'') []) = ?adds"
    by (simp add: trace_additions_cases carrier_Get_def policy_sample_def carrier_Set_def) (simp add: traceparent_sample_def)
  ultimately show thesis
    by (intro that [of ?e]) (simp add: InjectTraceContext_def, simp add: policy_sample_def carrier_Get_def carrier_Set_def)
qed

theorem trace_roundtrip_witness:
  "\<exists>e'. InjectTraceContext (Some (traceparent_sample, ''vendor=1'')) sample_event (Some policy_sample)
      = Inr (e', [Loss ''baggage'' ''no selected CloudEvents extension''])
   \<and> map_of (ev_extensions e') ''tracestate'' = Some (text_attribute ''vendor=1'')
   \<and> ExtractTraceContext (''none'', '''') None e' (Some policy_sample) True = (traceparent_sample, ''vendor=1'')"
proof -
  obtain e' where i: "InjectTraceContext (Some (traceparent_sample, ''vendor=1'')) sample_event (Some policy_sample)
      = Inr (e', [Loss ''baggage'' ''no selected CloudEvents extension''])"
    by (rule trace_sample_injected)
  have f: "map_of (ev_extensions sample_event) ''traceparent'' = None"
    "map_of (ev_extensions sample_event) ''tracestate'' = None"
    by (simp_all add: sample_event_def)
  have p: "map_of (pp_Inject policy_sample (traceparent_sample, ''vendor=1'') []) ''traceparent'' = Some traceparent_sample"
    "map_of (pp_Inject policy_sample (traceparent_sample, ''vendor=1'') []) ''tracestate'' = Some ''vendor=1''"
    "traceparent_sample \<noteq> ''''"
    by (simp_all add: policy_sample_def carrier_Set_def) (simp add: traceparent_sample_def)
  from trace_roundtrip [OF i sample_event_valid f, of "(''none'', '''')" None] obtain carrier where
    c: "map_of carrier n = Some v \<longleftrightarrow> (n = ''traceparent'' \<or> n = ''tracestate'')
       \<and> map_of (pp_Inject policy_sample (traceparent_sample, ''vendor=1'') []) n = Some v \<and> v \<noteq> ''''"
    and x: "ExtractTraceContext (''none'', '''') None e' (Some policy_sample) True
      = pp_ExtractTrusted policy_sample (''none'', '''') carrier"
    and l: "map_of (ev_extensions e') n = (case map_of carrier n of
         Some v \<Rightarrow> Some \<lparr>attr_kind = AttributeString, attr_text = v, attr_bytes = []\<rparr>
       | None \<Rightarrow> map_of (ev_extensions sample_event) n)" for n v
    by auto
  have m: "map_of carrier ''traceparent'' = Some traceparent_sample" "map_of carrier ''tracestate'' = Some ''vendor=1''"
    using p by (simp_all add: c)
  show ?thesis using i l [of "''tracestate''"] x m
    by (simp add: text_attribute_def) (simp add: policy_sample_def carrier_Get_def)
qed

end
