(* ===== verification/CE_Schema.thy ===== *)
theory CE_Schema
  imports CE_Event
begin

text \<open>
  \<open>schema.go\<close>: the opt-in schema check. The validator is an interface value that other code implements,
  so it is a parameter: its reflected kind, whether a value of that kind is nil, and its \<open>Validate\<close> method.
  A nil interface is \<open>None\<close>. The results are that the validator decides exactly the events that are valid
  and have both a schema and data, and that it has no influence on any other.
\<close>

datatype reflect_kind = KindChan | KindFunc | KindInterface | KindMap | KindPointer | KindSlice | KindOther

record SchemaValidator =
  sv_kind :: reflect_kind
  sv_isNil :: bool
  sv_Validate :: "go_context \<Rightarrow> bytes \<Rightarrow> bytes \<Rightarrow> bytes option \<Rightarrow> unit result"

definition nilSchemaValidator :: "SchemaValidator option \<Rightarrow> bool" where
  "nilSchemaValidator validator =
     (case validator of
        None \<Rightarrow> True
      | Some value \<Rightarrow> (case sv_kind value of KindOther \<Rightarrow> False | _ \<Rightarrow> sv_isNil value))"

definition ValidateSchema :: "go_context option \<Rightarrow> Event \<Rightarrow> SchemaValidator option \<Rightarrow> unit result" where
  "ValidateSchema ctx e validator =
     (case ctx of
        None \<Rightarrow> Inl (Sentinel ErrContextRequired)
      | Some c \<Rightarrow>
          (case ctx_before c of
             Some err \<Rightarrow> Inl err
           | None \<Rightarrow>
               if nilSchemaValidator validator then Inl (Sentinel ErrSchemaValidatorRequired)
               else and_then (Event_Validate e) (\<lambda>_.
                 let (schema, hasSchema) = Event_DataSchema e; data = Event_Data e;
                     (contentType, _) = Event_DataContentType e in
                 if \<not> hasSchema then Inl (Sentinel ErrSchemaRequired)
                 else if \<not> Data_Present data then Inl (Sentinel ErrDataRequired)
                 else sv_Validate (the validator) c schema contentType (Data_Bytes data))))"

lemmas schema_eval [eval_defs] = nilSchemaValidator_def ValidateSchema_def

section \<open>What the validator decides\<close>

lemma ValidateSchema_Inr:
  assumes "event_wf e"
  shows "ValidateSchema ctx e validator = Inr () \<longleftrightarrow> (\<exists>c v. ctx = Some c \<and> ctx_before c = None
    \<and> validator = Some v \<and> \<not> nilSchemaValidator validator \<and> valid_event e \<and> ev_dataSchema e \<noteq> ''''
    \<and> data_present (ev_data e)
    \<and> sv_Validate v c (ev_dataSchema e) (ev_dataContentType e) (Some (data_bytes (ev_data e))) = Inr ())"
proof (cases validator)
  case None
  then show ?thesis by (auto simp: ValidateSchema_def nilSchemaValidator_def split: option.splits)
next
  case (Some v)
  show ?thesis
    using Event_Validate_iff [OF assms] Some
    by (auto simp: ValidateSchema_def Event_DataSchema_def Event_DataContentType_def Event_Data_id [OF assms]
        Data_Present_def Data_Bytes_def and_then_eq_Inr Let_def split: option.splits if_splits)
qed

section \<open>Properties\<close>

text \<open>
  \<open>ValidateSchema\<close> accepts exactly what the validator accepts and the event declares. It succeeds exactly when
  the context is live, the validator is neither nil nor a typed nil, the event is valid and has both a schema and
  data, and the validator accepts the schema, the content type and the bytes of that event.
\<close>

theorem ValidateSchema_exact:
  assumes "event_wf e"
  shows "ValidateSchema ctx e validator = Inr () \<longleftrightarrow> (\<exists>c v. ctx = Some c \<and> ctx_before c = None
    \<and> validator = Some v \<and> \<not> nilSchemaValidator validator \<and> valid_event e \<and> ev_dataSchema e \<noteq> ''''
    \<and> data_present (ev_data e)
    \<and> sv_Validate v c (ev_dataSchema e) (ev_dataContentType e) (Some (data_bytes (ev_data e))) = Inr ())"
  by (rule ValidateSchema_Inr [OF assms])

definition accepting_validator :: SchemaValidator where
  "accepting_validator = \<lparr>sv_kind = KindOther, sv_isNil = False, sv_Validate = (\<lambda>_ _ _ _. Inr ())\<rparr>"

definition schema_sample :: Event where
  "schema_sample = sample_event\<lparr>ev_dataSchema := ''urn:x'', ev_dataContentType := ''application/json'',
     ev_data := \<lparr>data_kind = DataBinary, data_present = True, data_bytes = ''{}''\<rparr>\<rparr>"

lemma schema_sample_valid: "valid_event schema_sample"
  unfolding valid_event_def
proof
  show "event_wf schema_sample"
    by (simp add: event_wf_def schema_sample_def sample_event_def plain_map_def wf_map_def plain_bytes_def text_attribute_def
        data_ok_def)
  show "valid_context (event_attributes schema_sample)"
    by (simp add: valid_context_def schema_sample_def sample_event_def event_attributes_def text_attribute_def
      valid_extension_def selected_ok_def isReservedAttributeName_def reservedAttributeNames_def validAttribute_def
      char_of_eqI eval_defs)
qed

definition live_schema_context :: go_context where
  "live_schema_context = \<lparr>ctx_before = None, ctx_after = None\<rparr>"

theorem ValidateSchema_exact_witness:
  "event_wf schema_sample \<and> ValidateSchema (Some live_schema_context) schema_sample (Some accepting_validator) = Inr ()"
proof -
  have "event_wf schema_sample" using schema_sample_valid by (simp add: valid_event_def)
  then show ?thesis
    using ValidateSchema_exact [of schema_sample "Some live_schema_context" "Some accepting_validator"] schema_sample_valid
    by (simp add: accepting_validator_def live_schema_context_def nilSchemaValidator_def schema_sample_def)
qed

end
