(* ===== verification/CE_Schema_Adapters.thy ===== *)
theory CE_Schema_Adapters
  imports CE_Schema CE_Adapter
begin

text \<open>
  \<open>adapters/jsonschema\<close> and \<open>adapters/schema-registry\<close>: two schema validators. A compiled schema, the resolve
  cache and the payload decoder belong to other libraries; each is an optional function, \<open>None\<close> for a nil
  pointer. A context with a timeout is the pair of its parent and the timeout.
\<close>

section \<open>One compiled schema\<close>

type_synonym compiled_schema = "go_context \<Rightarrow> bytes option \<Rightarrow> bool result"

record jsonschema_Validator =
  jv_URI :: bytes
  jv_Schema :: "compiled_schema option"

definition jsonschema_Validate ::
    "jsonschema_Validator \<Rightarrow> go_context option \<Rightarrow> bytes \<Rightarrow> bytes \<Rightarrow> bytes option \<Rightarrow> unit result" where
  "jsonschema_Validate validator ctx uri contentType data =
     (case ctx of
        None \<Rightarrow> Inl (Sentinel ErrContextRequired)
      | Some c \<Rightarrow>
          (case jv_Schema validator of
             None \<Rightarrow> Inl (Sentinel ErrSchemaMapping)
           | Some schema \<Rightarrow>
               if jv_URI validator = '''' \<or> uri \<noteq> jv_URI validator then Inl (Sentinel ErrSchemaMapping)
               else if \<not> IsJSONContentType contentType
               then Inl (Errorf ErrSchemaMapping ''non-JSON content type'')
               else and_then (schema c data) (\<lambda>valid.
                 if \<not> valid then Inl (Sentinel ErrSchemaViolation) else Inr ())))"

definition jsonschema_validator :: "jsonschema_Validator \<Rightarrow> SchemaValidator" where
  "jsonschema_validator v = \<lparr>sv_kind = KindOther, sv_isNil = False, sv_Validate = (\<lambda>c. jsonschema_Validate v (Some c))\<rparr>"

section \<open>A schema registry\<close>

type_synonym timeout_context = "go_context \<times> int"

text \<open>Lookups, availability policies and resolved schemas are of any type, with what the adapter asks of them.\<close>

record ('l, 'a, 's) registry_library =
  rg_Kind :: "'l \<Rightarrow> bytes"
  rg_FailClosed :: 'a
  rg_AllowStale :: 'a
  rg_CacheOnly :: 'a
  rg_ReturnUnavailable :: 'a
  rg_Format :: "'s \<Rightarrow> bytes"
  rg_FormatJSONSchema :: bytes
  rg_IsPayloadInvalid :: "go_error \<Rightarrow> bool"

type_synonym ('l, 'a, 's) resolve_cache = "timeout_context \<Rightarrow> 'l \<Rightarrow> 'a \<Rightarrow> 's result"
type_synonym 's payload_decoder = "timeout_context \<Rightarrow> 's \<Rightarrow> bytes option \<Rightarrow> unit result"

record ('l, 'a, 's) JSONSchemaConfig =
  jc_Cache :: "('l, 'a, 's) resolve_cache option"
  jc_SchemaLookups :: "(bytes, 'l) gomap"
  jc_Adapter :: "'s payload_decoder option"
  jc_AvailabilityPolicy :: 'a
  jc_Timeout :: int

record ('l, 'a, 's) JSONSchemaValidator =
  jr_cache :: "('l, 'a, 's) resolve_cache option"
  jr_schemaLookups :: "(bytes, 'l) gomap"
  jr_adapter :: "'s payload_decoder option"
  jr_availabilityPolicy :: "'a option"
  jr_timeout :: int
  jr_configured :: bool

definition validAvailabilityPolicy :: "('l, 'a, 's) registry_library \<Rightarrow> 'a \<Rightarrow> bool" where
  "validAvailabilityPolicy lib policy \<longleftrightarrow>
     policy = rg_FailClosed lib \<or> policy = rg_AllowStale lib \<or> policy = rg_CacheOnly lib
     \<or> policy = rg_ReturnUnavailable lib"

definition registry_badEntry :: "('l, 'a, 's) registry_library \<Rightarrow> bytes \<times> 'l \<Rightarrow> bool" where
  "registry_badEntry lib entry \<longleftrightarrow> (case entry of (uri, lookup) \<Rightarrow> uri = '''' \<or> rg_Kind lib lookup = '''')"

definition NewJSONSchemaValidator ::
    "('l, 'a, 's) registry_library \<Rightarrow> ('l, 'a, 's) JSONSchemaConfig \<Rightarrow> ('l, 'a, 's) JSONSchemaValidator result" where
  "NewJSONSchemaValidator lib config =
     (if jc_Cache config = None \<or> length (jc_SchemaLookups config) = 0 \<or> jc_Adapter config = None
         \<or> \<not> validAvailabilityPolicy lib (jc_AvailabilityPolicy config) \<or> jc_Timeout config \<le> 0
      then Inl (Errorf ErrSchemaMapping ''validator configuration'')
      else if list_ex (registry_badEntry lib) (jc_SchemaLookups config)
      then Inl (Errorf ErrSchemaMapping ''dataschema mapping'')
      else Inr \<lparr>jr_cache = jc_Cache config, jr_schemaLookups = copy_map (jc_SchemaLookups config),
        jr_adapter = jc_Adapter config, jr_availabilityPolicy = Some (jc_AvailabilityPolicy config),
        jr_timeout = jc_Timeout config, jr_configured = True\<rparr>)"

text \<open>
  \<open>Validate\<close>. The fields of a configured validator are set, since only the constructor sets them; a call
  through a nil one would panic, which the model returns as an external error.
\<close>

definition registry_Validate ::
    "('l, 'a, 's) registry_library \<Rightarrow> ('l, 'a, 's) JSONSchemaValidator \<Rightarrow> go_context option \<Rightarrow> bytes \<Rightarrow> bytes
      \<Rightarrow> bytes option \<Rightarrow> unit result" where
  "registry_Validate lib validator ctx uri contentType data =
     (case ctx of
        None \<Rightarrow> Inl (Sentinel ErrContextRequired)
      | Some c \<Rightarrow>
          if \<not> jr_configured validator then Inl (Sentinel ErrSchemaMapping)
          else if \<not> IsJSONContentType contentType then Inl (Errorf ErrSchemaMapping ''non-JSON content type'')
          else case map_of (jr_schemaLookups validator) uri of
              None \<Rightarrow> Inl (Errorf ErrSchemaMapping ''dataschema URI'')
            | Some lookup \<Rightarrow>
                (case (jr_cache validator, jr_availabilityPolicy validator, jr_adapter validator) of
                   (Some resolve, Some policy, Some decode) \<Rightarrow>
                     let resolveCtx = (c, jr_timeout validator) in
                     and_then (resolve resolveCtx lookup policy) (\<lambda>schema.
                       if rg_Format lib schema \<noteq> rg_FormatJSONSchema lib
                       then Inl (Errorf ErrSchemaMapping ''registry format'')
                       else case decode resolveCtx schema data of
                           Inl err \<Rightarrow>
                             if rg_IsPayloadInvalid lib err then Inl (ErrorfJoin ErrSchemaViolation err) else Inl err
                         | Inr _ \<Rightarrow> Inr ())
                 | _ \<Rightarrow> Inl (External ''nil pointer'')))"

definition registry_validator ::
    "('l, 'a, 's) registry_library \<Rightarrow> ('l, 'a, 's) JSONSchemaValidator \<Rightarrow> SchemaValidator" where
  "registry_validator lib v =
     \<lparr>sv_kind = KindOther, sv_isNil = False, sv_Validate = (\<lambda>c. registry_Validate lib v (Some c))\<rparr>"

section \<open>What the validators accept\<close>

lemma jsonschema_Validate_Inr:
  "jsonschema_Validate v (Some c) uri ct data = Inr () \<longleftrightarrow>
     (\<exists>schema. jv_Schema v = Some schema \<and> uri = jv_URI v \<and> uri \<noteq> '''' \<and> IsJSONContentType ct \<and> schema c data = Inr True)"
  by (auto simp: jsonschema_Validate_def and_then_eq_Inr split: option.splits if_splits)

lemma NewJSONSchemaValidator_Inr:
  assumes "NewJSONSchemaValidator lib config = Inr v" and "wf_map (jc_SchemaLookups config)"
  obtains resolve decode where "jc_Cache config = Some resolve" "jc_Adapter config = Some decode" "0 < jc_Timeout config"
    "v = \<lparr>jr_cache = Some resolve, jr_schemaLookups = jc_SchemaLookups config, jr_adapter = Some decode,
      jr_availabilityPolicy = Some (jc_AvailabilityPolicy config), jr_timeout = jc_Timeout config, jr_configured = True\<rparr>"
  using assms by (auto simp: NewJSONSchemaValidator_def split: if_splits)

lemma registry_Validate_Inr:
  assumes "NewJSONSchemaValidator lib config = Inr v" and "wf_map (jc_SchemaLookups config)"
    and "jc_Cache config = Some resolve" "jc_Adapter config = Some decode"
  shows "registry_Validate lib v (Some c) uri ct data = Inr () \<longleftrightarrow> IsJSONContentType ct \<and>
    (\<exists>lookup schema. map_of (jc_SchemaLookups config) uri = Some lookup
      \<and> resolve (c, jc_Timeout config) lookup (jc_AvailabilityPolicy config) = Inr schema
      \<and> rg_Format lib schema = rg_FormatJSONSchema lib \<and> decode (c, jc_Timeout config) schema data = Inr ())"
proof -
  have "v = \<lparr>jr_cache = Some resolve, jr_schemaLookups = jc_SchemaLookups config, jr_adapter = Some decode,
      jr_availabilityPolicy = Some (jc_AvailabilityPolicy config), jr_timeout = jc_Timeout config, jr_configured = True\<rparr>"
    using assms(3,4) by (cases rule: NewJSONSchemaValidator_Inr [OF assms(1,2)]) simp
  moreover have "(case d of Inl err \<Rightarrow> if P err then Inl (f err) else Inl err | Inr _ \<Rightarrow> Inr ()) = Inr () \<longleftrightarrow> d = Inr ()"
    for d :: "unit result" and P f by (cases d) auto
  ultimately show ?thesis
    by (auto simp: registry_Validate_def and_then_eq_Inr Let_def split: option.splits if_splits)
qed

lemma struct_validator [simp]: "\<not> nilSchemaValidator (Some (registry_validator lib v))"
  "\<not> nilSchemaValidator (Some (jsonschema_validator w))"
  by (simp_all add: nilSchemaValidator_def registry_validator_def jsonschema_validator_def)

lemma jsonschema_composed:
  assumes "event_wf e"
  shows "ValidateSchema (Some c) e (Some (jsonschema_validator v)) = Inr () \<longleftrightarrow> ctx_before c = None \<and> valid_event e
    \<and> data_present (ev_data e) \<and> IsJSONContentType (ev_dataContentType e) \<and> ev_dataSchema e = jv_URI v \<and> jv_URI v \<noteq> ''''
    \<and> (\<exists>schema. jv_Schema v = Some schema \<and> schema c (Some (data_bytes (ev_data e))) = Inr True)"
  by (auto simp: ValidateSchema_Inr [OF assms] jsonschema_validator_def jsonschema_Validate_Inr nilSchemaValidator_def)

section \<open>Properties\<close>

text \<open>
  C32. The registry validator stays inside its allowlist. \<open>ValidateSchema\<close> with a validator that
  \<open>NewJSONSchemaValidator\<close> built accepts an event exactly when the context is live, the event is valid with data of a
  JSON content type, its schema URI is one of the configured ones, the registry resolves that URI's own lookup under
  the configured policy and timeout to a JSON schema, and the payload decodes under that schema.
\<close>

theorem registry_validation_exact:
  assumes "NewJSONSchemaValidator lib config = Inr v" and "wf_map (jc_SchemaLookups config)"
    and "jc_Cache config = Some resolve" and "jc_Adapter config = Some decode" and "event_wf e"
  shows "ValidateSchema (Some c) e (Some (registry_validator lib v)) = Inr () \<longleftrightarrow>
    ctx_before c = None \<and> valid_event e \<and> data_present (ev_data e) \<and> IsJSONContentType (ev_dataContentType e)
    \<and> ev_dataSchema e \<noteq> '''' \<and> (\<exists>lookup schema. map_of (jc_SchemaLookups config) (ev_dataSchema e) = Some lookup
      \<and> resolve (c, jc_Timeout config) lookup (jc_AvailabilityPolicy config) = Inr schema
      \<and> rg_Format lib schema = rg_FormatJSONSchema lib
      \<and> decode (c, jc_Timeout config) schema (Some (data_bytes (ev_data e))) = Inr ())"
proof -
  have "sv_Validate (registry_validator lib v) = (\<lambda>c. registry_Validate lib v (Some c))"
    by (simp add: registry_validator_def)
  then show ?thesis
    by (auto simp: ValidateSchema_Inr [OF assms(5)] registry_Validate_Inr [OF assms(1-4)])
qed

definition registry_sample :: "(bytes, nat, bytes) registry_library" where
  "registry_sample = \<lparr>rg_Kind = (\<lambda>l. l), rg_FailClosed = 0, rg_AllowStale = 1, rg_CacheOnly = 2, rg_ReturnUnavailable = 3,
     rg_Format = (\<lambda>s. s), rg_FormatJSONSchema = ''JSON'', rg_IsPayloadInvalid = (\<lambda>_. False)\<rparr>"

definition registry_config_sample :: "(bytes, nat, bytes) JSONSchemaConfig" where
  "registry_config_sample = \<lparr>jc_Cache = Some (\<lambda>_ lookup policy. Inr ''JSON''),
     jc_SchemaLookups = [(''urn:x'', ''subject'')], jc_Adapter = Some (\<lambda>_ schema data. Inr ()),
     jc_AvailabilityPolicy = 0, jc_Timeout = 1\<rparr>"

theorem registry_validation_exact_witness:
  "\<exists>v. NewJSONSchemaValidator registry_sample registry_config_sample = Inr v
    \<and> ValidateSchema (Some live_schema_context) schema_sample (Some (registry_validator registry_sample v)) = Inr ()"
proof -
  obtain v where v: "NewJSONSchemaValidator registry_sample registry_config_sample = Inr v"
    by (simp add: NewJSONSchemaValidator_def registry_config_sample_def registry_sample_def validAvailabilityPolicy_def
        registry_badEntry_def)
  have w: "wf_map (jc_SchemaLookups registry_config_sample)" "event_wf schema_sample"
    using schema_sample_valid by (simp_all add: registry_config_sample_def wf_map_def valid_event_def)
  have "IsJSONContentType (ev_dataContentType schema_sample)" by (simp add: schema_sample_def eval_defs)
  then have "ValidateSchema (Some live_schema_context) schema_sample (Some (registry_validator registry_sample v)) = Inr ()"
    using registry_validation_exact [OF v w(1) _ _ w(2), of "\<lambda>_ lookup policy. Inr ''JSON''" "\<lambda>_ schema data. Inr ()"
        live_schema_context] schema_sample_valid
    by (simp add: registry_config_sample_def registry_sample_def live_schema_context_def)
      (simp add: schema_sample_def)
  then show ?thesis using v by blast
qed

end
