(* ===== verification/CE_Boundaries.thy ===== *)
theory CE_Boundaries
  imports CE_Transports
begin

text \<open>
  Where the round trips end: valid events that the strict encoders accept and that the decoders do not give
  back. The hypotheses \<open>json_lossless\<close> and \<open>binary_lossless\<close> of the round trips exclude them; the lemmas here
  show the components that disagree.
\<close>

text \<open>
  \<open>NewEvent\<close> and \<open>Validate\<close> set no bound on the year of the time, so the strict encoders accept an event of the
  year 10000, whose time text no decoder accepts.
\<close>

lemma year_not_decoded:
  "valid_event (sample_event\<lparr>ev_hasTime := True, ev_time := year_10000\<rparr>)
   \<and> (\<exists>err. decodeTimeText (time_format (time_utc year_10000)) True = Inl err)"
proof
  have "time_utc year_10000 = year_10000" "nsec year_10000 < 10 ^ 9" by (simp_all add: year_10000_def time_utc_def)
  then show "valid_event (sample_event\<lparr>ev_hasTime := True, ev_time := year_10000\<rparr>)"
    using sample_event_valid by (auto simp: valid_event_def event_wf_def event_attributes_def valid_context_def)
  show "\<exists>err. decodeTimeText (time_format (time_utc year_10000)) True = Inl err"
    using time_parse_format_utc [of year_10000] year_10000_outside by (simp add: decodeTimeText_def) (simp add: year_10000_def)
qed

text \<open>
  The report of the binary mode takes text data for compatible with a content type that is both text and JSON; the
  decoders ask for JSON first and then refuse the payload or change its kind.
\<close>

lemma text_json_kind_changes:
  "dataKindMatchesContentType DataText ''text/x+json'' \<and> (\<exists>err. decodeBinaryData ''text/x+json'' ''hi'' = Inl err)"
proof -
  have "\<not> json_valid ''hi''" by (simp add: json_valid_def eval_defs)
  moreover have "isJSONMediaType ''text/x+json''" "isTextMediaType ''text/x+json''" by (simp_all add: eval_defs)
  ultimately show ?thesis by (simp add: dataKindMatchesContentType_def decodeBinaryData_def NewJSONData_def)
qed

text \<open>
  In binary mode the content type of the data is the content type of the message. An event whose data is itself a
  JSON event is encoded strictly, and the record is then read in structured mode.
\<close>

lemma structured_content_type_in_binary_mode:
  assumes "valid_event e" "binaryConversionReport e = []" "ev_dataContentType e = JSONMediaType"
  shows "\<exists>rec. EncodeKafka e BinaryMode key = Inr rec \<and> kafka_header ''content-type'' JSONMediaType \<in> set (kr_Headers rec)"
    "detectKafkaMode [Some JSONMediaType] = Inr (StructuredMode, JSONMediaType)"
proof -
  have "JSONMediaType \<noteq> ''''" by (simp add: JSONMediaType_def)
  then show "\<exists>rec. EncodeKafka e BinaryMode key = Inr rec \<and> kafka_header ''content-type'' JSONMediaType \<in> set (kr_Headers rec)"
    using assms by (simp add: EncodeKafka_def EncodeKafkaWithReport_def rejectConversionLoss_def encodeKafkaBinaryHeaders_def)
  show "detectKafkaMode [Some JSONMediaType] = Inr (StructuredMode, JSONMediaType)"
    by (simp add: detectKafkaMode_def slice_bytes_def JSONMediaType_parsed) (simp add: JSONMediaType_def valid_utf8_is_ascii)
qed

text \<open>
  An HTTP message in binary mode has no sign for absent data but the absence of both body and content type: an event
  without data that names a content type is encoded strictly and decoded with data.
\<close>

lemma absent_data_gains_content:
  assumes "valid_event e" "\<not> data_present (ev_data e)" "ev_dataContentType e = ''text/plain''"
  shows "\<exists>header. encodeHTTPBinary e = Inr (header, None) \<and> (\<exists>d. decodeHTTPData ''text/plain'' [] = Inr d \<and> data_present d)"
proof -
  have "\<not> isJSONMediaType ''text/plain''" "isTextMediaType ''text/plain''" by (simp_all add: eval_defs)
  then show ?thesis using assms by (simp add: encodeHTTPBinary_def Let_def decodeHTTPData_def NewTextData_def decodeBinaryData_def)
qed

text \<open>
  A schema URI is not held to the rules of strings, so it need not be UTF-8; the JSON encoder replaces such bytes.
\<close>

lemma schema_uri_not_utf8: "validAbsoluteURI (''urn:'' @ [CHR 0xFF]) \<and> \<not> valid_utf8 (''urn:'' @ [CHR 0xFF])"
  by (simp add: eval_defs)

end
