(* ===== verification/CE_Compositions.thy ===== *)
theory CE_Compositions
  imports CE_Roundtrips CE_Histories
begin

text \<open>
  Adapters composed with wire formats: an event that an adapter built is sent through a binding, and the adapter
  reads the received event with the retained state. A binding gives back the same event with its extensions in
  another order, so an adapter has to give the same result for both.
\<close>

section \<open>Same events look the same to an adapter\<close>

lemma same_event_fields:
  assumes "same_event e f"
  shows "Event_ID f = Event_ID e" "Event_Source f = Event_Source e" "Event_Type f = Event_Type e"
    "Event_DataContentType f = Event_DataContentType e" "Event_DataSchema f = Event_DataSchema e"
    "Event_Subject f = Event_Subject e" "Event_Time f = Event_Time e" "Event_Data f = Event_Data e"
    "map_of (ev_extensions f) = map_of (ev_extensions e)" "ev_id f = ev_id e" "ev_type f = ev_type e"
  using assms
  by (cases e; cases f; simp add: same_event_def same_map_def Event_ID_def Event_Source_def Event_Type_def
      Event_DataContentType_def Event_DataSchema_def Event_Subject_def Event_Time_def Event_Data_def)+

lemma same_event_strings:
  assumes "same_event e f"
  shows "StringExtension f n = StringExtension e n" "MappedString f n r t = MappedString e n r t"
    "es_version f = es_version e" "contextPresent f n = contextPresent e n" "targetDataKind f b = targetDataKind e b"
  using same_event_fields [OF assms]
  by (simp_all add: StringExtension_def MappedString_def es_version_def Event_Extension_def contextPresent_def
      targetDataKind_def)

lemma same_event_losses:
  assumes "same_event e f" "valid_event e" "valid_event f"
  shows "AppendExtensionLosses f rep target sel = AppendExtensionLosses e rep target sel"
    "AppendOptionalContextLosses f rep target = AppendOptionalContextLosses e rep target"
    "AppendDataKindLoss f rep target b = AppendDataKindLoss e rep target b"
proof -
  have w: "wf_map (ev_extensions e)" "wf_map (ev_extensions f)" using assms(2,3) by (simp_all add: valid_eventD(5))
  then have "mset (ev_extensions f) = mset (ev_extensions e)"
    using same_map_mset_eq same_map_sym assms(1) unfolding same_event_def by metis
  then have "mset (keys (ev_extensions f)) = mset (keys (ev_extensions e))" by (metis mset_map)
  then have "mset (filter P (keys (ev_extensions f))) = mset (filter P (keys (ev_extensions e)))" for P
    by (metis mset_filter)
  from sort_mset_cong [OF this] show "AppendExtensionLosses f rep target sel = AppendExtensionLosses e rep target sel"
    using w by (simp add: AppendExtensionLosses_def Event_Extensions_def)
  show "AppendOptionalContextLosses f rep target = AppendOptionalContextLosses e rep target"
    by (simp add: AppendOptionalContextLosses_def same_event_strings [OF assms(1)])
  show "AppendDataKindLoss f rep target b = AppendDataKindLoss e rep target b"
    by (simp add: AppendDataKindLoss_def same_event_strings [OF assms(1)] same_event_fields [OF assms(1)])
qed

text \<open>A stored adapter: what it reads depends on the event alone, and not on the order of its extensions.\<close>

locale stored_adapter = reversible_adapter +
  assumes respects_same: "valid_event e \<Longrightarrow> valid_event f \<Longrightarrow> same_event e f \<Longrightarrow> from_event f s = from_event e s"
begin

lemma survives:
  assumes "fits m opts" "to_event m opts = Inr (e, s, losses)" "same_event e f" "valid_event f"
  shows "from_event f s = restored m e s"
  using respects_same [OF _ assms(4,3)] reverses [OF assms(1,2)] by simp

end

interpretation outbox: stored_adapter outbox_ToCloudEvent outbox_FromCloudEvent outbox_fits
    "\<lambda>envelope e _. Inr (envelope, outbox_losses e)"
proof unfold_locales
  fix e f and s :: "'a outbox_Envelope" assume v: "valid_event e" "valid_event f" and s: "same_event e f"
  show "outbox_FromCloudEvent f s = outbox_FromCloudEvent e s"
    using v by (simp add: outbox_FromCloudEvent_def outbox_losses_def same_event_fields [OF s] same_event_losses [OF s v])
qed

interpretation queue: stored_adapter "queue_ToCloudEvent parse validate"
    "queue_FromCloudEvent parse (zero_queue_metadata x)" queue_fits
    "\<lambda>message e _. Inr (queue_restored (zero_queue_metadata x) message e, queue_losses e)" for parse validate x
proof unfold_locales
  fix e f and s :: "('a, 'b) queue_Message" assume v: "valid_event e" "valid_event f" and s: "same_event e f"
  have "queue_verifyMapping parse f = queue_verifyMapping parse e"
    by (intro ext) (simp add: queue_verifyMapping_def same_event_strings [OF s])
  then have q: "queue_verifyExtensions parse f = queue_verifyExtensions parse e"
    by (intro ext) (simp add: queue_verifyExtensions_def)
  show "queue_FromCloudEvent parse (zero_queue_metadata x) f s = queue_FromCloudEvent parse (zero_queue_metadata x) e s"
    unfolding queue_FromCloudEvent_def queue_losses_def q same_event_fields [OF s] same_event_losses [OF s v] using v by simp
qed

interpretation event_sourcing: stored_adapter "es_ToCloudEvent parse" "es_FromCloudEvent parse lib"
    "es_fits parse lib"
    "\<lambda>message e state. and_then (es_rebuild lib message (parsed_tenant parse message)) (\<lambda>m. Inr (m, es_losses e))" for parse lib
proof unfold_locales
  fix e f s assume v: "valid_event e" "valid_event f" and s: "same_event e f"
  show "es_FromCloudEvent parse lib f s = es_FromCloudEvent parse lib e s"
    unfolding es_FromCloudEvent_def es_losses_def same_event_fields [OF s] same_event_strings [OF s]
      same_event_losses [OF s v] using v by simp
qed

interpretation workflow: stored_adapter wf_ToCloudEvent "wf_FromCloudEvent new_history" wf_fits
    "\<lambda>history e state. and_then (new_history (history\<lparr>wh_OccurredAt := time_utc (wh_OccurredAt history)\<rparr>))
       (\<lambda>h. Inr (h, [Loss ''source'' ''not represented by workflow history'']))" for new_history
proof unfold_locales
  fix e f and s :: "'a wf_State" assume v: "valid_event e" "valid_event f" and s: "same_event e f"
  show "wf_FromCloudEvent new_history f s = wf_FromCloudEvent new_history e s"
    unfolding wf_FromCloudEvent_def wf_losses_def same_event_fields [OF s] same_event_losses [OF s v] ..
qed

section \<open>Received events are valid\<close>

lemma kafka_received:
  assumes "kafka_fits l key e"
  obtains rec f where "EncodeKafka e BinaryMode key = Inr rec"
    "DecodeKafka rec l = Inr \<lparr>km_Mode = BinaryMode, km_Event = f, km_Key = key, km_TransportHeaders = []\<rparr>"
    "same_event e f" "valid_event f"
proof -
  obtain rec f where r: "EncodeKafka e BinaryMode key = Inr rec"
    "DecodeKafka rec l = Inr \<lparr>km_Mode = BinaryMode, km_Event = f, km_Key = key, km_TransportHeaders = []\<rparr>" "same_event e f"
    by (rule kafka_binary_roundtrip [OF assms])
  have "admitted l f" using yields_Inr [OF DecodeKafka_yields r(2)] by simp
  then show thesis using that r by (simp add: admitted_def)
qed

section \<open>Concrete messages\<close>

definition wire_event :: "bytes \<Rightarrow> (bytes, Attribute) gomap \<Rightarrow> Event" where
  "wire_event subject extensions = json_sample\<lparr>ev_subject := subject, ev_extensions := extensions\<rparr>"

definition plain_wire :: Event where
  "plain_wire = wire_event ''p'' []"

definition store_wire :: Event where
  "store_wire = wire_event ''YQ.Yg'' [(''eventschema'', text_attribute ''1''), (''correlationid'', text_attribute ''c''),
     (''tenantid'', text_attribute ''acme'')]"

lemmas wire_defs = plain_wire_def store_wire_def wire_event_def json_sample_def

lemma plain_wire_valid: "valid_event plain_wire"
  unfolding valid_event_def
proof
  show "event_wf plain_wire"
    by (simp add: event_wf_def wire_defs data_ok_def json_valid_def parse_json_empty_object)
  show "valid_context (event_attributes plain_wire)"
    by (simp add: valid_context_def wire_defs event_attributes_def selected_ok_def eval_defs)
qed

lemma plain_wire_fits: "kafka_fits DefaultLimits None plain_wire"
proof -
  have "binaryConversionReport plain_wire = []"
    unfolding binaryConversionReport_Nil by (simp add: wire_defs eval_defs)
  moreover have "\<not> has_prefix (to_lower (fst (parse_media_type (ev_dataContentType plain_wire)))) ''application/cloudevents''"
    by (simp add: wire_defs eval_defs)
  ultimately have l: "binary_lossless plain_wire"
    by (simp add: binary_lossless_def plain_wire_valid) (simp add: wire_defs valid_utf8_is_ascii)
  have c: "contextEntries plain_wire =
      [(''specversion'', ''1.0''), (''id'', ''1''), (''source'', ''/s''), (''type'', ''t''), (''subject'', ''p'')]"
    by (simp add: wire_defs contextEntries_def optional_entry_def Event_SpecVersion_def specVersion_def)
  have d: "ev_dataContentType plain_wire = ''application/json''" by (simp add: wire_defs)
  have "list_all (header_admitted DefaultLimits) (encodeKafkaBinaryHeaders plain_wire)"
    unfolding encodeKafkaBinaryHeaders_def list_all_iff set_sort c d
    by (simp add: header_admitted_def kafka_header_def valid_utf8_is_ascii slice_bytes_def)
  moreover have "length (encodeKafkaBinaryHeaders plain_wire) = 6"
    unfolding encodeKafkaBinaryHeaders_def length_sort c d by simp
  moreover have "binary_within DefaultLimits plain_wire"
    by (simp add: binary_within_def c) (simp add: wire_defs)
  ultimately show ?thesis using l by (simp add: kafka_fits_def slice_bytes_def)
qed

lemma json_payload: "DataFromPayload ''application/json'' (Some ''{}'') = Inr (ev_data json_sample)"
proof -
  have "snd (parse_media_type ''application/json'')" "jsonMedia (fst (parse_media_type ''application/json''))"
    by (simp_all add: eval_defs)
  then show ?thesis
    by (simp add: DataFromPayload_def slice_bytes_def NewJSONData_def json_valid_def parse_json_empty_object json_sample_def
        case_prod_beta Let_def)
qed

lemma json_sample_data_ok [simp]: "data_ok (ev_data json_sample)"
  by (simp add: json_sample_def data_ok_def json_valid_def parse_json_empty_object)

definition wire_envelope :: "unit outbox_Envelope" where
  "wire_envelope = envelope_sample\<lparr>oe_Payload := Some ''{}''\<rparr>"

definition wire_options :: outbox_Options where
  "wire_options = outbox_options_sample\<lparr>oo_DataContentType := ''application/json'', oo_Subject := ''p''\<rparr>"

lemma wire_envelope_event: "outbox_ToCloudEvent wire_envelope wire_options = Inr (plain_wire, wire_envelope, [])"
proof -
  let ?a = "\<lparr>a_ID = ''1'', a_Source = ''/s'', a_Type = ''t'', a_DataContentType = ''application/json'', a_DataSchema = '''',
    a_Subject = ''p'', a_Time = None, a_Extensions = []\<rparr>"
  have w: "attributes_wf ?a" by (simp add: attributes_wf_def)
  have "event_attributes plain_wire = ?a" by (simp add: event_attributes_def wire_defs)
  then have "valid_context ?a" using plain_wire_valid by (simp add: valid_event_def)
  then have "NewEvent ?a (ev_data json_sample) = Inr plain_wire"
    unfolding NewEvent_Inr [OF w json_sample_data_ok] by (simp add: wire_defs)
  then show ?thesis
    by (simp add: outbox_ToCloudEvent_def wire_envelope_def wire_options_def envelope_sample_def outbox_options_sample_def
        json_payload outbox_cloneEnvelope_def CloneStrings_def copy_map_def)
qed

lemma store_wire_valid: "valid_event store_wire"
  unfolding valid_event_def
proof
  show "event_wf store_wire"
    by (simp add: event_wf_def wire_defs data_ok_def json_valid_def parse_json_empty_object plain_map_def wf_map_def
        plain_bytes_def text_attribute_def)
  show "valid_context (event_attributes store_wire)"
    by (simp add: valid_context_def wire_defs event_attributes_def text_attribute_def valid_extension_def selected_ok_def
        isReservedAttributeName_def reservedAttributeNames_def validAttribute_def eval_defs)
qed

lemma store_wire_fits: "json_lossless store_wire" "json_within DefaultLimits store_wire"
proof -
  have "jsonConversionReport store_wire = []"
    unfolding jsonConversionReport_Nil by (simp add: wire_defs text_attribute_def eval_defs)
  then show "json_lossless store_wire"
    by (simp add: json_lossless_def store_wire_valid) (simp add: wire_defs valid_utf8_is_ascii)
  have "data_depth store_wire = 1" by (simp add: data_depth_def wire_defs tree_of_def parse_json_empty_object)
  moreover have "length (encodeJSON store_wire) \<le> 300" by (simp add: wire_defs text_attribute_def eval_defs)
  moreover have "countJSONAttributes (jsonMembers store_wire) = 9"
    by (simp add: wire_defs text_attribute_def countJSONAttributes_filter jsonMembers_def standardMembers_def
        stringMemberText_def extensionMember_def dataMember_def)
  ultimately show "json_within DefaultLimits store_wire"
    by (simp add: json_within_def) (simp add: wire_defs text_attribute_def max_nesting_def specVersion_def)
qed

definition wire_message :: es_Message where
  "wire_message = es_sample_message\<lparr>em_Event :=
     \<lparr>ee_Name = ''t'', ee_Version = 1, ee_ContentType = ''application/json'', ee_Payload = Some ''{}''\<rparr>\<rparr>"

lemma wire_message_event:
  "es_ToCloudEvent nonempty_tenant wire_message es_sample_options = Inr (store_wire, es_state wire_message (Some ''acme''), [])"
proof -
  let ?a = "\<lparr>a_ID = ''1'', a_Source = ''/s'', a_Type = ''t'', a_DataContentType = ''application/json'', a_DataSchema = '''',
    a_Subject = encodeStreamSubject stream_sample, a_Time = None, a_Extensions = es_extensions wire_message (Some ''acme'')\<rparr>"
  have f: "format_nat (Suc 0) = ''1''" by (subst format_nat.simps) (simp add: digit_char_def char_of_eqI)
  have "validCloudString ''1''" "validCloudString ''c''" "validCloudString ''acme''" by (simp_all add: eval_defs)
  then have x: "es_extensions wire_message (Some ''acme'') =
      [(''eventschema'', text_attribute ''1''), (''correlationid'', text_attribute ''c''), (''tenantid'', text_attribute ''acme'')]"
    by (simp add: es_extensions_def wire_message_def es_sample_message_def put_present_def string_attribute_or_zero_def f
        NewStringAttribute_def extension_names text_attribute_def)
  have y: "encodeStreamSubject stream_sample = ''YQ.Yg''"
    by (simp add: encodeStreamSubject_def stream_sample_def eval_defs char_of_eqI)
  have w: "attributes_wf ?a" by (simp add: attributes_wf_def)
  have "event_attributes store_wire = ?a" unfolding x y by (simp add: event_attributes_def wire_defs)
  then have "valid_context ?a" using store_wire_valid by (simp add: valid_event_def)
  then have "NewEvent ?a (ev_data json_sample) = Inr store_wire"
    unfolding NewEvent_Inr [OF w json_sample_data_ok] unfolding x y by (simp add: wire_defs)
  moreover have "es_tenant nonempty_tenant wire_message = Inr (Some ''acme'')"
    by (simp add: es_tenant_def validatedTenant_def nonempty_tenant_def wire_message_def es_sample_message_def)
  ultimately show ?thesis
    by (simp add: es_ToCloudEvent_def es_sample_options_def Let_def)
      (simp add: wire_message_def es_sample_message_def json_payload)
qed

definition queue_wire :: Event where
  "queue_wire = wire_event '''' [(''tenantid'', text_attribute ''acme'')]"

lemma queue_wire_valid: "valid_event queue_wire"
  unfolding valid_event_def
proof
  show "event_wf queue_wire"
    by (simp add: event_wf_def queue_wire_def wire_defs data_ok_def json_valid_def parse_json_empty_object plain_map_def
        wf_map_def plain_bytes_def text_attribute_def)
  show "valid_context (event_attributes queue_wire)"
    by (simp add: valid_context_def queue_wire_def wire_defs event_attributes_def text_attribute_def valid_extension_def
        selected_ok_def isReservedAttributeName_def reservedAttributeNames_def validAttribute_def eval_defs)
qed

lemma queue_wire_fits: "structured_http_fits DefaultLimits queue_wire"
proof -
  have "jsonConversionReport queue_wire = []"
    unfolding jsonConversionReport_Nil by (simp add: queue_wire_def wire_defs text_attribute_def eval_defs)
  then have l: "json_lossless queue_wire"
    by (simp add: json_lossless_def queue_wire_valid) (simp add: queue_wire_def wire_defs valid_utf8_is_ascii)
  have "data_depth queue_wire = 1" by (simp add: data_depth_def queue_wire_def wire_defs tree_of_def parse_json_empty_object)
  moreover have "length (encodeJSON queue_wire) \<le> 300" by (simp add: queue_wire_def wire_defs text_attribute_def eval_defs)
  moreover have "countJSONAttributes (jsonMembers queue_wire) = 6"
    by (simp add: queue_wire_def wire_defs text_attribute_def countJSONAttributes_filter jsonMembers_def standardMembers_def
        stringMemberText_def extensionMember_def dataMember_def)
  ultimately have "json_within DefaultLimits queue_wire"
    by (simp add: json_within_def) (simp add: queue_wire_def wire_defs text_attribute_def max_nesting_def specVersion_def)
  then show ?thesis using l by (simp add: structured_http_fits_def maxInt64_def)
qed

definition wire_job :: "(unit, unit) queue_Message" where
  "wire_job = \<lparr>qj_Body = Some ''{}'', qj_Metadata = Some ((zero_queue_metadata ())\<lparr>qm_ContentType := ''application/json'',
     qm_TenantID := ''acme''\<rparr>), qj_other = ()\<rparr>"

definition wire_job_options :: queue_Options where
  "wire_job_options = \<lparr>qo_Source = ''/s'', qo_StableID = ''1'', qo_Type = ''t'', qo_OccurredAt = None\<rparr>"

lemma wire_job_event:
  "queue_ToCloudEvent Inr (\<lambda>_. Inr ()) wire_job wire_job_options = Inr (queue_wire, wire_job, [])"
proof -
  let ?a = "\<lparr>a_ID = ''1'', a_Source = ''/s'', a_Type = ''t'', a_DataContentType = ''application/json'', a_DataSchema = '''',
    a_Subject = '''', a_Time = None, a_Extensions = [(''tenantid'', text_attribute ''acme'')]\<rparr>"
  have w: "attributes_wf ?a" by (simp add: attributes_wf_def plain_map_def wf_map_def plain_bytes_def text_attribute_def)
  have "event_attributes queue_wire = ?a" by (simp add: event_attributes_def queue_wire_def wire_defs)
  then have "valid_context ?a" using queue_wire_valid by (simp add: valid_event_def)
  then have "NewEvent ?a (ev_data json_sample) = Inr queue_wire"
    unfolding NewEvent_Inr [OF w json_sample_data_ok] by (simp add: queue_wire_def wire_defs)
  moreover have "queueExtensions Inr (qj_Metadata wire_job) = Inr [(''tenantid'', text_attribute ''acme'')]"
  proof -
    have "validCloudString ''acme''" by (simp add: eval_defs)
    then show ?thesis
      by (simp add: queueExtensions_def wire_job_def zero_queue_metadata_def validatedTenant_def queue_mappings_def
          map_value_def queue_addMapping_def NewStringAttribute_def text_attribute_def TenantIDExtension_def)
  qed
  ultimately show ?thesis
    by (simp add: queue_ToCloudEvent_def wire_job_def zero_queue_metadata_def wire_job_options_def json_payload
        queue_cloneJob_def CloneStrings_def validatedTenant_def queue_identity_def)
qed

section \<open>Properties\<close>

text \<open>
  C23. An outbox envelope survives Kafka. When the event of an envelope fits the binary Kafka mode, the record decodes
  with its key to an event from which \<open>FromCloudEvent\<close> and the retained state give back exactly that envelope, with the
  losses of the event that was sent.
\<close>

theorem outbox_through_kafka:
  assumes "outbox_ToCloudEvent envelope options = Inr (e, state, report)" and "outbox_fits envelope options"
    and "kafka_fits l key e"
  shows "\<exists>rec m. EncodeKafka e BinaryMode key = Inr rec \<and> DecodeKafka rec l = Inr m \<and> km_Key m = key
    \<and> outbox_FromCloudEvent (km_Event m) state = Inr (envelope, outbox_losses e)"
proof -
  obtain rec f where r: "EncodeKafka e BinaryMode key = Inr rec"
    "DecodeKafka rec l = Inr \<lparr>km_Mode = BinaryMode, km_Event = f, km_Key = key, km_TransportHeaders = []\<rparr>"
    "same_event e f" "valid_event f"
    by (rule kafka_received [OF assms(3)])
  have "outbox_FromCloudEvent f state = Inr (envelope, outbox_losses e)"
    by (rule outbox.survives [OF assms(2,1) r(3,4)])
  then show ?thesis using r(1,2) by simp
qed

theorem outbox_through_kafka_witness:
  "\<exists>rec m. EncodeKafka plain_wire BinaryMode None = Inr rec \<and> DecodeKafka rec DefaultLimits = Inr m
    \<and> outbox_FromCloudEvent (km_Event m) wire_envelope = Inr (wire_envelope, outbox_losses plain_wire)"
proof -
  have "outbox_fits wire_envelope wire_options"
    by (simp add: outbox_fits_def outbox_state_ok_def wire_envelope_def wire_options_def envelope_sample_def
        outbox_options_sample_def wf_map_def)
  from outbox_through_kafka [OF wire_envelope_event this plain_wire_fits] show ?thesis by blast
qed

text \<open>
  C24. An event-store message survives JSON. When the event of a message is lossless in JSON and fits the limits, its
  text decodes to an event from which \<open>FromCloudEvent\<close> and the retained state rebuild that message, with its tenant
  as the tenant parser reads it.
\<close>

theorem es_through_json:
  assumes "es_ToCloudEvent parse message options = Inr (e, state, report)" and "es_fits parse lib message options"
    and "json_lossless e" and "json_within l e"
  shows "\<exists>w f tenant. EncodeJSON e = Inr w \<and> DecodeJSON w l = Inr f
    \<and> (case em_Tenant message of None \<Rightarrow> tenant = '''' | Some v \<Rightarrow> parse v = Inr tenant)
    \<and> es_FromCloudEvent parse lib f state =
      and_then (es_rebuild lib message tenant) (\<lambda>m. Inr (m, es_losses e))"
proof -
  note s = same_sorted_event [OF json_losslessD(1) [OF assms(3)]]
  have "es_FromCloudEvent parse lib (sorted_event e) state =
      and_then (es_rebuild lib message (parsed_tenant parse message)) (\<lambda>m. Inr (m, es_losses e))"
    by (rule event_sourcing.survives [OF assms(2,1) s])
  then show ?thesis
    using EncodeJSON_lossless(2) [OF assms(3)] DecodeJSON_encodeJSON [OF assms(3,4)] es_tenant_accepted [OF assms(1,2)]
    by blast
qed

theorem es_through_json_witness:
  "\<exists>w f m. EncodeJSON store_wire = Inr w \<and> DecodeJSON w DefaultLimits = Inr f
    \<and> es_FromCloudEvent nonempty_tenant es_sample_lib f (es_state wire_message (Some ''acme'')) = Inr (m, es_losses store_wire)
    \<and> pi_Tenant (fst m) = ''acme'' \<and> pi_ID (fst m) = ''1''"
proof -
  have "es_fits nonempty_tenant es_sample_lib wire_message es_sample_options"
    by (simp add: es_fits_def es_message_ok_def wire_message_def es_sample_message_def time_is_zero_def es_sample_lib_def
        stream_sample_def es_sample_options_def canonical_nonempty_tenant)
  moreover have n: "em_Tenant wire_message = Some ''acme''" "em_ID wire_message = ''1''"
    by (simp_all add: wire_message_def es_sample_message_def)
  ultimately obtain w f tenant where "EncodeJSON store_wire = Inr w" "DecodeJSON w DefaultLimits = Inr f"
    "nonempty_tenant ''acme'' = Inr tenant"
    "es_FromCloudEvent nonempty_tenant es_sample_lib f (es_state wire_message (Some ''acme''))
      = and_then (es_rebuild es_sample_lib wire_message tenant) (\<lambda>m. Inr (m, es_losses store_wire))"
    using es_through_json [OF wire_message_event _ store_wire_fits, of es_sample_lib, unfolded n option.case] by blast
  then show ?thesis
    using n by (simp add: es_rebuild_def nonempty_tenant_def) (simp add: es_sample_lib_def, simp add: es_pending_def)
qed

text \<open>
  C22. A queue job survives HTTP. When the event of a message is lossless in JSON and fits the limits, the structured
  request decodes to one event from which \<open>FromCloudEvent\<close> and the retained message give back that message, with the
  identity and the type of the event filled in.
\<close>

theorem queue_through_http:
  assumes "queue_ToCloudEvent parse validate message options = Inr (e, state, report)" and "queue_fits message options"
    and "structured_http_fits l e"
  shows "\<exists>header body m f. EncodeHTTP [e] StructuredMode = Inr (header, body)
    \<and> DecodeHTTP (Some live_context) header (body_reader body) l = Inr m \<and> hm_Events m = [f]
    \<and> queue_FromCloudEvent parse (zero_queue_metadata x) f state
        = Inr (queue_restored (zero_queue_metadata x) message e, queue_losses e)"
proof -
  have "valid_event e" using assms(3) by (simp add: structured_http_fits_def json_losslessD(1))
  note s = same_sorted_event [OF this]
  have "queue_FromCloudEvent parse (zero_queue_metadata x) (sorted_event e) state
      = Inr (queue_restored (zero_queue_metadata x) message e, queue_losses e)"
    by (rule queue.survives [OF assms(2,1) s])
  then show ?thesis using http_structured_roundtrip [OF assms(3)] by auto
qed

theorem queue_through_http_witness:
  "\<exists>header body m f out. EncodeHTTP [queue_wire] StructuredMode = Inr (header, body)
    \<and> DecodeHTTP (Some live_context) header (body_reader body) DefaultLimits = Inr m \<and> hm_Events m = [f]
    \<and> queue_FromCloudEvent Inr (zero_queue_metadata ()) f wire_job = Inr (out, queue_losses queue_wire)
    \<and> qj_Body out = Some ''{}''
    \<and> qj_Metadata out = Some ((zero_queue_metadata ())\<lparr>qm_OriginalID := ''1'', qm_JobType := ''t'',
        qm_ContentType := ''application/json'', qm_TenantID := ''acme''\<rparr>)"
proof -
  have "queue_fits wire_job wire_job_options"
    by (simp add: queue_fits_def queue_compatible_def queue_maps_wf_def wire_job_def wire_job_options_def
        zero_queue_metadata_def)
  moreover have "qj_Body (queue_restored (zero_queue_metadata ()) wire_job queue_wire) = Some ''{}''"
    "qj_Metadata (queue_restored (zero_queue_metadata ()) wire_job queue_wire)
      = Some ((zero_queue_metadata ())\<lparr>qm_OriginalID := ''1'', qm_JobType := ''t'',
          qm_ContentType := ''application/json'', qm_TenantID := ''acme''\<rparr>)"
    by (simp_all add: queue_restored_def wire_job_def queue_wire_def wire_defs zero_queue_metadata_def)
  ultimately show ?thesis using queue_through_http [OF wire_job_event _ queue_wire_fits, of "()"] by blast
qed

end
