(* ===== verification/Spec2Isabelle.thy ===== *)
theory Spec2Isabelle
  imports CE_Transports CE_Metadata CE_Schema_Adapters CE_Boundaries CE_Compositions
begin

text \<open>
  A verification of the CloudEvents library: the core package (the Go files at the top of \<open>src/\<close>), the code the
  adapters share (\<open>internal/adapter\<close>) and the twelve adapters under \<open>adapters/\<close>.

  \<^bold>\<open>The program.\<close> An \<open>Event\<close> is an immutable value: context attributes, extensions and data, built by \<open>NewEvent\<close>
  and checked by \<open>Validate\<close>. Three wire formats carry events: JSON (\<open>json.go\<close>), Kafka records (\<open>kafka.go\<close>) and HTTP
  messages (\<open>http.go\<close>), the last two in binary and structured mode, JSON and HTTP also in batches. Each has a
  reporting encoder that returns the losses of the conversion (\<open>conversion.go\<close>), a strict encoder that refuses to
  lose anything, and a decoder that holds untrusted input to \<open>Limits\<close>. The adapters map messages of other libraries
  to events and retained state and back, or put their metadata into extensions, through the shared helpers.
  \<open>ValidateSchema\<close> calls a validator that the caller supplies; two adapters implement one.

  \<^bold>\<open>The language and its library.\<close> A Go string or byte slice is a list of characters, one for each byte
  (\<^typ>\<open>string\<close>, named \<open>bytes\<close>); a slice or pointer whose nil matters is an option. A Go map is an association list
  without repeated keys (\<open>gomap\<close>, \<open>wf_map\<close>): ranging over it takes the list's order, and the results that the order
  does not matter are stated for every permutation. An error is a value of \<^typ>\<open>go_error\<close> in the left of a sum;
  \<open>and_then\<close> is the early return. Integers that the code only compares are \<^typ>\<open>int\<close> and \<^typ>\<open>nat\<close>; the product in
  \<open>exceedsHTTPEncodedAttributeLimit\<close>, which can overflow, is at 64 bits.
    \<^item> \<open>Prelude\<close>: results and their folds, association lists, sorting, the codec locales.
    \<^item> \<open>Go_UTF8\<close>, \<open>Go_Strings\<close>, \<open>Go_Base64\<close>, \<open>Go_URL\<close>, \<open>Go_Mime\<close>, \<open>Go_Time\<close>: the parts of \<open>unicode/utf8\<close>, \<open>strings\<close>,
      \<open>strconv\<close>, \<open>encoding/base64\<close>, \<open>net/url\<close>, \<open>mime\<close> and \<open>time\<close> that the code calls, with the round trips of their
      codecs.
    \<^item> \<open>Go_JSON\<close>, \<open>Go_JSON_Values\<close>: \<open>encoding/json\<close>: strings, the validity of a text, its parse tree, the token decoder,
      \<open>Unmarshal\<close> into the types the code uses.

  \<^bold>\<open>The core.\<close> One theory for each source file, in the order of their calls.
    \<^item> \<open>CE_Errors\<close> (\<open>errors.go\<close>), \<open>CE_Limits\<close> (\<open>limits.go\<close>), \<open>CE_Attribute\<close> (\<open>attribute.go\<close>, \<open>extensions.go\<close>),
      \<open>CE_Validation\<close> (\<open>validation.go\<close>), \<open>CE_Event\<close> (\<open>event.go\<close>), \<open>CE_Conversion\<close> (\<open>conversion.go\<close>). Shown: the
      constructors return valid attributes, except for timestamps outside the years 0 to 9999, and every valid one;
      validation reports exactly the violations of the rules (\<open>violation\<close>, \<open>selected_violation\<close>) in a fixed order;
      \<open>valid_event\<close> is an invariant that every constructor establishes; reports are canonical.
    \<^item> \<open>CE_Json\<close> (\<open>json.go\<close>), with \<open>CE_Json_Inspect\<close> (the recursive token walk ends without a failed assertion and
      refines a check on the parse tree), \<open>CE_Json_Decode\<close> (decoded events are admitted, errors are the documented
      ones) and \<open>CE_Json_Roundtrip\<close> (what is encoded without loss is decoded to the same event).
    \<^item> \<open>CE_Binding\<close>, \<open>CE_Kafka\<close> (\<open>kafka.go\<close>), \<open>CE_Http\<close> (\<open>http.go\<close>): the same for the two bindings, with admission,
      header scans, mode detection, percent encoding and the bounded read of a body. The metadata of a structured
      message may only say what the fields of its event say (\<open>carries\<close>).
    \<^item> \<open>CE_Contracts\<close>: the locales \<open>strict_encoder\<close>, \<open>event_decoder\<close> and \<open>lossless_binding\<close>, which JSON, Kafka and HTTP
      interpret; \<open>CE_Roundtrips\<close> holds the properties that span the formats.
    \<^item> \<open>CE_Boundaries\<close>: valid events that lie outside the hypotheses of the round trips, and why.
    \<^item> \<open>CE_Schema\<close> (\<open>schema.go\<close>): the validator decides exactly the valid events that have a schema and data.

  \<^bold>\<open>The adapters.\<close>
    \<^item> \<open>CE_Adapter\<close> (\<open>internal/adapter\<close>): extensions are added without replacing any, mapped strings never contradict
      retained state; the locale \<open>reversible_adapter\<close>.
    \<^item> \<open>CE_Envelopes\<close> (\<open>outbox\<close>, \<open>queue\<close>) and \<open>CE_Histories\<close> (\<open>event-sourcing\<close>, \<open>workflow\<close>) interpret that locale:
      \<open>FromCloudEvent\<close> undoes \<open>ToCloudEvent\<close> with the state it returned. \<open>CE_Compositions\<close> adds that the adapters do
      not depend on the order of extensions (\<open>stored_adapter\<close>), so a message survives the trip through a binding.
    \<^item> \<open>CE_Transports\<close> (\<open>kafka\<close>, \<open>rabbitstream\<close>): events and transport metadata pass through the records.
    \<^item> \<open>CE_Metadata\<close> (\<open>tenancy\<close>, \<open>correlation\<close>, \<open>telemetry\<close>, \<open>audit\<close>): metadata comes back, and only when trusted.
    \<^item> \<open>CE_Schema_Adapters\<close> (\<open>jsonschema\<close>, \<open>schema-registry\<close>): only configured URIs are ever resolved.

  \<^bold>\<open>Parameters.\<close> The libraries behind the adapters are not part of the repository. Their structs are records of the
  fields the adapters use, with the rest in one field of any type where it is copied; their functions are arguments,
  one by one or collected in a record (\<open>es_constructors\<close>, \<open>rabbit_library\<close>, \<open>tenancy_library\<close>, \<open>correlation_library\<close>,
  \<open>propagation_policy\<close>, \<open>audit_library\<close>, \<open>registry_library\<close>). A property that needs something of them says so: a
  parsed tenant has a value that parses to itself (\<open>canonical_tenants\<close>, \<open>stable_tenants\<close>), an identifier that a
  policy accepts is the string it was read from (\<open>plain_identifiers\<close>). The witnesses instantiate each of them.

  \<^bold>\<open>Fuel.\<close> \<open>inspectJSONValue\<close> counts calls; \<open>inspectJSON\<close> gives it one more than twice the length of the text, and
  the walk is shown to end within it. The JSON parser recurses with fuel that its length bounds. Every other loop is
  a fold or a recursion with a termination proof. A failed type assertion or an index out of range would be the
  error \<open>panicked\<close>, which the safety theorems exclude.

  \<^bold>\<open>Bounds of the model.\<close>
    \<^item> Lower case is modelled for ASCII and for the two characters whose lower case is or contains an ASCII letter
      (U+0130, U+212A); other letters are left as they are, and no result of the code depends on them.
    \<^item> A reader is a finite script of chunks and an error; a context is the error it reports before and after a
      blocking call; a context with a timeout is its parent and the timeout. Blocking, cancellation during a call and
      goroutines are outside.
    \<^item> When several entries of a map are wrong, Go may report any of them; the model reports the first in the list.
      The safety theorems speak of the class of the error only.
    \<^item> Sharing of memory is not modelled: a clone is a copy of the value.

  \<^bold>\<open>Not modelled.\<close> The facade \<open>adapters/golib\<close> consists of type aliases and functions that call an adapter with their
  own arguments; \<open>doc.go\<close>, the tests, examples and scripts are not part of the library's behaviour.
\<close>

end
